(* ===== verification/Prelude.thy ===== *)
theory Prelude
  imports Main "HOL-Library.Word" "HOL-Library.List_Lexorder"
begin

unbundle bit_operations_syntax

section \<open>Prelude\<close>

text \<open>
  Shared vocabulary of the development: the machine integers of the server, byte strings,
  results with an error value, big-endian integers, and the generic facts about them that
  the component theories use. Byte strings are compared in the lexicographic order of
  \<open>List_Lexorder\<close>, which is the order of Rust's \<open>[u8]\<close> and of the key-value
  backends.
\<close>

type_synonym u8 = "8 word"
type_synonym u16 = "16 word"
type_synonym u32 = "32 word"
type_synonym u64 = "64 word"
type_synonym bytes = "u8 list"

text \<open>An \<open>i64\<close> is an integer in its range; the operations that could leave it write
  out what they do.\<close>

type_synonym i64 = int

definition in_i64 :: "int \<Rightarrow> bool" where
  "in_i64 i \<longleftrightarrow> - (2 ^ 63) \<le> i \<and> i < 2 ^ 63"

text \<open>The server is built with overflow checks off (see \<^verbatim>\<open>src/Cargo.toml\<close>), so
  machine arithmetic wraps around, which is what \<open>word\<close> arithmetic does. A \<open>usize\<close>
  that is only a length or an index is a \<open>nat\<close>; where one is serialised it is a
  \<^typ>\<open>u64\<close>.\<close>

abbreviation u8_MAX :: u8 where "u8_MAX \<equiv> - 1"
abbreviation u32_MAX :: u32 where "u32_MAX \<equiv> - 1"
abbreviation u64_MAX :: u64 where "u64_MAX \<equiv> - 1"

text \<open>Collections of rewrite rules: \<open>codec\<close> for decode-after-encode laws, \<open>blen\<close>
  for lengths of encodings.\<close>

named_theorems codec \<open>decode-after-encode laws\<close>
named_theorems blen \<open>lengths of encodings\<close>

subsection \<open>Results\<close>

text \<open>\<open>Result<T, E>\<close> is \<open>'e + 'a\<close> with \<open>Inl\<close> the error; \<open>rbind\<close> is the
  \<open>?\<close> operator.\<close>

definition rbind :: "'e + 'a \<Rightarrow> ('a \<Rightarrow> 'e + 'b) \<Rightarrow> 'e + 'b" where
  "rbind r f = (case r of Inl e \<Rightarrow> Inl e | Inr x \<Rightarrow> f x)"

lemma rbind_simps [simp]:
  "rbind (Inl e) f = Inl e"
  "rbind (Inr x) f = f x"
  by (simp_all add: rbind_def)

lemma rbind_Inr_iff: "rbind r f = Inr y \<longleftrightarrow> (\<exists>x. r = Inr x \<and> f x = Inr y)"
  by (cases r) auto

lemma rbind_Inl_iff: "rbind r f = Inl e \<longleftrightarrow> r = Inl e \<or> (\<exists>x. r = Inr x \<and> f x = Inl e)"
  by (cases r) auto

definition ok_or :: "'e \<Rightarrow> 'a option \<Rightarrow> 'e + 'a" where
  "ok_or e x = (case x of None \<Rightarrow> Inl e | Some y \<Rightarrow> Inr y)"

lemma ok_or_simps [simp]:
  "ok_or e None = Inl e"
  "ok_or e (Some x) = Inr x"
  by (simp_all add: ok_or_def)

text \<open>\<open>slice.get(a..b)\<close>: \<open>None\<close> unless \<open>a \<le> b \<le> len\<close>.\<close>

definition get_range :: "'a list \<Rightarrow> nat \<Rightarrow> nat \<Rightarrow> 'a list option" where
  "get_range xs a b = (if a \<le> b \<and> b \<le> length xs then Some (take (b - a) (drop a xs)) else None)"

lemma get_range_append_left:
  "b \<le> length xs \<Longrightarrow> get_range (xs @ ys) a b = get_range xs a b"
  by (auto simp: get_range_def)

lemma get_range_mid [simp]:
  "get_range (xs @ ys @ zs) (length xs) (length xs + length ys) = Some ys"
  by (simp add: get_range_def)

lemma get_range_mid':
  "a = length xs \<Longrightarrow> b = a + length ys \<Longrightarrow> get_range (xs @ ys @ zs) a b = Some ys"
  by simp

definition nth_opt :: "'a list \<Rightarrow> nat \<Rightarrow> 'a option" where
  "nth_opt xs i = (if i < length xs then Some (xs ! i) else None)"

text \<open>A byte-string literal \<open>b"..."\<close>.\<close>

definition ascii :: "string \<Rightarrow> bytes" where
  "ascii s = map of_char s"

subsection \<open>Words\<close>

lemma unat_drop_bit_div [termination_simp]: "unat (drop_bit n w) = unat w div 2 ^ n"
  by (subst unat_drop_bit_eq) (rule drop_bit_eq_div)

subsection \<open>Big-endian integers\<close>

text \<open>\<open>be_nat n x\<close> is the \<open>n\<close>-byte big-endian representation of \<open>x\<close>
  (\<open>to_be_bytes\<close>), \<open>of_be\<close> reads one back (\<open>from_be_bytes\<close>).\<close>

fun be_nat :: "nat \<Rightarrow> nat \<Rightarrow> bytes" where
  "be_nat 0 x = []"
| "be_nat (Suc n) x = be_nat n (x div 256) @ [of_nat x]"

definition of_be :: "bytes \<Rightarrow> nat" where
  "of_be bs = foldl (\<lambda>a b. a * 256 + unat b) 0 bs"

lemma unat_u8_less [simp]: "unat (b :: u8) < 256"
  by (rule order_less_le_trans [OF unsigned_less]) simp

lemma length_be_nat [simp, blen]: "length (be_nat n x) = n"
  by (induction n arbitrary: x) auto

lemma of_be_snoc: "of_be (xs @ [b]) = of_be xs * 256 + unat b"
  by (simp add: of_be_def)

lemma of_be_Nil [simp]: "of_be [] = 0"
  by (simp add: of_be_def)

lemma of_be_be_nat: "x < 256 ^ n \<Longrightarrow> of_be (be_nat n x) = x"
proof (induction n arbitrary: x)
  case 0
  then show ?case by simp
next
  case (Suc n)
  then have "x div 256 < 256 ^ n" by (simp add: less_mult_imp_div_less)
  with Suc.IH show ?case by (simp add: of_be_snoc unat_of_nat)
qed

lemma of_be_less: "of_be bs < 256 ^ length bs"
proof (induction bs rule: rev_induct)
  case Nil
  then show ?case by simp
next
  case (snoc b bs)
  have step: "a < k \<Longrightarrow> c < 256 \<Longrightarrow> a * 256 + c < k * 256" for a c k :: nat
    by arith
  have "of_be bs * 256 + unat b < 256 ^ length bs * 256"
    by (rule step [OF snoc]) simp
  then show ?case by (simp add: of_be_snoc mult.commute)
qed

lemma be_nat_of_be: "be_nat (length bs) (of_be bs) = bs"
proof (induction bs rule: rev_induct)
  case Nil
  then show ?case by simp
next
  case (snoc b bs)
  have "(of_nat (of_be bs * 256 + unat b) :: u8) = b"
    by (rule word_unat_eq_iff [THEN iffD2]) (simp add: unat_of_nat del: of_nat_add of_nat_mult)
  with snoc show ?case by (simp add: of_be_snoc)
qed

lemma be_nat_inj: "x < 256 ^ n \<Longrightarrow> y < 256 ^ n \<Longrightarrow> be_nat n x = be_nat n y \<longleftrightarrow> x = y"
  by (metis of_be_be_nat)

text \<open>On byte strings of one length, lexicographic order is numeric order.\<close>

lemma less_append_same_length:
  fixes xs ys :: "'a::linorder list"
  assumes "length xs = length ys"
  shows "xs @ us < ys @ vs \<longleftrightarrow> xs < ys \<or> xs = ys \<and> us < vs"
  using assms by (induction xs ys rule: list_induct2) auto

lemma le_append_same_length:
  fixes xs ys :: "'a::linorder list"
  assumes "length xs = length ys"
  shows "xs @ us \<le> ys @ vs \<longleftrightarrow> xs < ys \<or> xs = ys \<and> us \<le> vs"
  using assms by (auto simp: le_less less_append_same_length)

lemma of_be_less_iff: "length xs = length ys \<Longrightarrow> of_be xs < of_be ys \<longleftrightarrow> xs < ys"
proof (induction xs arbitrary: ys rule: rev_induct)
  case Nil
  then show ?case by simp
next
  case (snoc a xs)
  then obtain b zs where ys: "ys = zs @ [b]" by (cases ys rule: rev_cases) auto
  with snoc have len: "length xs = length zs" and IH: "of_be xs < of_be zs \<longleftrightarrow> xs < zs" by auto
  have eq: "of_be xs = of_be zs \<longleftrightarrow> xs = zs"
    using len by (metis be_nat_of_be)
  have "unat a < 256" "unat b < 256" by simp_all
  then have "of_be xs * 256 + unat a < of_be zs * 256 + unat b \<longleftrightarrow>
      of_be xs < of_be zs \<or> of_be xs = of_be zs \<and> unat a < unat b"
    by linarith
  then show ?case
    using len IH eq by (simp add: ys of_be_snoc less_append_same_length word_less_nat_alt)
qed

lemma be_nat_less_iff:
  "x < 256 ^ n \<Longrightarrow> y < 256 ^ n \<Longrightarrow> be_nat n x < be_nat n y \<longleftrightarrow> x < y"
  by (metis of_be_be_nat of_be_less_iff length_be_nat)

lemma be_nat_le_iff:
  "x < 256 ^ n \<Longrightarrow> y < 256 ^ n \<Longrightarrow> be_nat n x \<le> be_nat n y \<longleftrightarrow> x \<le> y"
  by (auto simp: le_less be_nat_less_iff be_nat_inj)

lemma replicate_0_least: "replicate (length h) (0 :: u8) \<le> h"
  by (induction h) (auto simp: word_gt_0)

text \<open>The integer types that the store serialises.\<close>

definition be_u16 :: "u16 \<Rightarrow> bytes" where "be_u16 w = be_nat 2 (unat w)"
definition be_u32 :: "u32 \<Rightarrow> bytes" where "be_u32 w = be_nat 4 (unat w)"
definition be_u64 :: "u64 \<Rightarrow> bytes" where "be_u64 w = be_nat 8 (unat w)"

definition from_be_u32 :: "bytes \<Rightarrow> u32" where "from_be_u32 bs = of_nat (of_be bs)"
definition from_be_u64 :: "bytes \<Rightarrow> u64" where "from_be_u64 bs = of_nat (of_be bs)"

lemma length_be_u [simp, blen]:
  "length (be_u16 a) = 2" "length (be_u32 b) = 4" "length (be_u64 c) = 8"
  by (simp_all add: be_u16_def be_u32_def be_u64_def)

lemma unat_u32_less: "unat (w :: u32) < 256 ^ 4"
  by (rule order_less_le_trans [OF unsigned_less]) simp

lemma unat_u64_less: "unat (w :: u64) < 256 ^ 8"
  by (rule order_less_le_trans [OF unsigned_less]) simp

lemma from_be_be_u32 [simp, codec]: "from_be_u32 (be_u32 w) = w"
  by (simp add: from_be_u32_def be_u32_def of_be_be_nat [OF unat_u32_less])

lemma from_be_be_u64 [simp, codec]: "from_be_u64 (be_u64 w) = w"
  by (simp add: from_be_u64_def be_u64_def of_be_be_nat [OF unat_u64_less])

lemma be_from_be_u32: "length bs = 4 \<Longrightarrow> be_u32 (from_be_u32 bs) = bs"
  using of_be_less [of bs] be_nat_of_be [of bs]
  by (simp add: be_u32_def from_be_u32_def unat_of_nat)

lemma be_from_be_u64: "length bs = 8 \<Longrightarrow> be_u64 (from_be_u64 bs) = bs"
  using of_be_less [of bs] be_nat_of_be [of bs]
  by (simp add: be_u64_def from_be_u64_def unat_of_nat)

lemma be_u32_inj [simp]: "be_u32 a = be_u32 b \<longleftrightarrow> a = b"
  by (metis from_be_be_u32)

lemma be_u64_inj [simp]: "be_u64 a = be_u64 b \<longleftrightarrow> a = b"
  by (metis from_be_be_u64)

lemma be_u32_less_iff [simp]: "be_u32 a < be_u32 b \<longleftrightarrow> a < b"
  by (simp add: be_u32_def be_nat_less_iff [OF unat_u32_less unat_u32_less] word_less_nat_alt)

lemma be_u64_less_iff [simp]: "be_u64 a < be_u64 b \<longleftrightarrow> a < b"
  by (simp add: be_u64_def be_nat_less_iff [OF unat_u64_less unat_u64_less] word_less_nat_alt)

lemma be_u32_le_iff [simp]: "be_u32 a \<le> be_u32 b \<longleftrightarrow> a \<le> b"
  by (auto simp: le_less)

lemma be_u64_le_iff [simp]: "be_u64 a \<le> be_u64 b \<longleftrightarrow> a \<le> b"
  by (auto simp: le_less)

text \<open>Evaluation computes with integers, which are binary.\<close>

fun be_int :: "nat \<Rightarrow> int \<Rightarrow> bytes" where
  "be_int 0 x = []"
| "be_int (Suc n) x = be_int n (x div 256) @ [of_int x]"

definition int_of_be :: "bytes \<Rightarrow> int" where
  "int_of_be bs = foldl (\<lambda>a b. a * 256 + uint b) 0 bs"

lemma be_nat_int: "be_nat n x = be_int n (int x)"
  by (induction n arbitrary: x) (simp_all add: zdiv_int)

lemma int_of_be: "int (of_be bs) = int_of_be bs"
  by (induction bs rule: rev_induct) (simp_all add: of_be_def int_of_be_def)

lemma be_code [code]:
  "be_u16 a = be_int 2 (uint a)" "be_u32 b = be_int 4 (uint b)" "be_u64 c = be_int 8 (uint c)"
  by (simp_all add: be_u16_def be_u32_def be_u64_def be_nat_int)

lemma from_be_code [code]:
  "from_be_u32 bs = of_int (int_of_be bs)" "from_be_u64 bs = of_int (int_of_be bs)"
  by (simp_all add: from_be_u32_def from_be_u64_def flip: int_of_be)

text \<open>Fixed-width fields at the two ends of a key.\<close>

lemma be_append_eq [simp]:
  "be_u32 a @ xs = be_u32 b @ ys \<longleftrightarrow> a = b \<and> xs = ys"
  "be_u64 c @ xs = be_u64 d @ ys \<longleftrightarrow> c = d \<and> xs = ys"
  "xs @ be_u32 a = ys @ be_u32 b \<longleftrightarrow> xs = ys \<and> a = b"
  "xs @ be_u64 c = ys @ be_u64 d \<longleftrightarrow> xs = ys \<and> c = d"
  by (simp_all add: append_eq_append_conv)

lemma be_append_less [simp]:
  "be_u32 a @ xs < be_u32 b @ ys \<longleftrightarrow> a < b \<or> a = b \<and> xs < ys"
  "be_u64 c @ xs < be_u64 d @ ys \<longleftrightarrow> c < d \<or> c = d \<and> xs < ys"
  by (simp_all add: less_append_same_length)

lemma be_append_le [simp]:
  "be_u32 a @ xs \<le> be_u32 b @ ys \<longleftrightarrow> a < b \<or> a = b \<and> xs \<le> ys"
  "be_u64 c @ xs \<le> be_u64 d @ ys \<longleftrightarrow> c < d \<or> c = d \<and> xs \<le> ys"
  by (simp_all add: le_append_same_length)

lemma get_range_exact [simp]: "get_range xs 0 (length xs) = Some xs"
  by (simp add: get_range_def)

subsection \<open>Sizes and text\<close>

text \<open>Subtraction of \<open>usize\<close> values wraps around.\<close>

definition usize_sub :: "nat \<Rightarrow> nat \<Rightarrow> nat" where
  "usize_sub a b = (if b \<le> a then a - b else 2 ^ 64 - (b - a))"

lemma usize_sub_le [simp]: "b \<le> a \<Longrightarrow> usize_sub a b = a - b"
  by (simp add: usize_sub_def)

text \<open>\<open>std::str::from_utf8\<close> succeeds on the well-formed sequences of the Unicode
  standard.\<close>

definition utf8_cont :: "u8 \<Rightarrow> u8 \<Rightarrow> u8 \<Rightarrow> bool" where
  "utf8_cont lo hi b = (lo \<le> b \<and> b \<le> hi)"

fun is_utf8 :: "bytes \<Rightarrow> bool" where
  "is_utf8 [] = True"
| "is_utf8 [b] = (b < 0x80)"
| "is_utf8 (b # c # bs) =
     (if b < 0x80 then is_utf8 (c # bs)
      else if 0xC2 \<le> b \<and> b \<le> 0xDF then utf8_cont 0x80 0xBF c \<and> is_utf8 bs
      else if 0xE0 \<le> b \<and> b \<le> 0xEF then
        (case bs of
           d # bs' \<Rightarrow>
             utf8_cont (if b = 0xE0 then 0xA0 else 0x80) (if b = 0xED then 0x9F else 0xBF) c \<and>
             utf8_cont 0x80 0xBF d \<and> is_utf8 bs'
         | _ \<Rightarrow> False)
      else if 0xF0 \<le> b \<and> b \<le> 0xF4 then
        (case bs of
           d # e # bs' \<Rightarrow>
             utf8_cont (if b = 0xF0 then 0x90 else 0x80) (if b = 0xF4 then 0x8F else 0xBF) c \<and>
             utf8_cont 0x80 0xBF d \<and> utf8_cont 0x80 0xBF e \<and> is_utf8 bs'
         | _ \<Rightarrow> False)
      else False)"

end
