(* ===== verification/Leb128.thy ===== *)
theory Leb128
  imports Prelude
begin

unbundle bit_operations_syntax

section \<open>Variable-length integers\<close>

text \<open>
  Models \<^verbatim>\<open>src/crates/utils/src/codec/leb128.rs\<close>. The macro
  \<open>impl_unsigned_leb128\<close> is instantiated at \<open>u8\<close>, \<open>u16\<close>, \<open>u32\<close>, \<open>u64\<close> and
  \<open>usize\<close> with one list of shifts each; here the functions are polymorphic in the word
  length and take the list of shifts as an argument. An iterator over bytes is the list of
  the bytes it has left.
\<close>

subsection \<open>Encoding\<close>

text \<open>The loop of \<open>to_leb128_bytes\<close>, which appends to \<open>out\<close>.\<close>

function to_leb128_bytes :: "'a::len word \<Rightarrow> bytes \<Rightarrow> bytes" where
  "to_leb128_bytes v out =
     (if unat v < 0x80 then out @ [ucast v]
      else to_leb128_bytes (drop_bit 7 v) (out @ [ucast ((v AND 0x7f) OR 0x80)]))"
  by pat_completeness auto
termination
  by (relation "measure (\<lambda>(v, out). unat v)") (auto simp: unat_drop_bit_div)

declare to_leb128_bytes.simps [simp del]

text \<open>\<open>to_leb128_writer\<close> counts the bytes it hands to the writer; a writer of bytes is the
  list of the bytes written so far.\<close>

function to_leb128_writer_loop :: "'a::len word \<Rightarrow> bytes \<Rightarrow> nat \<Rightarrow> nat \<times> bytes" where
  "to_leb128_writer_loop v out bytes_written =
     (if unat v < 0x80 then (bytes_written + 1, out @ [ucast v])
      else to_leb128_writer_loop (drop_bit 7 v)
             (out @ [ucast ((v AND 0x7f) OR 0x80)]) (bytes_written + 1))"
  by pat_completeness auto
termination
  by (relation "measure (\<lambda>(v, out, n). unat v)") (auto simp: unat_drop_bit_div)

declare to_leb128_writer_loop.simps [simp del]

definition to_leb128_writer :: "'a::len word \<Rightarrow> bytes \<Rightarrow> nat \<times> bytes" where
  "to_leb128_writer v out = to_leb128_writer_loop v out 0"

subsection \<open>Decoding\<close>

definition shifts_u8 :: "nat list" where "shifts_u8 = [0]"
definition shifts_u16 :: "nat list" where "shifts_u16 = [0, 7, 14]"
definition shifts_u32 :: "nat list" where "shifts_u32 = [0, 7, 14, 21, 28]"
definition shifts_u64 :: "nat list" where
  "shifts_u64 = [0, 7, 14, 21, 28, 35, 42, 49, 56, 63]"

text \<open>\<open>from_leb128_bytes_pos\<close>: the loop over \<open>shifts.zip(slice.enumerate())\<close>.\<close>

fun from_leb128_pos_loop :: "nat list \<Rightarrow> bytes \<Rightarrow> nat \<Rightarrow> 'a::len word \<Rightarrow> ('a word \<times> nat) option" where
  "from_leb128_pos_loop (shift # shifts) (byte # bs) pos result =
     (if byte AND 0x80 = 0 then Some (result OR push_bit shift (ucast byte), pos + 1)
      else from_leb128_pos_loop shifts bs (pos + 1)
             (result OR push_bit shift (ucast (byte AND 0x7F))))"
| "from_leb128_pos_loop _ _ _ _ = None"

definition from_leb128_bytes_pos :: "nat list \<Rightarrow> bytes \<Rightarrow> ('a::len word \<times> nat) option" where
  "from_leb128_bytes_pos shifts bs = from_leb128_pos_loop shifts bs 0 0"

text \<open>\<open>from_leb128_it\<close> and \<open>next_leb128\<close> consume an iterator, so the model also returns
  what is left of it.\<close>

fun from_leb128_it :: "nat list \<Rightarrow> bytes \<Rightarrow> 'a::len word \<Rightarrow> ('a word \<times> bytes) option" where
  "from_leb128_it (shift # shifts) (byte # it) result =
     (if byte AND 0x80 = 0 then Some (result OR push_bit shift (ucast byte), it)
      else from_leb128_it shifts it (result OR push_bit shift (ucast (byte AND 0x7F))))"
| "from_leb128_it _ _ _ = None"

definition from_leb128_bytes :: "nat list \<Rightarrow> bytes \<Rightarrow> 'a::len word option" where
  "from_leb128_bytes shifts bs = map_option fst (from_leb128_it shifts bs 0)"

definition next_leb128 :: "nat list \<Rightarrow> bytes \<Rightarrow> ('a::len word \<times> bytes) option" where
  "next_leb128 shifts it = from_leb128_it shifts it 0"

fun skip_leb128_it :: "bytes \<Rightarrow> bytes option" where
  "skip_leb128_it [] = None"
| "skip_leb128_it (byte # it) = (if byte AND 0x80 = 0 then Some it else skip_leb128_it it)"

fun skip_leb128_loop :: "bytes \<Rightarrow> nat \<Rightarrow> nat option" where
  "skip_leb128_loop [] pos = None"
| "skip_leb128_loop (byte # bs) pos =
     (if byte AND 0x80 = 0 then Some (pos + 1) else skip_leb128_loop bs (pos + 1))"

definition skip_leb128 :: "bytes \<Rightarrow> nat option" where
  "skip_leb128 bs = skip_leb128_loop bs 0"

subsection \<open>What the encoder writes\<close>

definition leb128 :: "'a::len word \<Rightarrow> bytes" where
  "leb128 v = to_leb128_bytes v []"

lemma to_leb128_bytes_append: "to_leb128_bytes v (xs @ out) = xs @ to_leb128_bytes v out"
proof (induction v out rule: to_leb128_bytes.induct)
  case (1 v out)
  then show ?case
    by (simp add: to_leb128_bytes.simps [of v out] to_leb128_bytes.simps [of v "xs @ out"])
qed

lemma to_leb128_bytes_out: "to_leb128_bytes v out = out @ leb128 v"
  using to_leb128_bytes_append [of v out "[]"] by (simp add: leb128_def)

lemma leb128_rec:
  "leb128 v = (if unat v < 0x80 then [ucast v]
     else ucast ((v AND 0x7f) OR 0x80) # leb128 (drop_bit 7 v))"
  by (subst leb128_def, subst to_leb128_bytes.simps) (simp add: to_leb128_bytes_out)

lemma leb128_induct [case_names last more]:
  assumes "\<And>v. unat v < 0x80 \<Longrightarrow> P v"
    and "\<And>v. \<not> unat v < 0x80 \<Longrightarrow> P (drop_bit 7 v) \<Longrightarrow> P v"
  shows "P (v :: 'a::len word)"
proof (induction "unat v" arbitrary: v rule: less_induct)
  case less
  show ?case
  proof (cases "unat v < 0x80")
    case False
    then have "unat (drop_bit 7 v) < unat v" by (simp add: unat_drop_bit_div)
    then have "P (drop_bit 7 v)" by (rule less.hyps)
    with False show ?thesis by (rule assms(2))
  qed (rule assms(1))
qed

lemma leb128_last: "unat v < 0x80 \<Longrightarrow> leb128 v = [ucast v]"
  by (simp add: leb128_rec)

lemma leb128_more:
  "\<not> unat v < 0x80 \<Longrightarrow>
   leb128 v = ucast ((v AND 0x7f) OR 0x80) # leb128 (drop_bit 7 v)"
  by (subst leb128_rec) simp

lemma leb128_not_Nil [simp]: "leb128 v \<noteq> []"
  by (subst leb128_rec) simp

lemma to_leb128_writer_loop_eq:
  "to_leb128_writer_loop v out n = (n + length (leb128 v), out @ leb128 v)"
proof (induction v out n rule: to_leb128_writer_loop.induct)
  case (1 v out n)
  then show ?case
    by (subst to_leb128_writer_loop.simps) (simp add: leb128_last leb128_more)
qed

text \<open>The bytes of an encoding: the last one has its high bit clear, all others have it set.\<close>

lemma high_bit: "(b :: u8) AND 0x80 = 0 \<longleftrightarrow> \<not> bit b 7"
  using and_exp_eq_0_iff_not_bit [of b 7] by simp

lemma bit_small:
  assumes "unat (v :: 'a::len word) < 0x80" and "7 \<le> n"
  shows "\<not> bit v n"
proof -
  have "unat v < 2 ^ n"
    using assms power_increasing [of 7 n "2 :: nat"] by simp
  then have "\<not> bit (unat v) n" by (simp add: bit_iff_odd)
  then show ?thesis by (simp add: bit_unsigned_iff)
qed

lemma bit_7f: "bit (0x7f :: int) n \<longleftrightarrow> n < 7"
proof -
  have "(0x7f :: int) = mask 7" by (simp add: mask_eq_exp_minus_1)
  then show ?thesis by (simp only: bit_mask_iff) auto
qed

lemma bit_80: "bit (0x80 :: int) n \<longleftrightarrow> n = 7"
proof -
  have "(0x80 :: int) = 2 ^ 7" by simp
  then show ?thesis by (simp only: bit_exp_iff) auto
qed

lemma last_byte:
  assumes "unat (v :: 'a::len word) < 0x80"
  shows "(ucast v :: u8) AND 0x80 = 0" and "ucast (ucast v :: u8) = v"
proof -
  show "(ucast v :: u8) AND 0x80 = 0"
    by (simp add: high_bit bit_ucast_iff bit_small [OF assms])
  show "ucast (ucast v :: u8) = v"
  proof (rule bit_word_eqI)
    fix n assume "n < LENGTH('a)"
    then show "bit (ucast (ucast v :: u8) :: 'a word) n = bit v n"
      using bit_small [OF assms, of n] by (cases "n < 7") (auto simp: bit_ucast_iff)
  qed
qed

lemma more_byte:
  assumes "8 \<le> LENGTH('a)"
  shows "(ucast (((v :: 'a::len word) AND 0x7f) OR 0x80) :: u8) AND 0x80 \<noteq> 0"
    and "ucast ((ucast ((v AND 0x7f) OR 0x80) :: u8) AND 0x7F) = v AND 0x7f"
proof -
  show "(ucast ((v AND 0x7f) OR 0x80) :: u8) AND 0x80 \<noteq> 0"
    using assms by (simp add: high_bit bit_ucast_iff bit_or_iff bit_80)
  show "ucast ((ucast ((v AND 0x7f) OR 0x80) :: u8) AND 0x7F) = v AND 0x7f"
    by (rule bit_word_eqI) (auto simp: bit_ucast_iff bit_or_iff bit_and_iff bit_80 bit_7f)
qed

subsection \<open>Decoding an encoding\<close>

text \<open>\<open>seven k n\<close> is the tail of a list of \<open>n\<close> shifts after \<open>k\<close> of them were used.\<close>

definition seven :: "nat \<Rightarrow> nat \<Rightarrow> nat list" where
  "seven k n = map ((*) 7) [k..<n]"

lemma seven_Cons: "k < n \<Longrightarrow> seven k n = 7 * k # seven (Suc k) n"
  by (simp add: seven_def upt_conv_Cons)

lemma shifts_seven:
  "shifts_u8 = seven 0 1" "shifts_u16 = seven 0 3" "shifts_u32 = seven 0 5" "shifts_u64 = seven 0 10"
  by (simp_all add: seven_def shifts_u8_def shifts_u16_def shifts_u32_def shifts_u64_def upt_rec)

lemma or_push_drop:
  "push_bit s (v AND 0x7f) OR push_bit (s + 7) (drop_bit 7 v) = push_bit s (v :: 'a::len word)"
proof (rule bit_word_eqI)
  fix n assume n: "n < LENGTH('a)"
  have "s + 7 \<le> n \<Longrightarrow> 7 + (n - (s + 7)) = n - s" by simp
  with n show "bit (push_bit s (v AND 0x7f) OR push_bit (s + 7) (drop_bit 7 v)) n =
      bit (push_bit s v) n"
    by (cases "s + 7 \<le> n")
      (auto simp: bit_or_iff bit_push_bit_iff bit_and_iff bit_7f bit_drop_bit_eq simp del: push_bit_and)
qed

lemma from_leb128_it_loop:
  assumes "8 \<le> LENGTH('a)"
  shows "k < n \<Longrightarrow> unat (v :: 'a::len word) < 2 ^ (7 * (n - k)) \<Longrightarrow>
    from_leb128_it (seven k n) (leb128 v @ rest) r = Some (r OR push_bit (7 * k) v, rest)"
proof (induction v arbitrary: k r rule: leb128_induct)
  case (last v)
  then show ?case by (simp add: leb128_last seven_Cons last_byte)
next
  case (more v)
  have "2 ^ 7 \<le> unat v" using more.hyps by simp
  also have "\<dots> < 2 ^ (7 * (n - k))" by (rule more.prems(2))
  finally have "7 < 7 * (n - k)" by (rule power_less_imp_less_exp [rotated]) simp
  then have "Suc k < n" by arith
  moreover from this have "7 * (n - k) = 7 + 7 * (n - Suc k)" by arith
  with more.prems(2) have "unat (drop_bit 7 v) < 2 ^ (7 * (n - Suc k))"
    by (simp add: unat_drop_bit_div power_add less_mult_imp_div_less)
  ultimately have "from_leb128_it (seven (Suc k) n) (leb128 (drop_bit 7 v) @ rest)
      (r OR push_bit (7 * k) (v AND 0x7f)) =
    Some ((r OR push_bit (7 * k) (v AND 0x7f)) OR push_bit (7 * k + 7) (drop_bit 7 v), rest)"
    by (simp add: more.IH add.commute)
  with more show ?case
    by (simp add: leb128_more seven_Cons more_byte [OF assms] or_push_drop or.assoc
        del: push_bit_and)
qed

lemma next_leb128_seven:
  assumes "8 \<le> LENGTH('a)" and "LENGTH('a) \<le> 7 * n"
  shows "next_leb128 (seven 0 n) (leb128 (v :: 'a::len word) @ rest) = Some (v, rest)"
proof -
  have "unat v < 2 ^ LENGTH('a)" by (rule unsigned_less)
  also have "\<dots> \<le> 2 ^ (7 * n)" using assms(2) by (rule power_increasing) simp
  finally have "unat v < 2 ^ (7 * (n - 0))" by simp
  moreover have "0 < n" using assms by simp
  ultimately show ?thesis
    by (simp add: next_leb128_def from_leb128_it_loop [OF assms(1)])
qed

lemma next_leb128_u16 [simp, codec]: "next_leb128 shifts_u16 (leb128 v @ rest) = Some (v :: u16, rest)"
  by (simp add: shifts_seven next_leb128_seven)

lemma next_leb128_u32 [simp, codec]: "next_leb128 shifts_u32 (leb128 v @ rest) = Some (v :: u32, rest)"
  by (simp add: shifts_seven next_leb128_seven)

lemma next_leb128_u64 [simp, codec]: "next_leb128 shifts_u64 (leb128 v @ rest) = Some (v :: u64, rest)"
  by (simp add: shifts_seven next_leb128_seven)

text \<open>The three decoders agree; the position is the number of bytes taken.\<close>

lemma from_leb128_it_shorter:
  "from_leb128_it shifts bs r = Some (v, rest) \<Longrightarrow> length rest < length bs"
proof (induction shifts bs r rule: from_leb128_it.induct)
  case (1 shift shifts byte it r)
  then show ?case by (cases "byte AND 0x80 = 0") (auto dest: "1.IH")
qed simp_all

lemma from_leb128_pos_loop_it:
  "from_leb128_pos_loop shifts bs pos r =
     map_option (\<lambda>(v, rest). (v, pos + (length bs - length rest))) (from_leb128_it shifts bs r)"
proof (induction shifts bs pos r rule: from_leb128_pos_loop.induct)
  case (1 shift shifts byte bs pos r)
  show ?case
  proof (cases "byte AND 0x80 = 0")
    case False
    with "1.IH" show ?thesis
      by (cases "from_leb128_it shifts bs (r OR push_bit shift (ucast (byte AND 0x7F)))")
        (auto dest: from_leb128_it_shorter)
  qed simp
qed simp_all

lemma from_leb128_bytes_pos_it:
  "from_leb128_bytes_pos shifts bs =
     map_option (\<lambda>(v, rest). (v, length bs - length rest)) (next_leb128 shifts bs)"
  by (simp add: from_leb128_bytes_pos_def next_leb128_def from_leb128_pos_loop_it)

lemma from_leb128_bytes_it: "from_leb128_bytes shifts bs = map_option fst (next_leb128 shifts bs)"
  by (simp add: from_leb128_bytes_def next_leb128_def)

lemma next_leb128_shorter: "next_leb128 shifts bs = Some (v, rest) \<Longrightarrow> length rest < length bs"
  by (auto simp: next_leb128_def dest: from_leb128_it_shorter)

text \<open>Skipping passes over exactly the bytes of one encoding.\<close>

lemma skip_leb128_it_leb128:
  "8 \<le> LENGTH('a) \<Longrightarrow> skip_leb128_it (leb128 (v :: 'a::len word) @ rest) = Some rest"
proof (induction v rule: leb128_induct)
  case (last v)
  then show ?case by (simp add: leb128_last last_byte)
next
  case (more v)
  then show ?case by (simp add: leb128_more more_byte)
qed

lemma skip_leb128_it_shorter: "skip_leb128_it bs = Some rest \<Longrightarrow> length rest < length bs"
  by (induction bs) (auto split: if_splits)

lemma skip_leb128_loop_it:
  "skip_leb128_loop bs pos = map_option (\<lambda>rest. pos + (length bs - length rest)) (skip_leb128_it bs)"
proof (induction bs arbitrary: pos)
  case (Cons byte bs)
  then show ?case
    by (cases "skip_leb128_it bs") (auto dest: skip_leb128_it_shorter)
qed simp

text \<open>Lengths.\<close>

lemma length_leb128_le: "unat (v :: 'a::len word) < 2 ^ (7 * n) \<Longrightarrow> 0 < n \<Longrightarrow> length (leb128 v) \<le> n"
proof (induction v arbitrary: n rule: leb128_induct)
  case (last v)
  then show ?case by (simp add: leb128_last)
next
  case (more v)
  from more.hyps more.prems have "2 ^ 7 < (2 :: nat) ^ (7 * n)" by simp
  then have "7 < 7 * n" by (rule power_less_imp_less_exp [rotated]) simp
  then obtain m where n: "n = Suc m" and m: "0 < m" by (cases n) auto
  with more.prems have "unat (drop_bit 7 v) < 2 ^ (7 * m)"
    by (simp add: unat_drop_bit_div power_add less_mult_imp_div_less)
  from more.IH [OF this m] show ?case using more.hyps n by (simp add: leb128_more)
qed

text \<open>No encoding is a proper prefix of another: equal byte strings split in one way.\<close>

lemma leb128_prefix_free_u32:
  "leb128 (a :: u32) @ xs = leb128 b @ ys \<longleftrightarrow> a = b \<and> xs = ys"
  by (metis next_leb128_u32 option.inject prod.inject)

lemma leb128_prefix_free_u64:
  "leb128 (a :: u64) @ xs = leb128 b @ ys \<longleftrightarrow> a = b \<and> xs = ys"
  by (metis next_leb128_u64 option.inject prod.inject)

lemma leb128_inj [simp]:
  "leb128 (a :: u32) = leb128 b \<longleftrightarrow> a = b"
  "leb128 (c :: u64) = leb128 d \<longleftrightarrow> c = d"
  using leb128_prefix_free_u32 [of a "[]" b "[]"] leb128_prefix_free_u64 [of c "[]" d "[]"] by simp_all

subsection \<open>Properties\<close>

text \<open>C26: decoding what the encoder appended, followed by any other bytes, gives the integer back
  and takes exactly the encoder's bytes, at every width the server stores (\<open>u16\<close>, \<open>u32\<close>,
  \<open>u64\<close> and \<open>usize\<close>), and no encoding is longer than 3, 5 and 10 bytes.\<close>

theorem leb128_roundtrip:
  fixes a :: u16 and b :: u32 and c :: u64
  shows "from_leb128_bytes_pos shifts_u16 (to_leb128_bytes a [] @ rest) =
           Some (a, length (to_leb128_bytes a []))
       \<and> from_leb128_bytes_pos shifts_u32 (to_leb128_bytes b [] @ rest) =
           Some (b, length (to_leb128_bytes b []))
       \<and> from_leb128_bytes_pos shifts_u64 (to_leb128_bytes c [] @ rest) =
           Some (c, length (to_leb128_bytes c []))
       \<and> next_leb128 shifts_u64 (to_leb128_bytes c [] @ rest) = Some (c, rest)
       \<and> length (to_leb128_bytes a []) \<le> 3 \<and> length (to_leb128_bytes b []) \<le> 5
       \<and> length (to_leb128_bytes c []) \<le> 10"
proof -
  have "unat a < 2 ^ (7 * 3)" "unat b < 2 ^ (7 * 5)" "unat c < 2 ^ (7 * 10)"
    by (rule order_less_le_trans [OF unsigned_less], simp)+
  then have "length (leb128 a) \<le> 3" "length (leb128 b) \<le> 5" "length (leb128 c) \<le> 10"
    by (auto intro: length_leb128_le)
  then show ?thesis
    by (simp add: to_leb128_bytes_out from_leb128_bytes_pos_it)
qed

text \<open>At \<open>u8\<close> the list of shifts has one entry, so an encoded value of 128 or more is never
  decoded: the decoder stops after the first byte.\<close>

theorem leb128_u8_not_decoded:
  fixes v :: u8
  assumes "0x80 \<le> v"
  shows "from_leb128_bytes shifts_u8 (to_leb128_bytes v []) = None"
proof -
  from assms have "\<not> unat v < 0x80" by (simp add: word_le_nat_alt)
  then show ?thesis
    by (simp add: to_leb128_bytes_out leb128_more from_leb128_bytes_it next_leb128_def
        shifts_u8_def more_byte)
qed

theorem leb128_u8_not_decoded_witness:
  "from_leb128_bytes shifts_u8 (to_leb128_bytes (200 :: u8) []) = None"
  by (rule leb128_u8_not_decoded) simp

end
