(* ===== verification/Base32.thy ===== *)
theory Base32
  imports Leb128
begin

unbundle bit_operations_syntax

section \<open>The custom Base32 codec\<close>

text \<open>
  Models \<^verbatim>\<open>src/crates/utils/src/codec/base32_custom.rs\<close>: the writer and the reader
  that print and parse the server's identifiers. The output \<open>String\<close> of the writer only ever
  receives ASCII characters and is a byte string here.
\<close>

definition BASE32_ALPHABET :: bytes where
  "BASE32_ALPHABET = ascii ''abcdefghijklmnopqrstuvwxyz792013''"

definition BASE32_INVERSE :: bytes where
  "BASE32_INVERSE = [
    255, 255, 255, 255, 255, 255, 255, 255, 255, 255, 255, 255, 255, 255, 255, 255, 255, 255, 255, 255,
    255, 255, 255, 255, 255, 255, 255, 255, 255, 255, 255, 255, 255, 255, 255, 255, 255, 255, 255, 255,
    255, 255, 255, 255, 255, 255, 255, 255, 29, 30, 28, 31, 255, 255, 255, 26, 255, 27, 255, 255,
    255, 255, 255, 255, 255, 255, 255, 255, 255, 255, 255, 255, 255, 255, 255, 10, 11, 12, 13, 14,
    15, 16, 17, 18, 19, 20, 21, 22, 23, 24, 25, 255, 255, 255, 255, 255, 255, 0, 1, 2,
    3, 4, 5, 6, 7, 8, 9, 10, 11, 12, 13, 14, 15, 16, 17, 18, 19, 20, 21, 22,
    23, 24, 25, 255, 255, 255, 255, 255, 255, 255, 255, 255, 255, 255, 255, 255, 255, 255, 255, 255,
    255, 255, 255, 255, 255, 255, 255, 255, 255, 255, 255, 255, 255, 255, 255, 255, 255, 255, 255, 255,
    255, 255, 255, 255, 255, 255, 255, 255, 255, 255, 255, 255, 255, 255, 255, 255, 255, 255, 255, 255,
    255, 255, 255, 255, 255, 255, 255, 255, 255, 255, 255, 255, 255, 255, 255, 255, 255, 255, 255, 255,
    255, 255, 255, 255, 255, 255, 255, 255, 255, 255, 255, 255, 255, 255, 255, 255, 255, 255, 255, 255,
    255, 255, 255, 255, 255, 255, 255, 255, 255, 255, 255, 255, 255, 255, 255, 255, 255, 255, 255, 255,
    255, 255, 255, 255, 255, 255, 255, 255, 255, 255, 255, 255, 255, 255, 255, 255]"

subsection \<open>Writer\<close>

record base32_writer =
  last_byte :: u8
  pos :: nat
  res :: bytes

definition writer_new :: base32_writer where
  "writer_new = \<lparr>last_byte = 0, pos = 0, res = []\<rparr>"

definition push_char :: "base32_writer \<Rightarrow> u8 \<Rightarrow> base32_writer" where
  "push_char w ch = w\<lparr>res := res w @ [ch]\<rparr>"

definition push_string :: "base32_writer \<Rightarrow> bytes \<Rightarrow> base32_writer" where
  "push_string w s = w\<lparr>res := res w @ s\<rparr>"

text \<open>The two five-bit symbols that a byte completes; the second one is \<open>u8::MAX\<close> when there
  is none.\<close>

definition byte_symbols :: "nat \<Rightarrow> u8 \<Rightarrow> u8 \<Rightarrow> u8 \<times> u8" where
  "byte_symbols p lb byte =
     (if p = 0 then (drop_bit 3 (byte AND 0xF8), u8_MAX)
      else if p = 1 then
        (push_bit 2 (lb AND 0x07) OR drop_bit 6 (byte AND 0xC0), drop_bit 1 (byte AND 0x3E))
      else if p = 2 then (push_bit 4 (lb AND 0x01) OR drop_bit 4 (byte AND 0xF0), u8_MAX)
      else if p = 3 then
        (push_bit 1 (lb AND 0x0F) OR drop_bit 7 byte, drop_bit 2 (byte AND 0x7C))
      else (push_bit 3 (lb AND 0x03) OR drop_bit 5 (byte AND 0xE0), byte AND 0x1F))"

definition push_byte :: "base32_writer \<Rightarrow> u8 \<Rightarrow> bool \<Rightarrow> base32_writer" where
  "push_byte w byte is_remainder =
     (case byte_symbols (pos w mod 5) (last_byte w) byte of (ch1, ch2) \<Rightarrow>
        let w1 = w\<lparr>res := res w @ [BASE32_ALPHABET ! unat ch1]\<rparr> in
        if is_remainder then w1
        else
          (let w2 = (if ch2 \<noteq> u8_MAX then w1\<lparr>res := res w1 @ [BASE32_ALPHABET ! unat ch2]\<rparr> else w1)
           in w2\<lparr>last_byte := byte, pos := pos w2 + 1\<rparr>))"

fun write_slice :: "base32_writer \<Rightarrow> bytes \<Rightarrow> base32_writer" where
  "write_slice w [] = w"
| "write_slice w (byte # bytes) = write_slice (push_byte w byte False) bytes"

definition from_bytes :: "bytes \<Rightarrow> base32_writer" where
  "from_bytes bytes = write_slice writer_new bytes"

definition finalize :: "base32_writer \<Rightarrow> bytes" where
  "finalize w = (if pos w mod 5 \<noteq> 0 then res (push_byte w 0 True) else res w)"

subsection \<open>Reader\<close>

record base32_reader =
  rd_bytes :: bytes
  rd_last_byte :: u8
  rd_pos :: nat

definition reader_new :: "bytes \<Rightarrow> base32_reader" where
  "reader_new bytes = \<lparr>rd_bytes = bytes, rd_last_byte = 0, rd_pos = 0\<rparr>"

definition map_byte :: "base32_reader \<Rightarrow> u8 option \<times> base32_reader" where
  "map_byte r =
     (case rd_bytes r of
        [] \<Rightarrow> (None, r)
      | byte # bytes \<Rightarrow>
          (let b = BASE32_INVERSE ! unat byte in
           if b \<noteq> u8_MAX then (Some b, r\<lparr>rd_bytes := bytes, rd_last_byte := b\<rparr>)
           else (None, r\<lparr>rd_bytes := bytes\<rparr>)))"

definition unwrap_or0 :: "u8 option \<Rightarrow> u8" where
  "unwrap_or0 x = (case x of None \<Rightarrow> 0 | Some b \<Rightarrow> b)"

definition reader_next :: "base32_reader \<Rightarrow> u8 option \<times> base32_reader" where
  "reader_next r =
     (let p = rd_pos r mod 5; lb = rd_last_byte r in
      case map_byte r of
        (None, r1) \<Rightarrow> (None, r1)
      | (Some byte, r1) \<Rightarrow>
          (let r2 = r1\<lparr>rd_pos := rd_pos r1 + 1\<rparr> in
           if p = 0 then
             (case map_byte r2 of (m, r3) \<Rightarrow> (Some (push_bit 3 byte OR drop_bit 2 (unwrap_or0 m)), r3))
           else if p = 1 then
             (case map_byte r2 of (m, r3) \<Rightarrow>
               (Some (push_bit 6 lb OR push_bit 1 byte OR drop_bit 4 (unwrap_or0 m)), r3))
           else if p = 2 then (Some (push_bit 4 lb OR drop_bit 1 byte), r2)
           else if p = 3 then
             (case map_byte r2 of (m, r3) \<Rightarrow>
               (Some (push_bit 7 lb OR push_bit 2 byte OR drop_bit 3 (unwrap_or0 m)), r3))
           else (Some (push_bit 5 lb OR byte), r2)))"

lemma map_byte_shorter:
  "length (rd_bytes (snd (map_byte r))) \<le> length (rd_bytes r)"
  by (simp add: map_byte_def Let_def split: list.split)

lemma map_byte_Some_shorter:
  "map_byte r = (Some b, r') \<Longrightarrow> length (rd_bytes r') < length (rd_bytes r)"
  by (auto simp: map_byte_def Let_def split: list.splits if_splits)

lemma reader_next_shorter:
  "reader_next r = (Some b, r') \<Longrightarrow> length (rd_bytes r') < length (rd_bytes r)"
proof -
  assume nxt: "reader_next r = (Some b, r')"
  then obtain c r1 where r1: "map_byte r = (Some c, r1)"
    by (auto simp: reader_next_def Let_def split: prod.splits option.splits)
  have "length (rd_bytes r') \<le> length (rd_bytes r1)"
    using nxt r1 map_byte_shorter [of "r1\<lparr>rd_pos := rd_pos r1 + 1\<rparr>"]
    by (auto simp: reader_next_def Let_def split: prod.splits if_splits)
  with map_byte_Some_shorter [OF r1] show ?thesis by simp
qed

text \<open>\<open>for byte in reader\<close> and \<open>collect\<close>: call \<open>next\<close> until it returns \<open>None\<close>.\<close>

function reader_collect :: "base32_reader \<Rightarrow> bytes" where
  "reader_collect r = (case reader_next r of (None, r') \<Rightarrow> [] | (Some b, r') \<Rightarrow> b # reader_collect r')"
  by pat_completeness auto
termination
  by (relation "measure (\<lambda>r. length (rd_bytes r))") (auto dest: sym reader_next_shorter)

declare reader_collect.simps [simp del]

subsection \<open>The alphabet and its inverse\<close>

lemma inverse_alphabet_all:
  "list_all (\<lambda>c. BASE32_INVERSE ! unat (BASE32_ALPHABET ! c) = of_nat c) [0..<32]"
  by code_simp

lemma inverse_alphabet:
  assumes "c < 32"
  shows "BASE32_INVERSE ! unat (BASE32_ALPHABET ! unat (c :: u8)) = c"
proof -
  from assms have "unat c \<in> set [0..<32]" by (simp add: word_less_nat_alt)
  with inverse_alphabet_all show ?thesis by (simp add: list_all_iff)
qed

subsection \<open>Symbols written and read\<close>

text \<open>The five-bit symbols that the writer still emits, the remainder included, when it holds the
  byte \<open>lb\<close> at a position that is \<open>p\<close> modulo 5.\<close>

fun symbols :: "nat \<Rightarrow> u8 \<Rightarrow> bytes \<Rightarrow> u8 list" where
  "symbols p lb [] = (if p = 0 then [] else [fst (byte_symbols p lb 0)])"
| "symbols p lb (x # xs) =
     (case byte_symbols p lb x of (c1, c2) \<Rightarrow>
        c1 # (if c2 \<noteq> u8_MAX then [c2] else []) @ symbols (Suc p mod 5) x xs)"

abbreviation encode_symbols :: "u8 list \<Rightarrow> bytes" where
  "encode_symbols \<equiv> map (\<lambda>c. BASE32_ALPHABET ! unat c)"

lemma finalize_write_bytes:
  "finalize (write_slice w xs) =
     res w @ encode_symbols (symbols (pos w mod 5) (last_byte w) xs)"
proof (induction xs arbitrary: w)
  case Nil
  then show ?case by (simp add: finalize_def push_byte_def Let_def split: prod.split)
next
  case (Cons x xs)
  then show ?case
    by (simp add: push_byte_def Let_def mod_Suc_eq split: prod.split)
qed

lemma u8_bits_less:
  assumes "\<And>n. k \<le> n \<Longrightarrow> n < 8 \<Longrightarrow> \<not> bit (w :: u8) n"
  shows "unat w < 2 ^ k"
proof -
  have "take_bit k w = w"
    by (rule bit_word_eqI) (use assms not_le in \<open>auto simp: bit_take_bit_iff\<close>)
  then have "unat w = take_bit k (unat w)" by (metis unsigned_take_bit_eq)
  then show ?thesis using take_bit_nat_less_exp [of k "unat w"] by simp
qed

lemma lt8_cases: "n < 8 \<Longrightarrow> n \<in> {0, 1, 2, 3, 4, 5, 6, 7 :: nat}"
  by auto

lemma symbol_less_32:
  "fst (byte_symbols p lb x) < 32"
  "snd (byte_symbols p lb x) \<noteq> u8_MAX \<Longrightarrow> snd (byte_symbols p lb x) < 32"
proof -
  have "unat (fst (byte_symbols p lb x)) < 2 ^ 5"
    by (rule u8_bits_less, drule lt8_cases)
      (auto simp: byte_symbols_def bit_simps dest: bit_imp_le_length)
  then show "fst (byte_symbols p lb x) < 32" by (simp add: word_less_nat_alt)
  assume "snd (byte_symbols p lb x) \<noteq> u8_MAX"
  then have "unat (snd (byte_symbols p lb x)) < 2 ^ 5"
    by (intro u8_bits_less, drule_tac lt8_cases)
      (auto simp: byte_symbols_def bit_simps dest: bit_imp_le_length)
  then show "snd (byte_symbols p lb x) < 32" by (simp add: word_less_nat_alt)
qed

lemma symbols_less_32: "c \<in> set (symbols p lb xs) \<Longrightarrow> c < 32"
  by (induction xs arbitrary: p lb)
    (auto simp: symbol_less_32 split: prod.splits if_splits dest: arg_cong [where f = fst]
       arg_cong [where f = snd] intro: symbol_less_32)

lemma map_byte_symbol:
  assumes "c < 32" and "rd_bytes r = encode_symbols (c # cs)"
  shows "map_byte r = (Some c, r\<lparr>rd_bytes := encode_symbols cs, rd_last_byte := c\<rparr>)"
proof -
  from assms(1) have "c \<noteq> u8_MAX" by auto
  with assms show ?thesis by (simp add: map_byte_def inverse_alphabet)
qed

lemma map_byte_end: "rd_bytes r = [] \<Longrightarrow> map_byte r = (None, r)"
  by (simp add: map_byte_def)

text \<open>Each byte is rebuilt from its symbols and the first symbol of the byte after it.\<close>

lemma u8_eqI:
  assumes "\<And>n. n \<in> {0, 1, 2, 3, 4, 5, 6, 7} \<Longrightarrow> bit (a :: u8) n = bit b n"
  shows "a = b"
proof (rule bit_word_eqI)
  fix n assume "n < LENGTH(8)"
  then have "n \<in> {0, 1, 2, 3, 4, 5, 6, 7}" by (intro lt8_cases) simp
  then show "bit a n = bit b n" by (rule assms)
qed

lemma u8_bit_high: "(8 :: nat) \<le> numeral k \<Longrightarrow> \<not> bit (x :: u8) (numeral k)"
  by (auto dest: bit_imp_le_length)

lemma rebuild_byte:
  "push_bit 3 (fst (byte_symbols 0 lb x)) OR drop_bit 2 (fst (byte_symbols 1 x y)) = x"
  "push_bit 6 (fst (byte_symbols 1 lb x)) OR push_bit 1 (snd (byte_symbols 1 lb x)) OR
     drop_bit 4 (fst (byte_symbols 2 x y)) = x"
  "push_bit 4 (fst (byte_symbols 2 lb x)) OR drop_bit 1 (fst (byte_symbols 3 x y)) = x"
  "push_bit 7 (fst (byte_symbols 3 lb x)) OR push_bit 2 (snd (byte_symbols 3 lb x)) OR
     drop_bit 3 (fst (byte_symbols 4 x y)) = x"
  "push_bit 5 (fst (byte_symbols 4 lb x)) OR snd (byte_symbols 4 lb x) = x"
  by (rule u8_eqI, elim insertE emptyE;
      simp add: byte_symbols_def bit_simps u8_bit_high numeral_2_eq_2 [symmetric]
        numeral_3_eq_3 [symmetric] del: push_bit_Suc)+

lemma second_symbol:
  "snd (byte_symbols 0 lb x) = u8_MAX" "snd (byte_symbols 2 lb x) = u8_MAX"
  "snd (byte_symbols 1 lb x) \<noteq> u8_MAX" "snd (byte_symbols 3 lb x) \<noteq> u8_MAX"
  "snd (byte_symbols 4 lb x) \<noteq> u8_MAX"
proof -
  have no7: "\<not> bit w 7 \<Longrightarrow> w \<noteq> u8_MAX" for w :: u8 by auto
  show "snd (byte_symbols 0 lb x) = u8_MAX" "snd (byte_symbols 2 lb x) = u8_MAX"
    by (simp_all add: byte_symbols_def)
  show "snd (byte_symbols 1 lb x) \<noteq> u8_MAX" "snd (byte_symbols 3 lb x) \<noteq> u8_MAX"
    "snd (byte_symbols 4 lb x) \<noteq> u8_MAX"
    by (rule no7, simp add: byte_symbols_def bit_simps)+
qed

lemma symbols_Cons:
  "symbols 0 lb (x # xs) = fst (byte_symbols 0 lb x) # symbols 1 x xs"
  "symbols 1 lb (x # xs) = fst (byte_symbols 1 lb x) # snd (byte_symbols 1 lb x) # symbols 2 x xs"
  "symbols 2 lb (x # xs) = fst (byte_symbols 2 lb x) # symbols 3 x xs"
  "symbols 3 lb (x # xs) = fst (byte_symbols 3 lb x) # snd (byte_symbols 3 lb x) # symbols 4 x xs"
  "symbols 4 lb (x # xs) = fst (byte_symbols 4 lb x) # snd (byte_symbols 4 lb x) # symbols 0 x xs"
  using second_symbol [of lb x] by (simp_all add: split_beta numeral_2_eq_2)

lemma symbols_first:
  assumes "p \<noteq> 0"
  obtains y cs where "symbols p lb xs = fst (byte_symbols p lb y) # cs"
proof (cases xs)
  case Nil
  with assms that [of 0 "[]"] show ?thesis by simp
next
  case (Cons x xs')
  with that [of x] show ?thesis by (simp add: split_beta)
qed

lemma reader_collect_step:
  "reader_next r = (Some x, r') \<Longrightarrow> reader_collect r = x # reader_collect r'"
  by (subst reader_collect.simps) simp

definition advance :: "base32_reader \<Rightarrow> u8 \<Rightarrow> u8 list \<Rightarrow> base32_reader" where
  "advance r l cs = r\<lparr>rd_bytes := encode_symbols cs, rd_last_byte := l, rd_pos := rd_pos r + 1\<rparr>"

lemma advance_sel [simp]:
  "rd_bytes (advance r l cs) = encode_symbols cs" "rd_last_byte (advance r l cs) = l"
  "rd_pos (advance r l cs) = Suc (rd_pos r)"
  by (simp_all add: advance_def)

lemma map_byte_symbol_pos:
  assumes "c < 32" and "rd_bytes r = encode_symbols (c # cs)"
  shows "map_byte (r\<lparr>rd_pos := n\<rparr>) =
    (Some c, r\<lparr>rd_bytes := encode_symbols cs, rd_last_byte := c, rd_pos := n\<rparr>)"
  using map_byte_symbol [of c "r\<lparr>rd_pos := n\<rparr>" cs] assms by simp

lemma reader_next_two:
  assumes "c < 32" and "d < 32" and "rd_bytes r = encode_symbols (c # d # cs)"
  shows "rd_pos r mod 5 = 0 \<Longrightarrow>
      reader_next r = (Some (push_bit 3 c OR drop_bit 2 d), advance r d cs)"
    and "rd_pos r mod 5 = 1 \<Longrightarrow> reader_next r =
      (Some (push_bit 6 (rd_last_byte r) OR push_bit 1 c OR drop_bit 4 d), advance r d cs)"
    and "rd_pos r mod 5 = 3 \<Longrightarrow> reader_next r =
      (Some (push_bit 7 (rd_last_byte r) OR push_bit 2 c OR drop_bit 3 d), advance r d cs)"
proof -
  let ?r1 = "r\<lparr>rd_bytes := encode_symbols (d # cs), rd_last_byte := c\<rparr>"
  have 1: "map_byte r = (Some c, ?r1)" by (rule map_byte_symbol [OF assms(1,3)])
  have 2: "map_byte (?r1\<lparr>rd_pos := Suc (rd_pos r)\<rparr>) = (Some d, advance r d cs)"
    using map_byte_symbol_pos [OF assms(2), of ?r1 cs] by (simp add: advance_def)
  show "rd_pos r mod 5 = 0 \<Longrightarrow>
      reader_next r = (Some (push_bit 3 c OR drop_bit 2 d), advance r d cs)"
    "rd_pos r mod 5 = 1 \<Longrightarrow> reader_next r =
      (Some (push_bit 6 (rd_last_byte r) OR push_bit 1 c OR drop_bit 4 d), advance r d cs)"
    "rd_pos r mod 5 = 3 \<Longrightarrow> reader_next r =
      (Some (push_bit 7 (rd_last_byte r) OR push_bit 2 c OR drop_bit 3 d), advance r d cs)"
    using 1 2 by (simp_all add: reader_next_def unwrap_or0_def Let_def)
qed

lemma reader_next_one:
  assumes "c < 32" and "rd_bytes r = encode_symbols (c # cs)"
  shows "rd_pos r mod 5 = 2 \<Longrightarrow> reader_next r =
      (Some (push_bit 4 (rd_last_byte r) OR drop_bit 1 c), advance r c cs)"
    and "rd_pos r mod 5 = 4 \<Longrightarrow> reader_next r =
      (Some (push_bit 5 (rd_last_byte r) OR c), advance r c cs)"
  using map_byte_symbol [OF assms] by (simp_all add: reader_next_def advance_def Let_def)

lemma reader_collect_symbols:
  "rd_pos r mod 5 = p \<Longrightarrow>
   (if p = 0 then rd_bytes r = encode_symbols (symbols 0 lb xs)
    else rd_last_byte r = hd (symbols p lb xs) \<and>
         rd_bytes r = encode_symbols (tl (symbols p lb xs))) \<Longrightarrow>
   reader_collect r = xs"
proof (induction xs arbitrary: r p lb)
  case Nil
  then have "rd_bytes r = []" by (auto split: if_splits)
  then show ?case by (subst reader_collect.simps) (simp add: reader_next_def map_byte_end)
next
  case (Cons x xs)
  let ?q = "(p + 1) mod 5"
  have q: "Suc (rd_pos r) mod 5 = ?q"
    using Cons.prems(1) by (metis Suc_eq_plus1 mod_add_left_eq)
  have step: "reader_collect r = x # xs"
    if "reader_next r = (Some x, advance r l cs)"
      and "if ?q = 0 then cs = symbols 0 x xs
           else l = hd (symbols ?q x xs) \<and> cs = tl (symbols ?q x xs)" for l cs
  proof -
    have "reader_collect (advance r l cs) = xs"
      by (rule Cons.IH [of _ ?q x]) (use q that(2) in \<open>auto split: if_splits\<close>)
    with that(1) show ?thesis by (simp add: reader_collect_step)
  qed
  have "p < 5" using Cons.prems(1) by auto
  then consider "p = 0" | "p = 1" | "p = 2" | "p = 3" | "p = 4" by linarith
  then show ?case
  proof cases
    case 1
    obtain y cs where ys: "symbols 1 x xs = fst (byte_symbols 1 x y) # cs"
      by (rule symbols_first [of 1]) simp
    have r: "rd_bytes r = encode_symbols (fst (byte_symbols 0 lb x) # fst (byte_symbols 1 x y) # cs)"
      using Cons.prems(2) ys by (simp add: 1 symbols_Cons del: symbols.simps One_nat_def)
    have "reader_next r = (Some x, advance r (fst (byte_symbols 1 x y)) cs)"
      using reader_next_two(1) [OF symbol_less_32(1) symbol_less_32(1) r] Cons.prems(1) by (simp only: 1 rebuild_byte)
    then show ?thesis
      by (rule step) (use q 1 ys in \<open>simp_all del: symbols.simps One_nat_def\<close>)
  next
    case 2
    obtain y cs where ys: "symbols 2 x xs = fst (byte_symbols 2 x y) # cs"
      by (rule symbols_first [of 2]) simp
    have r: "rd_bytes r = encode_symbols (snd (byte_symbols 1 lb x) # fst (byte_symbols 2 x y) # cs)"
      using Cons.prems(2) ys by (simp add: 2 symbols_Cons del: symbols.simps One_nat_def)
    have l: "rd_last_byte r = fst (byte_symbols 1 lb x)"
      using Cons.prems(2) by (simp add: 2 symbols_Cons del: symbols.simps One_nat_def)
    have "reader_next r = (Some x, advance r (fst (byte_symbols 2 x y)) cs)"
      using reader_next_two(2) [OF symbol_less_32(2) [OF second_symbol(3)] symbol_less_32(1) r] Cons.prems(1) l by (simp only: 2 rebuild_byte)
    then show ?thesis
      by (rule step) (use q 2 ys in \<open>simp_all del: symbols.simps One_nat_def\<close>)
  next
    case 3
    obtain y cs where ys: "symbols 3 x xs = fst (byte_symbols 3 x y) # cs"
      by (rule symbols_first [of 3]) simp
    have r: "rd_bytes r = encode_symbols (fst (byte_symbols 3 x y) # cs)"
      using Cons.prems(2) ys by (simp add: 3 symbols_Cons del: symbols.simps One_nat_def)
    have l: "rd_last_byte r = fst (byte_symbols 2 lb x)"
      using Cons.prems(2) by (simp add: 3 symbols_Cons del: symbols.simps One_nat_def)
    have "reader_next r = (Some x, advance r (fst (byte_symbols 3 x y)) cs)"
      using reader_next_one(1) [OF symbol_less_32(1) r] Cons.prems(1) l by (simp only: 3 rebuild_byte)
    then show ?thesis
      by (rule step) (use q 3 ys in \<open>simp_all del: symbols.simps One_nat_def\<close>)
  next
    case 4
    obtain y cs where ys: "symbols 4 x xs = fst (byte_symbols 4 x y) # cs"
      by (rule symbols_first [of 4]) simp
    have r: "rd_bytes r = encode_symbols (snd (byte_symbols 3 lb x) # fst (byte_symbols 4 x y) # cs)"
      using Cons.prems(2) ys by (simp add: 4 symbols_Cons del: symbols.simps One_nat_def)
    have l: "rd_last_byte r = fst (byte_symbols 3 lb x)"
      using Cons.prems(2) by (simp add: 4 symbols_Cons del: symbols.simps One_nat_def)
    have "reader_next r = (Some x, advance r (fst (byte_symbols 4 x y)) cs)"
      using reader_next_two(3) [OF symbol_less_32(2) [OF second_symbol(4)] symbol_less_32(1) r] Cons.prems(1) l by (simp only: 4 rebuild_byte)
    then show ?thesis
      by (rule step) (use q 4 ys in \<open>simp_all del: symbols.simps One_nat_def\<close>)
  next
    case 5
    have r: "rd_bytes r = encode_symbols (snd (byte_symbols 4 lb x) # symbols 0 x xs)"
      and l: "rd_last_byte r = fst (byte_symbols 4 lb x)"
      using Cons.prems(2) by (simp_all add: 5 symbols_Cons del: symbols.simps One_nat_def)
    have "reader_next r = (Some x, advance r (snd (byte_symbols 4 lb x)) (symbols 0 x xs))"
      using reader_next_one(2) [OF symbol_less_32(2) [OF second_symbol(5)] r] Cons.prems(1) l
      by (simp only: 5 rebuild_byte)
    then show ?thesis
      by (rule step) (use q 5 in simp_all)
  qed
qed

subsection \<open>Properties\<close>

text \<open>C25: reading the string that the writer produced for a byte string gives the byte string
  back, for every byte string.\<close>

theorem base32_roundtrip: "reader_collect (reader_new (finalize (from_bytes bytes))) = bytes"
  by (rule reader_collect_symbols [of _ 0 0])
    (simp_all add: reader_new_def from_bytes_def finalize_write_bytes writer_new_def)

end
