(* ===== verification/Bitmap.thy ===== *)
theory Bitmap
  imports Prelude
begin

unbundle bit_operations_syntax

section \<open>Sets of small items in one word\<close>

text \<open>
  Models \<^verbatim>\<open>src/crates/utils/src/map/bitmap.rs\<close>: a \<open>Bitmap<T>\<close> is its 64-bit
  word, an item is its \<open>u64\<close> value (\<open>Into<u64>\<close>), and the trait functions
  \<open>is_valid\<close> and \<open>max\<close> of the item type are arguments. Shift amounts are taken modulo
  64, which is what a shift does when overflow checks are off.
\<close>

subsection \<open>Operations\<close>

definition shl1 :: "u64 \<Rightarrow> u64" where
  "shl1 item = push_bit (unat item mod 64) 1"

definition bitmap_new :: u64 where "bitmap_new = 0"

definition bitmap_all :: "u64 \<Rightarrow> u64" where
  "bitmap_all max_item = drop_bit (unat (64 - max_item) mod 64) u64_MAX"

definition bitmap_union :: "u64 \<Rightarrow> u64 \<Rightarrow> u64" where
  "bitmap_union bitmap items = bitmap OR items"

definition bitmap_intersection :: "u64 \<Rightarrow> u64 \<Rightarrow> u64" where
  "bitmap_intersection bitmap items = bitmap AND items"

definition bitmap_insert :: "u64 \<Rightarrow> u64 \<Rightarrow> u64" where
  "bitmap_insert bitmap item = bitmap OR shl1 item"

definition bitmap_remove :: "u64 \<Rightarrow> u64 \<Rightarrow> u64" where
  "bitmap_remove bitmap item = bitmap XOR shl1 item"

text \<open>\<open>u64::leading_zeros\<close> of the standard library.\<close>

definition leading_zeros :: "u64 \<Rightarrow> nat" where
  "leading_zeros w = length (takeWhile (\<lambda>n. \<not> bit w n) (rev [0..<64]))"

definition bitmap_pop :: "u64 \<Rightarrow> u64 option \<times> u64" where
  "bitmap_pop bitmap =
     (if bitmap \<noteq> 0 then
        let item = 63 - leading_zeros bitmap
        in (Some (of_nat item), bitmap XOR push_bit item 1)
      else (None, bitmap))"

definition bitmap_contains :: "u64 \<Rightarrow> u64 \<Rightarrow> bool" where
  "bitmap_contains bitmap item = (bitmap AND shl1 item \<noteq> 0)"

fun bitmap_contains_any :: "u64 \<Rightarrow> u64 list \<Rightarrow> bool" where
  "bitmap_contains_any bitmap [] = False"
| "bitmap_contains_any bitmap (item # items) =
     (if bitmap AND shl1 item \<noteq> 0 then True else bitmap_contains_any bitmap items)"

definition bitmap_is_empty :: "u64 \<Rightarrow> bool" where
  "bitmap_is_empty bitmap = (bitmap = 0)"

definition bitmap_clear :: "u64 \<Rightarrow> u64 \<times> u64" where
  "bitmap_clear bitmap = (bitmap, 0)"

text \<open>The three conversions from a collection run the same loop.\<close>

fun bitmap_extend :: "(u64 \<Rightarrow> bool) \<Rightarrow> u64 \<Rightarrow> u64 list \<Rightarrow> u64" where
  "bitmap_extend is_valid bitmap [] = bitmap"
| "bitmap_extend is_valid bitmap (v # vs) =
     bitmap_extend is_valid (if is_valid v then bitmap_insert bitmap v else bitmap) vs"

definition bitmap_from_iter :: "(u64 \<Rightarrow> bool) \<Rightarrow> u64 list \<Rightarrow> u64" where
  "bitmap_from_iter is_valid vs = bitmap_extend is_valid bitmap_new vs"

definition bitmap_from_item :: "u64 \<Rightarrow> u64" where
  "bitmap_from_item v = bitmap_insert bitmap_new v"

subsection \<open>Bits\<close>

definition members :: "u64 \<Rightarrow> nat set" where
  "members w = {n. bit w n}"

lemma bit_shl1 [simp]: "bit (shl1 item) n \<longleftrightarrow> n = unat item mod 64"
  by (auto simp: shl1_def bit_simps)

lemma u64_bit_less: "bit (w :: u64) n \<Longrightarrow> n < 64"
  using bit_imp_le_length [of w n] by simp

lemma word_ne_0_bit: "w \<noteq> (0 :: u64) \<longleftrightarrow> (\<exists>n < 64. bit w n)"
  using u64_bit_less by (auto simp: bit_eq_iff)

lemma members_ops:
  "members bitmap_new = {}"
  "members (bitmap_insert w x) = insert (unat x mod 64) (members w)"
  "members (bitmap_union w v) = members w \<union> members v"
  "members (bitmap_intersection w v) = members w \<inter> members v"
  by (auto simp: members_def bitmap_new_def bitmap_insert_def bitmap_union_def
      bitmap_intersection_def bit_simps)

lemma bitmap_contains_iff: "bitmap_contains w x \<longleftrightarrow> unat x mod 64 \<in> members w"
  by (auto simp: bitmap_contains_def word_ne_0_bit members_def bit_simps)

lemma bitmap_contains_any_iff:
  "bitmap_contains_any w xs \<longleftrightarrow> (\<exists>x \<in> set xs. bitmap_contains w x)"
  by (induction xs) (auto simp: bitmap_contains_def)

lemma members_inj: "members v = members w \<longleftrightarrow> v = w"
  by (auto simp: members_def intro: bit_word_eqI)

lemma finite_members [simp]: "finite (members w)"
  by (rule finite_subset [of _ "{..<64}"]) (auto simp: members_def dest: u64_bit_less)

lemma leading_zeros_Max:
  assumes "w \<noteq> 0"
  shows "63 - leading_zeros w = Max (members w)" and "Max (members w) < 64"
proof -
  let ?m = "Max (members w)"
  have ne: "members w \<noteq> {}" using assms by (auto simp: word_ne_0_bit members_def)
  then have m: "bit w ?m" using Max_in [of "members w"] by (simp add: members_def)
  then show lt: "?m < 64" by (rule u64_bit_less)
  have split: "rev [0..<64] = rev [Suc ?m..<64] @ ?m # rev [0..<?m]"
    using lt upt_add_eq_append [of 0 ?m "64 - ?m"] by (simp add: upt_conv_Cons)
  have high: "\<not> bit w n" if "?m < n" for n
  proof
    assume "bit w n"
    then have "n \<le> ?m" by (intro Max_ge) (simp_all add: members_def)
    with that show False by simp
  qed
  have "takeWhile (\<lambda>n. \<not> bit w n) (rev [0..<64]) = rev [Suc ?m..<64]"
    unfolding split using m high by (subst takeWhile_append2) auto
  then show "63 - leading_zeros w = ?m" using lt by (simp add: leading_zeros_def)
qed

lemma bitmap_pop_members:
  assumes "w \<noteq> 0"
  shows "bitmap_pop w = (Some (of_nat (Max (members w))), w XOR push_bit (Max (members w)) 1)"
    and "members (w XOR push_bit (Max (members w)) 1) = members w - {Max (members w)}"
proof -
  have "bit w (Max (members w))"
    using assms Max_in [of "members w"] by (auto simp: word_ne_0_bit members_def)
  then show "members (w XOR push_bit (Max (members w)) 1) = members w - {Max (members w)}"
    by (auto simp: members_def bit_simps dest: u64_bit_less)
qed (simp add: bitmap_pop_def leading_zeros_Max [OF assms] assms Let_def)

lemma bitmap_pop_less:
  assumes "(Some x, w') = bitmap_pop w"
  shows "card (members w') < card (members w)"
proof -
  have ne: "w \<noteq> 0"
  proof
    assume "w = 0"
    with assms show False by (simp add: bitmap_pop_def)
  qed
  then have "members w \<noteq> {}" by (auto simp: word_ne_0_bit members_def)
  then have "Max (members w) \<in> members w" by (rule Max_in [OF finite_members])
  then have "members w - {Max (members w)} \<subset> members w" by blast
  then have "card (members w - {Max (members w)}) < card (members w)"
    by (rule psubset_card_mono [OF finite_members])
  then show ?thesis using assms bitmap_pop_members [OF ne] by simp
qed

text \<open>The conversion of a bitmap into a vector runs the iterator to its end; the iterator's
  \<open>next\<close> is the code of \<open>pop\<close>.\<close>

function bitmap_into_vec :: "u64 \<Rightarrow> u64 list \<Rightarrow> u64 list" where
  "bitmap_into_vec bitmap xs =
     (case bitmap_pop bitmap of
        (None, bitmap') \<Rightarrow> xs
      | (Some item, bitmap') \<Rightarrow> bitmap_into_vec bitmap' (xs @ [item]))"
  by pat_completeness auto
termination
  by (relation "measure (\<lambda>(w, xs). card (members w))") (auto intro: bitmap_pop_less)

declare bitmap_into_vec.simps [simp del]

lemma sorted_list_of_set_Max:
  assumes "finite A" and "A \<noteq> {}"
  shows "sorted_list_of_set A = sorted_list_of_set (A - {Max A}) @ [Max A]"
proof (rule sorted_distinct_set_unique)
  show "set (sorted_list_of_set A) = set (sorted_list_of_set (A - {Max A}) @ [Max A])"
    using assms Max_in [OF assms] by (simp add: insert_absorb)
qed (use assms in \<open>auto simp: sorted_append\<close>)

lemma bitmap_into_vec_append:
  "bitmap_into_vec w xs = xs @ map of_nat (rev (sorted_list_of_set (members w)))"
proof (induction w xs rule: bitmap_into_vec.induct)
  case (1 w xs)
  show ?case
  proof (cases "w = 0")
    case True
    then show ?thesis
      by (subst bitmap_into_vec.simps) (simp add: bitmap_pop_def members_def)
  next
    case False
    then have "members w \<noteq> {}" by (auto simp: word_ne_0_bit members_def)
    then have "sorted_list_of_set (members w) =
        sorted_list_of_set (members w - {Max (members w)}) @ [Max (members w)]"
      by (simp add: sorted_list_of_set_Max)
    with False 1 bitmap_pop_members [OF False, unfolded push_bit_eq_mult] show ?thesis
      by (subst bitmap_into_vec.simps) simp
  qed
qed

lemma members_extend:
  "members (bitmap_extend is_valid w vs) = (\<lambda>x. unat x mod 64) ` {x \<in> set vs. is_valid x} \<union> members w"
  by (induction vs arbitrary: w) (auto simp: members_ops)

subsection \<open>Sets built by insertion\<close>

text \<open>What the callers rely on: an abstraction to a finite set that insertion and membership
  respect. Items outside the valid range are never handed to \<open>insert\<close>.\<close>

locale item_set =
  fixes empty_set :: 's and insert_item :: "'s \<Rightarrow> 'i \<Rightarrow> 's" and has_item :: "'s \<Rightarrow> 'i \<Rightarrow> bool"
    and item_set :: "'s \<Rightarrow> 'i set" and good :: "'i \<Rightarrow> bool"
  assumes empty_item_set: "item_set empty_set = {}"
    and insert_item_set: "good x \<Longrightarrow> item_set (insert_item s x) = insert x (item_set s)"
    and has_item_iff: "good x \<Longrightarrow> has_item s x \<longleftrightarrow> x \<in> item_set s"
begin

lemma fold_insert_set:
  "\<forall>x \<in> set xs. good x \<Longrightarrow>
    item_set (fold (\<lambda>x s. insert_item s x) xs s) = set xs \<union> item_set s"
  by (induction xs arbitrary: s) (auto simp: insert_item_set)

lemma has_item_fold:
  "\<lbrakk>\<forall>x \<in> set xs. good x; good y\<rbrakk> \<Longrightarrow>
    has_item (fold (\<lambda>x s. insert_item s x) xs empty_set) y \<longleftrightarrow> y \<in> set xs"
  by (simp add: has_item_iff fold_insert_set empty_item_set)

end

interpretation bm: item_set bitmap_new bitmap_insert bitmap_contains
  "\<lambda>w. {x. x < 64 \<and> unat x \<in> members w}" "\<lambda>x. x < 64"
proof unfold_locales
  fix x :: u64 and w :: u64
  assume x: "x < 64"
  have "unat y = unat x mod 64 \<longleftrightarrow> y = x" for y :: u64
    using x by (simp add: word_less_nat_alt word_unat_eq_iff)
  then show "{y. y < 64 \<and> unat y \<in> members (bitmap_insert w x)} =
      insert x {y. y < 64 \<and> unat y \<in> members w}"
    using x by (auto simp: members_ops)
  show "bitmap_contains w x \<longleftrightarrow> x \<in> {y. y < 64 \<and> unat y \<in> members w}"
    using x by (simp add: bitmap_contains_iff word_less_nat_alt)
qed (simp add: members_ops)

lemma bitmap_extend_fold:
  "bitmap_extend is_valid w vs = fold (\<lambda>x s. bitmap_insert s x) (filter is_valid vs) w"
  by (induction vs arbitrary: w) auto

subsection \<open>Properties\<close>

text \<open>The bitmap built from a list of items contains an item of the range 0..63 exactly
  if the item is valid and in the list, for every validity test that only admits items of that
  range.\<close>

theorem bitmap_from_iter_contains:
  assumes "\<And>v. is_valid v \<Longrightarrow> v < 64" and "x < 64"
  shows "bitmap_contains (bitmap_from_iter is_valid vs) x \<longleftrightarrow> x \<in> set vs \<and> is_valid x"
  using bm.has_item_fold [of "filter is_valid vs" x] assms
  by (auto simp: bitmap_from_iter_def bitmap_extend_fold)

theorem bitmap_from_iter_contains_witness:
  "bitmap_contains (bitmap_from_iter (\<lambda>v. v < 20) [3, 40, 7]) 7 \<and>
   \<not> bitmap_contains (bitmap_from_iter (\<lambda>v. v < 20) [3, 40, 7]) 40"
proof -
  have "v < 20 \<Longrightarrow> v < 64" for v :: u64 by (simp add: word_less_nat_alt)
  note c = bitmap_from_iter_contains [of "\<lambda>v. v < 20", OF this]
  show ?thesis using c [of 7 "[3, 40, 7]"] c [of 40 "[3, 40, 7]"] by simp
qed

text \<open>Turning a bitmap into a vector and the vector back into a bitmap is the identity when
  the item type admits every item below 64, and the vector lists the items in strictly
  descending order.\<close>

theorem bitmap_vec_roundtrip:
  assumes "\<And>v. v < 64 \<Longrightarrow> is_valid v"
  shows "bitmap_from_iter is_valid (bitmap_into_vec w []) = w \<and>
    sorted_wrt (>) (bitmap_into_vec w [])"
proof
  have lt: "n < 64" if "n \<in> members w" for n
    using that by (auto simp: members_def dest: u64_bit_less)
  have un: "unat (of_nat n :: u64) = n" if "n \<in> members w" for n
    using lt [OF that] by (simp add: unat_of_nat)
  have "is_valid (of_nat n)" if "n \<in> members w" for n
    using that lt un by (intro assms) (simp add: word_less_nat_alt)
  then have "members (bitmap_from_iter is_valid (bitmap_into_vec w [])) =
      (\<lambda>n. unat (of_nat n :: u64) mod 64) ` members w"
    by (auto simp: bitmap_from_iter_def members_extend bitmap_into_vec_append members_ops
        intro!: image_eqI)
  also have "\<dots> = members w" using un lt by (auto simp: image_iff)
  finally show "bitmap_from_iter is_valid (bitmap_into_vec w []) = w" by (simp add: members_inj)
  have "sorted_wrt (<) (sorted_list_of_set (members w))" by simp
  then have "sorted_wrt (<) (map of_nat (sorted_list_of_set (members w)) :: u64 list)"
    unfolding sorted_wrt_map
    by (rule sorted_wrt_mono_rel [rotated]) (auto simp: word_less_nat_alt un)
  then show "sorted_wrt (>) (bitmap_into_vec w [])"
    by (simp add: bitmap_into_vec_append rev_map [symmetric] sorted_wrt_rev)
qed

theorem bitmap_vec_roundtrip_witness:
  "bitmap_from_iter (\<lambda>v. v < 64) (bitmap_into_vec 21 []) = 21 \<and>
    sorted_wrt (>) (bitmap_into_vec 21 [])"
  by (rule bitmap_vec_roundtrip)

text \<open>\<open>remove\<close> takes an item out only if it is there; removing an item that is
  not in the bitmap puts it in. After the call the item is in the bitmap exactly if it was not
  before, and no other item changes.\<close>

theorem bitmap_remove_toggles:
  "bitmap_contains (bitmap_remove w x) y \<longleftrightarrow>
    (if unat x mod 64 = unat y mod 64 then \<not> bitmap_contains w y else bitmap_contains w y)"
  by (auto simp: bitmap_contains_iff members_def bitmap_remove_def bit_simps)

end
