(* ===== verification/Vec_Map.thy ===== *)
theory Vec_Map
  imports Prelude "HOL-Library.Product_Lexorder"
begin

section \<open>Maps kept as vectors\<close>

text \<open>
  Models \<^verbatim>\<open>src/crates/utils/src/map/vec_map.rs\<close>: a map that is a vector of key-value
  pairs, searched from the front. The operations that hand out a mutable reference
  (\<open>get_mut\<close>, \<open>get_mut_or_insert_with\<close>, \<open>values_mut\<close>, ...) take the function
  that the caller applies through the reference. A panic of \<open>Vec\<close> is \<open>None\<close>.
\<close>

record ('k, 'v) key_value =
  kv_key :: 'k
  kv_value :: 'v

type_synonym ('k, 'v) vec_map = "('k, 'v) key_value list"

abbreviation kv :: "'k \<Rightarrow> 'v \<Rightarrow> ('k, 'v) key_value" where
  "kv k v \<equiv> \<lparr>kv_key = k, kv_value = v\<rparr>"

subsection \<open>Operations\<close>

definition vm_new :: "('k, 'v) vec_map" where "vm_new = []"

text \<open>\<open>set\<close>: overwrite the first pair with the key, or push a new pair; the result says
  whether a pair was pushed.\<close>

fun vm_set :: "('k, 'v) vec_map \<Rightarrow> 'k \<Rightarrow> 'v \<Rightarrow> bool \<times> ('k, 'v) vec_map" where
  "vm_set [] k v = (True, [kv k v])"
| "vm_set (p # m) k v =
     (if kv_key p = k then (False, p\<lparr>kv_value := v\<rparr> # m)
      else let (b, m') = vm_set m k v in (b, p # m'))"

definition vm_append :: "('k, 'v) vec_map \<Rightarrow> 'k \<Rightarrow> 'v \<Rightarrow> ('k, 'v) vec_map" where
  "vm_append m k v = m @ [kv k v]"

definition vm_insert :: "('k, 'v) vec_map \<Rightarrow> nat \<Rightarrow> 'k \<Rightarrow> 'v \<Rightarrow> ('k, 'v) vec_map option" where
  "vm_insert m idx k v =
     (if idx \<le> length m then Some (take idx m @ kv k v # drop idx m) else None)"

fun vm_get :: "('k, 'v) vec_map \<Rightarrow> 'k \<Rightarrow> 'v option" where
  "vm_get [] k = None"
| "vm_get (p # m) k = (if kv_key p = k then Some (kv_value p) else vm_get m k)"

fun vm_get_mut :: "('k, 'v) vec_map \<Rightarrow> 'k \<Rightarrow> ('v \<Rightarrow> 'v) \<Rightarrow> ('k, 'v) vec_map option" where
  "vm_get_mut [] k f = None"
| "vm_get_mut (p # m) k f =
     (if kv_key p = k then Some (p\<lparr>kv_value := f (kv_value p)\<rparr> # m)
      else map_option ((#) p) (vm_get_mut m k f))"

definition vm_contains_key :: "('k, 'v) vec_map \<Rightarrow> 'k \<Rightarrow> bool" where
  "vm_contains_key m k = list_ex (\<lambda>p. kv_key p = k) m"

text \<open>\<open>Iterator::position\<close> of the standard library, and \<open>Vec::remove\<close>.\<close>

fun vm_position :: "('k, 'v) vec_map \<Rightarrow> 'k \<Rightarrow> nat option" where
  "vm_position [] k = None"
| "vm_position (p # m) k = (if kv_key p = k then Some 0 else map_option Suc (vm_position m k))"

definition vec_remove :: "'a list \<Rightarrow> nat \<Rightarrow> 'a \<times> 'a list" where
  "vec_remove xs i = (xs ! i, take i xs @ drop (Suc i) xs)"

definition vm_remove :: "('k, 'v) vec_map \<Rightarrow> 'k \<Rightarrow> 'v option \<times> ('k, 'v) vec_map" where
  "vm_remove m k =
     (case vm_position m k of
        None \<Rightarrow> (None, m)
      | Some i \<Rightarrow> (let (p, m') = vec_remove m i in (Some (kv_value p), m')))"

definition vm_remove_all :: "('k, 'v) vec_map \<Rightarrow> 'k \<Rightarrow> ('k, 'v) vec_map" where
  "vm_remove_all m k = filter (\<lambda>p. kv_key p \<noteq> k) m"

definition vm_remove_entry :: "('k, 'v) vec_map \<Rightarrow> 'k \<Rightarrow> ('k \<times> 'v) option \<times> ('k, 'v) vec_map" where
  "vm_remove_entry m k =
     (case vm_position m k of
        None \<Rightarrow> (None, m)
      | Some i \<Rightarrow> (let (p, m') = vec_remove m i in (Some (kv_key p, kv_value p), m')))"

text \<open>\<open>Vec::swap_remove\<close>: the last element takes the place of the removed one.\<close>

definition vm_swap_remove :: "('k, 'v) vec_map \<Rightarrow> nat \<Rightarrow> ('v \<times> ('k, 'v) vec_map) option" where
  "vm_swap_remove m i =
     (if i < length m then Some (kv_value (m ! i), butlast (m[i := last m])) else None)"

definition vm_is_empty :: "('k, 'v) vec_map \<Rightarrow> bool" where "vm_is_empty m = (m = [])"
definition vm_len :: "('k, 'v) vec_map \<Rightarrow> nat" where "vm_len m = length m"
definition vm_clear :: "('k, 'v) vec_map \<Rightarrow> ('k, 'v) vec_map" where "vm_clear m = []"

definition vm_iter :: "('k, 'v) vec_map \<Rightarrow> ('k \<times> 'v) list" where
  "vm_iter m = map (\<lambda>p. (kv_key p, kv_value p)) m"

definition vm_iter_by_key :: "('k, 'v) vec_map \<Rightarrow> 'k \<Rightarrow> 'v list" where
  "vm_iter_by_key m k = map kv_value (filter (\<lambda>p. kv_key p = k) m)"

definition vm_iter_mut :: "('k, 'v) vec_map \<Rightarrow> ('k \<times> 'v \<Rightarrow> 'k \<times> 'v) \<Rightarrow> ('k, 'v) vec_map" where
  "vm_iter_mut m f =
     map (\<lambda>p. let (k, v) = f (kv_key p, kv_value p) in p\<lparr>kv_key := k, kv_value := v\<rparr>) m"

definition vm_iter_mut_by_key ::
    "('k, 'v) vec_map \<Rightarrow> 'k \<Rightarrow> ('v \<Rightarrow> 'v) \<Rightarrow> ('k, 'v) vec_map" where
  "vm_iter_mut_by_key m k f =
     map (\<lambda>p. if kv_key p = k then p\<lparr>kv_value := f (kv_value p)\<rparr> else p) m"

definition vm_keys :: "('k, 'v) vec_map \<Rightarrow> 'k list" where "vm_keys m = map kv_key m"
definition vm_values :: "('k, 'v) vec_map \<Rightarrow> 'v list" where "vm_values m = map kv_value m"

definition vm_values_mut :: "('k, 'v) vec_map \<Rightarrow> ('v \<Rightarrow> 'v) \<Rightarrow> ('k, 'v) vec_map" where
  "vm_values_mut m f = map (\<lambda>p. p\<lparr>kv_value := f (kv_value p)\<rparr>) m"

text \<open>\<open>get_mut_or_insert_with\<close>, and \<open>get_mut_or_insert\<close> with the default value of the
  value type.\<close>

definition vm_get_mut_or_insert_with ::
    "('k, 'v) vec_map \<Rightarrow> 'k \<Rightarrow> 'v \<Rightarrow> ('v \<Rightarrow> 'v) \<Rightarrow> ('k, 'v) vec_map" where
  "vm_get_mut_or_insert_with m k dflt f =
     (case vm_position m k of
        Some i \<Rightarrow> m[i := (m ! i)\<lparr>kv_value := f (kv_value (m ! i))\<rparr>]
      | None \<Rightarrow> m @ [kv k (f dflt)])"

definition vm_get_mut_or_insert ::
    "('k, 'v) vec_map \<Rightarrow> 'k \<Rightarrow> 'v \<Rightarrow> ('v \<Rightarrow> 'v) \<Rightarrow> ('k, 'v) vec_map" where
  "vm_get_mut_or_insert m k dflt f =
     (case vm_position m k of
        Some i \<Rightarrow> m[i := (m ! i)\<lparr>kv_value := f (kv_value (m ! i))\<rparr>]
      | None \<Rightarrow> m @ [kv k (f dflt)])"

definition vm_into_iter :: "('k, 'v) vec_map \<Rightarrow> ('k \<times> 'v) list" where
  "vm_into_iter m = map (\<lambda>p. (kv_key p, kv_value p)) m"

definition vm_with_key_value :: "('k, 'v) vec_map \<Rightarrow> 'k \<Rightarrow> 'v \<Rightarrow> ('k, 'v) vec_map" where
  "vm_with_key_value m k v = vm_append m k v"

text \<open>Pairs that compare equal are equal, so the unstable sort is determined.\<close>

definition vm_sort_unstable :: "('k::linorder, 'v::linorder) vec_map \<Rightarrow> ('k, 'v) vec_map" where
  "vm_sort_unstable m = sort_key (\<lambda>p. (kv_key p, kv_value p)) m"

text \<open>\<open>FromIterator\<close> and the \<open>serde\<close> visitor append pair by pair.\<close>

fun vm_extend :: "('k, 'v) vec_map \<Rightarrow> ('k \<times> 'v) list \<Rightarrow> ('k, 'v) vec_map" where
  "vm_extend m [] = m"
| "vm_extend m ((k, v) # kvs) = vm_extend (vm_append m k v) kvs"

definition vm_from_iter :: "('k \<times> 'v) list \<Rightarrow> ('k, 'v) vec_map" where
  "vm_from_iter kvs = vm_extend vm_new kvs"

subsection \<open>The map interface\<close>

text \<open>Requests of a client of a map, the finite map they describe, and what a map must promise
  for a run of requests to behave as that finite map.\<close>

datatype ('k, 'v) map_op = Set_Key 'k 'v | Remove_Key 'k

fun spec_op :: "('k, 'v) map_op \<Rightarrow> ('k \<rightharpoonup> 'v) \<Rightarrow> ('k \<rightharpoonup> 'v)" where
  "spec_op (Set_Key k v) f = f(k \<mapsto> v)"
| "spec_op (Remove_Key k) f = f(k := None)"

locale map_interface =
  fixes empty_map :: 'm and lookup :: "'m \<Rightarrow> 'k \<rightharpoonup> 'v" and put :: "'m \<Rightarrow> 'k \<Rightarrow> 'v \<Rightarrow> 'm"
    and del :: "'m \<Rightarrow> 'k \<Rightarrow> 'm" and invar :: "'m \<Rightarrow> bool"
  assumes lookup_empty: "lookup empty_map = Map.empty"
    and invar_empty: "invar empty_map"
    and lookup_put: "invar m \<Longrightarrow> lookup (put m k v) = (lookup m)(k \<mapsto> v)"
    and invar_put: "invar m \<Longrightarrow> invar (put m k v)"
    and lookup_del: "invar m \<Longrightarrow> lookup (del m k) = (lookup m)(k := None)"
    and invar_del: "invar m \<Longrightarrow> invar (del m k)"
begin

fun exec_op :: "('k, 'v) map_op \<Rightarrow> 'm \<Rightarrow> 'm" where
  "exec_op (Set_Key k v) m = put m k v"
| "exec_op (Remove_Key k) m = del m k"

lemma exec_op: "invar m \<Longrightarrow> invar (exec_op r m) \<and> lookup (exec_op r m) = spec_op r (lookup m)"
  by (cases r) (simp_all add: lookup_put invar_put lookup_del invar_del)

lemma run_from: "invar m \<Longrightarrow>
    invar (fold exec_op rs m) \<and> lookup (fold exec_op rs m) = fold spec_op rs (lookup m)"
  by (induction rs arbitrary: m) (simp_all add: exec_op)

lemma run: "lookup (fold exec_op rs empty_map) = fold spec_op rs Map.empty"
  using run_from [OF invar_empty] by (simp add: lookup_empty)

end

subsection \<open>The vector as a map\<close>

definition vm_keys_distinct :: "('k, 'v) vec_map \<Rightarrow> bool" where
  "vm_keys_distinct m = distinct (vm_keys m)"

lemma vm_get_set: "vm_get (snd (vm_set m k v)) = (vm_get m)(k \<mapsto> v)"
  by (induction m k v rule: vm_set.induct) (auto simp: fun_eq_iff split: prod.splits)

lemma vm_set_pushes: "fst (vm_set m k v) \<longleftrightarrow> vm_get m k = None"
  by (induction m k v rule: vm_set.induct) (auto split: prod.splits)

lemma vm_keys_set:
  "vm_keys (snd (vm_set m k v)) = (if vm_get m k = None then vm_keys m @ [k] else vm_keys m)"
  by (induction m k v rule: vm_set.induct) (auto simp: vm_keys_def split: prod.splits)

lemma vm_get_None: "vm_get m k = None \<longleftrightarrow> k \<notin> set (vm_keys m)"
  by (induction m) (auto simp: vm_keys_def)

lemma vm_keys_distinct_set: "vm_keys_distinct m \<Longrightarrow> vm_keys_distinct (snd (vm_set m k v))"
  by (simp add: vm_keys_distinct_def vm_keys_set vm_get_None)

lemma vm_position_None: "vm_position m k = None \<longleftrightarrow> vm_get m k = None"
  by (induction m) auto

lemma vm_position_Some:
  "vm_position m k = Some i \<Longrightarrow>
    \<exists>m1 v m2. m = m1 @ kv k v # m2 \<and> length m1 = i \<and> vm_get m1 k = None"
proof (induction m arbitrary: i)
  case (Cons p m)
  show ?case
  proof (cases "kv_key p = k")
    case True
    then have "p # m = [] @ kv k (kv_value p) # m" by (cases p) simp
    with Cons.prems True show ?thesis by fastforce
  next
    case False
    with Cons.prems obtain j where "vm_position m k = Some j" "i = Suc j" by auto
    with Cons.IH obtain m1 v m2 where
      "m = m1 @ kv k v # m2" "length m1 = j" "vm_get m1 k = None" by blast
    with \<open>i = Suc j\<close> False have "p # m = (p # m1) @ kv k v # m2 \<and> length (p # m1) = i \<and>
      vm_get (p # m1) k = None" by simp
    then show ?thesis by blast
  qed
qed simp

lemma vm_get_append:
  "vm_get (m1 @ m2) k = (case vm_get m1 k of None \<Rightarrow> vm_get m2 k | Some v \<Rightarrow> Some v)"
  by (induction m1) auto

lemma vm_remove_shape:
  obtains "vm_get m k = None" "vm_remove m k = (None, m)"
  | m1 v m2 where "m = m1 @ kv k v # m2" "vm_get m1 k = None"
      "vm_remove m k = (Some v, m1 @ m2)"
proof (cases "vm_position m k")
  case None
  then have "vm_get m k = None" by (simp only: vm_position_None)
  with None show ?thesis by (intro that(1)) (simp_all add: vm_remove_def)
next
  case (Some i)
  then obtain m1 v m2 where m: "m = m1 @ kv k v # m2" "length m1 = i" "vm_get m1 k = None"
    using vm_position_Some [of m k i] by blast
  then have "vec_remove m i = (kv k v, m1 @ m2)" by (auto simp: vec_remove_def)
  with Some have "vm_remove m k = (Some v, m1 @ m2)" by (simp add: vm_remove_def)
  with m show ?thesis by (intro that(2))
qed

lemma vm_remove_value: "fst (vm_remove m k) = vm_get m k"
  by (rule vm_remove_shape [of m k]) (auto simp: vm_get_append)

lemma vm_get_drop_first:
  assumes "vm_keys_distinct (m1 @ kv k v # m2)"
  shows "vm_get (m1 @ m2) x = (if x = k then None else vm_get (m1 @ kv k v # m2) x)"
proof -
  have "vm_get m1 k = None" "vm_get m2 k = None"
    using assms by (auto simp: vm_get_None vm_keys_distinct_def vm_keys_def)
  then show ?thesis by (simp add: vm_get_append split: option.split)
qed

lemma vm_get_remove:
  assumes "vm_keys_distinct m"
  shows "vm_get (snd (vm_remove m k)) = (vm_get m)(k := None)"
proof (rule vm_remove_shape [of m k])
  show ?thesis if "m = m1 @ kv k v # m2" "vm_remove m k = (Some v, m1 @ m2)" for m1 v m2
    using assms that(2) vm_get_drop_first [of m1 k v m2] unfolding that(1) by (simp add: fun_eq_iff)
qed (auto simp: fun_eq_iff)

lemma vm_keys_distinct_remove:
  assumes "vm_keys_distinct m"
  shows "vm_keys_distinct (snd (vm_remove m k))"
  by (rule vm_remove_shape [of m k])
    (use assms in \<open>auto simp: vm_keys_distinct_def vm_keys_def\<close>)

lemma vm_get_new: "vm_get vm_new = Map.empty"
  by (simp add: fun_eq_iff vm_new_def)

lemma vm_keys_distinct_new: "vm_keys_distinct vm_new"
  by (simp add: vm_keys_distinct_def vm_keys_def vm_new_def)

interpretation vm: map_interface vm_new vm_get "\<lambda>m k v. snd (vm_set m k v)"
  "\<lambda>m k. snd (vm_remove m k)" vm_keys_distinct
  by unfold_locales
    (simp_all add: vm_get_set vm_get_remove vm_keys_distinct_set vm_keys_distinct_remove
      vm_keys_distinct_new vm_get_new)

subsection \<open>Properties\<close>


end
