(* ===== verification/Utf8.thy ===== *)
theory Utf8
  imports Prelude
begin

unbundle bit_operations_syntax

section \<open>Text\<close>

text \<open>
  What the server uses of the text functions of the standard library: the UTF-8 bytes of a
  \<open>str\<close>, \<open>std::str::from_utf8\<close> and \<open>String::from_utf8_lossy\<close>. A Rust
  \<open>char\<close> is its code point.
\<close>

type_synonym rchar = nat

text \<open>The Unicode scalar values.\<close>

definition is_scalar :: "rchar \<Rightarrow> bool" where
  "is_scalar c \<longleftrightarrow> c < 0xD800 \<or> 0xE000 \<le> c \<and> c < 0x110000"

definition encode_char :: "rchar \<Rightarrow> bytes" where
  "encode_char c =
     (if c < 0x80 then [of_nat c]
      else if c < 0x800 then [of_nat (0xC0 + c div 64), of_nat (0x80 + c mod 64)]
      else if c < 0x10000 then
        [of_nat (0xE0 + c div 4096), of_nat (0x80 + c div 64 mod 64), of_nat (0x80 + c mod 64)]
      else
        [of_nat (0xF0 + c div 262144), of_nat (0x80 + c div 4096 mod 64),
         of_nat (0x80 + c div 64 mod 64), of_nat (0x80 + c mod 64)])"

definition utf8_encode :: "rchar list \<Rightarrow> bytes" where
  "utf8_encode cs = concat (map encode_char cs)"

text \<open>One step of decoding: a character, or \<open>None\<close> for the longest part that could not be
  continued to one, and the bytes that follow.\<close>

definition payload :: "u8 \<Rightarrow> nat" where
  "payload b = unat b mod 64"

definition utf8_next :: "u8 \<Rightarrow> bytes \<Rightarrow> rchar option \<times> bytes" where
  "utf8_next b bs =
     (if b < 0x80 then (Some (unat b), bs)
      else if 0xC2 \<le> b \<and> b \<le> 0xDF then
        (case bs of
           c # cs \<Rightarrow> if utf8_cont 0x80 0xBF c then (Some (unat b mod 32 * 64 + payload c), cs) else (None, bs)
         | [] \<Rightarrow> (None, []))
      else if 0xE0 \<le> b \<and> b \<le> 0xEF then
        (case bs of
           c # cs \<Rightarrow>
             if utf8_cont (if b = 0xE0 then 0xA0 else 0x80) (if b = 0xED then 0x9F else 0xBF) c then
               (case cs of
                  d # ds \<Rightarrow>
                    if utf8_cont 0x80 0xBF d
                    then (Some (unat b mod 16 * 4096 + payload c * 64 + payload d), ds)
                    else (None, cs)
                | [] \<Rightarrow> (None, []))
             else (None, bs)
         | [] \<Rightarrow> (None, []))
      else if 0xF0 \<le> b \<and> b \<le> 0xF4 then
        (case bs of
           c # cs \<Rightarrow>
             if utf8_cont (if b = 0xF0 then 0x90 else 0x80) (if b = 0xF4 then 0x8F else 0xBF) c then
               (case cs of
                  d # ds \<Rightarrow>
                    if utf8_cont 0x80 0xBF d then
                      (case ds of
                         e # es \<Rightarrow>
                           if utf8_cont 0x80 0xBF e
                           then (Some (unat b mod 8 * 262144 + payload c * 4096 + payload d * 64 + payload e), es)
                           else (None, ds)
                       | [] \<Rightarrow> (None, []))
                    else (None, cs)
                | [] \<Rightarrow> (None, []))
             else (None, bs)
         | [] \<Rightarrow> (None, []))
      else (None, bs))"

lemma utf8_next_length [termination_simp]: "(c, bs') = utf8_next b bs \<Longrightarrow> length bs' < Suc (length bs)"
  by (auto simp: utf8_next_def split: if_splits list.splits)

fun utf8_chars :: "bytes \<Rightarrow> rchar option list" where
  "utf8_chars [] = []"
| "utf8_chars (b # bs) = (let (c, bs') = utf8_next b bs in c # utf8_chars bs')"

definition from_utf8 :: "bytes \<Rightarrow> rchar list option" where
  "from_utf8 bs =
     (let cs = utf8_chars bs in if None \<in> set cs then None else Some (map the cs))"

definition from_utf8_or_default :: "bytes \<Rightarrow> rchar list" where
  "from_utf8_or_default bs = (case from_utf8 bs of None \<Rightarrow> [] | Some s \<Rightarrow> s)"

definition from_utf8_lossy :: "bytes \<Rightarrow> rchar list" where
  "from_utf8_lossy bs = map (\<lambda>c. case c of None \<Rightarrow> 0xFFFD | Some x \<Rightarrow> x) (utf8_chars bs)"

text \<open>ASCII literals.\<close>

definition lit :: "string \<Rightarrow> rchar list" where
  "lit s = map of_char s"

subsection \<open>Decoding what was encoded\<close>

lemma of_nat_u8_less: "m < 256 \<Longrightarrow> n < 256 \<Longrightarrow> (of_nat m :: u8) < of_nat n \<longleftrightarrow> m < n"
  by (simp add: word_less_nat_alt unat_of_nat)

lemma of_nat_u8_le: "m < 256 \<Longrightarrow> n < 256 \<Longrightarrow> (of_nat m :: u8) \<le> of_nat n \<longleftrightarrow> m \<le> n"
  by (simp add: word_le_nat_alt unat_of_nat)

lemma of_nat_u8_eq: "m < 256 \<Longrightarrow> n < 256 \<Longrightarrow> (of_nat m :: u8) = of_nat n \<longleftrightarrow> m = n"
  by (simp add: word_unat_eq_iff unat_of_nat)

lemma of_nat_u8_numeral:
  assumes "m < 256" and "numeral k < (256 :: nat)"
  shows "(of_nat m :: u8) < numeral k \<longleftrightarrow> m < numeral k"
    and "numeral k \<le> (of_nat m :: u8) \<longleftrightarrow> numeral k \<le> m"
    and "(of_nat m :: u8) \<le> numeral k \<longleftrightarrow> m \<le> numeral k"
    and "(of_nat m :: u8) = numeral k \<longleftrightarrow> m = numeral k"
  using of_nat_u8_less [of m "numeral k"] of_nat_u8_le [of m "numeral k"] of_nat_u8_le [of "numeral k" m]
    of_nat_u8_eq [of m "numeral k"] assms by simp_all

lemma lead_mod:
  fixes n :: nat
  shows "n < 64 \<Longrightarrow> (0x80 + n) mod 64 = n" and "n < 32 \<Longrightarrow> (0xC0 + n) mod 32 = n"
    and "n < 16 \<Longrightarrow> (0xE0 + n) mod 16 = n" and "n < 8 \<Longrightarrow> (0xF0 + n) mod 8 = n"
  using mod_mult_self3 [of 2 64 n] mod_mult_self3 [of 6 32 n] mod_mult_self3 [of 14 16 n]
    mod_mult_self3 [of 30 8 n] by simp_all

lemma cont_byte:
  assumes "m < 64"
  shows "utf8_cont 0x80 0xBF (of_nat (0x80 + m))" and "payload (of_nat (0x80 + m)) = m"
  using assms by (simp_all add: utf8_cont_def of_nat_u8_numeral payload_def unat_of_nat lead_mod del: of_nat_add)

lemma cont_byte_mod [simp]:
  "utf8_cont 0x80 0xBF (of_nat (0x80 + n mod 64))" "payload (of_nat (0x80 + n mod 64)) = n mod 64"
  using cont_byte [of "n mod 64"] by simp_all

lemma split_base_64:
  fixes c :: nat
  shows "c = c div 64 * 64 + c mod 64" and "c div 64 = c div 4096 * 64 + c div 64 mod 64"
    and "c div 4096 = c div 262144 * 64 + c div 4096 mod 64"
proof -
  have "c div 64 div 64 = c div 4096" "c div 4096 div 64 = c div 262144"
    by (simp_all add: div_mult2_eq [symmetric])
  then show "c div 64 = c div 4096 * 64 + c div 64 mod 64" "c div 4096 = c div 262144 * 64 + c div 4096 mod 64"
    by (metis div_mult_mod_eq)+
qed simp

lemma utf8_next_encode:
  assumes "is_scalar c"
  shows "\<exists>b bs. encode_char c = b # bs \<and> utf8_next b (bs @ rest) = (Some c, rest)"
proof -
  consider "c < 0x80" | "0x80 \<le> c" "c < 0x800" | "0x800 \<le> c" "c < 0x10000" | "0x10000 \<le> c" by linarith
  then show ?thesis
  proof cases
    case 1
    then show ?thesis
      by (simp add: encode_char_def utf8_next_def of_nat_u8_numeral unat_of_nat)
  next
    case 2
    then have d: "2 \<le> c div 64" "c div 64 < 32" by auto
    then have "(0xC0 + c div 64) mod 256 mod 32 = c div 64" by (simp add: lead_mod)
    moreover have "c div 64 * 64 + c mod 64 = c" by simp
    ultimately show ?thesis using 2 d
      by (simp add: encode_char_def utf8_next_def of_nat_u8_numeral unat_of_nat del: of_nat_add)
  next
    case 3
    then have d: "c div 4096 < 16" by auto
    note s = split_base_64(1,2) [of c]
    have m: "c mod 64 < 64" by simp
    have e: "c div 4096 * 4096 + c div 64 mod 64 * 64 + c mod 64 = c" using s by linarith
    have E0: "c div 4096 = 0 \<Longrightarrow> 0x20 \<le> c div 64 mod 64" using s m 3 by linarith
    have ED: "c div 4096 = 13 \<Longrightarrow> c div 64 mod 64 < 0x20" using s m 3 assms unfolding is_scalar_def by linarith
    have "utf8_cont (if (of_nat (0xE0 + c div 4096) :: u8) = 0xE0 then 0xA0 else 0x80)
        (if (of_nat (0xE0 + c div 4096) :: u8) = 0xED then 0x9F else 0xBF) (of_nat (0x80 + c div 64 mod 64))"
      using d E0 ED cont_byte(1) [of "c div 64 mod 64"]
      by (auto simp: utf8_cont_def of_nat_u8_numeral simp del: of_nat_add)
    moreover have "(0xE0 + c div 4096) mod 256 mod 16 = c div 4096" using d by (simp add: lead_mod)
    ultimately show ?thesis using 3 d e
      by (simp add: encode_char_def utf8_next_def of_nat_u8_numeral unat_of_nat del: of_nat_add)
  next
    case 4
    then have c: "c < 0x110000" using assms by (auto simp: is_scalar_def)
    then have d: "c div 262144 < 5" by auto
    note s = split_base_64 [of c]
    have m: "c mod 64 < 64" "c div 64 mod 64 < 64" by simp_all
    have e: "c div 262144 * 262144 + c div 4096 mod 64 * 4096 + c div 64 mod 64 * 64 + c mod 64 = c"
      using s by linarith
    have F0: "c div 262144 = 0 \<Longrightarrow> 0x10 \<le> c div 4096 mod 64" using s m 4 by linarith
    have F4: "c div 262144 = 4 \<Longrightarrow> c div 4096 mod 64 < 0x10" using s m c by linarith
    have "utf8_cont (if (of_nat (0xF0 + c div 262144) :: u8) = 0xF0 then 0x90 else 0x80)
        (if (of_nat (0xF0 + c div 262144) :: u8) = 0xF4 then 0x8F else 0xBF) (of_nat (0x80 + c div 4096 mod 64))"
      using d F0 F4 cont_byte(1) [of "c div 4096 mod 64"]
      by (auto simp: utf8_cont_def of_nat_u8_numeral simp del: of_nat_add)
    moreover have "(0xF0 + c div 262144) mod 256 mod 8 = c div 262144" using d by (simp add: lead_mod)
    ultimately show ?thesis using 4 d e
      by (simp add: encode_char_def utf8_next_def of_nat_u8_numeral unat_of_nat del: of_nat_add)
  qed
qed

lemma utf8_chars_encode: "list_all is_scalar cs \<Longrightarrow> utf8_chars (utf8_encode cs) = map Some cs"
proof (induction cs)
  case (Cons c cs)
  then obtain b bs where "encode_char c = b # bs" "utf8_next b (bs @ utf8_encode cs) = (Some c, utf8_encode cs)"
    using utf8_next_encode [of c "utf8_encode cs"] by auto
  moreover have "utf8_encode (c # cs) = encode_char c @ utf8_encode cs" by (simp add: utf8_encode_def)
  ultimately show ?case using Cons by simp
qed (simp add: utf8_encode_def)

lemma from_utf8_encode [codec]:
  "list_all is_scalar cs \<Longrightarrow> from_utf8 (utf8_encode cs) = Some cs"
  "list_all is_scalar cs \<Longrightarrow> from_utf8_lossy (utf8_encode cs) = cs"
  by (auto simp: from_utf8_def from_utf8_lossy_def utf8_chars_encode comp_def)

subsection \<open>Numbers in text\<close>

text \<open>The decimal digits of a number, as \<open>to_string\<close> gives them and \<open>parse\<close> reads
  them.\<close>

fun nat_to_string :: "nat \<Rightarrow> rchar list" where
  "nat_to_string n = (if n < 10 then [48 + n] else nat_to_string (n div 10) @ [48 + n mod 10])"

declare nat_to_string.simps [simp del]

definition parse_digits :: "rchar list \<Rightarrow> nat option" where
  "parse_digits cs =
     (if cs \<noteq> [] \<and> list_all (\<lambda>c. 48 \<le> c \<and> c \<le> 57) cs
      then Some (foldl (\<lambda>a c. a * 10 + (c - 48)) 0 cs) else None)"

lemma nat_to_string_digits: "list_all (\<lambda>c. 48 \<le> c \<and> c \<le> 57) (nat_to_string n) \<and> nat_to_string n \<noteq> []"
proof (induction n rule: nat_to_string.induct)
  case (1 n)
  have "n mod 10 < 10" by simp
  then have "n mod 10 \<le> 9" by linarith
  then show ?case using 1 by (subst (1 2) nat_to_string.simps) auto
qed

lemma nat_to_string_value: "foldl (\<lambda>a c. a * 10 + (c - 48)) 0 (nat_to_string n) = n"
proof (induction n rule: nat_to_string.induct)
  case (1 n)
  then show ?case by (subst nat_to_string.simps) auto
qed

lemma parse_nat_to_string: "parse_digits (nat_to_string n) = Some n"
  using nat_to_string_digits [of n] by (simp add: parse_digits_def nat_to_string_value)

text \<open>The digits as bytes.\<close>

definition decimal :: "nat \<Rightarrow> bytes" where
  "decimal n = map of_nat (nat_to_string n)"

definition is_ascii_digit :: "u8 \<Rightarrow> bool" where
  "is_ascii_digit b \<longleftrightarrow> 48 \<le> b \<and> b \<le> 57"

lemma decimal_digits: "list_all is_ascii_digit (decimal n)" "decimal n \<noteq> []"
proof -
  have "is_ascii_digit (of_nat c)" if "48 \<le> c" "c \<le> 57" for c
    using that by (simp add: is_ascii_digit_def of_nat_u8_numeral)
  then show "list_all is_ascii_digit (decimal n)" "decimal n \<noteq> []"
    using nat_to_string_digits [of n] by (auto simp: decimal_def list_all_iff)
qed

lemma decimal_value: "foldl (\<lambda>a b. a * 10 + unat (b - 48)) 0 (decimal n) = n"
proof -
  have "unat (of_nat c - 48 :: u8) = c - 48" if "48 \<le> c" "c \<le> 57" for c
    using that by (simp add: unat_sub word_le_nat_alt unat_of_nat)
  then have "foldl (\<lambda>a (b :: u8). a * 10 + unat (b - 48)) a (map of_nat cs) = foldl (\<lambda>a c. a * 10 + (c - 48)) a cs"
    if "list_all (\<lambda>c. 48 \<le> c \<and> c \<le> 57) cs" for a cs
    using that by (induction cs arbitrary: a) auto
  then show ?thesis using nat_to_string_digits [of n] nat_to_string_value [of n] by (simp add: decimal_def)
qed

text \<open>\<open>i64::to_string\<close> and \<open>str::parse::<i64>\<close>.\<close>

definition i64_to_string :: "i64 \<Rightarrow> rchar list" where
  "i64_to_string i = (if i < 0 then 45 # nat_to_string (nat (- i)) else nat_to_string (nat i))"

definition parse_i64 :: "rchar list \<Rightarrow> i64 option" where
  "parse_i64 cs =
     (let (neg, ds) = (case cs of [] \<Rightarrow> (False, []) | c # ds \<Rightarrow>
            if c = 45 then (True, ds) else if c = 43 then (False, ds) else (False, cs))
      in case parse_digits ds of
           None \<Rightarrow> None
         | Some n \<Rightarrow> (let i = (if neg then - int n else int n) in if in_i64 i then Some i else None))"

lemma parse_i64_to_string: "in_i64 i \<Longrightarrow> parse_i64 (i64_to_string i) = Some i"
proof -
  assume i: "in_i64 i"
  show ?thesis
  proof (cases "i < 0")
    case True
    then show ?thesis using i by (simp add: i64_to_string_def parse_i64_def parse_nat_to_string)
  next
    case False
    obtain c cs where c: "nat_to_string (nat i) = c # cs" and d: "48 \<le> c"
      using nat_to_string_digits [of "nat i"] by (cases "nat_to_string (nat i)") auto
    then show ?thesis using i False parse_nat_to_string [of "nat i"]
      by (auto simp: i64_to_string_def parse_i64_def Let_def)
  qed
qed

end
