(* ===== verification/Glob.thy ===== *)
theory Glob
  imports Utf8
begin

section \<open>Glob patterns\<close>

text \<open>
  Models \<^verbatim>\<open>src/crates/utils/src/glob.rs\<close>. A Rust \<open>char\<close> is its code point. The
  Unicode tables behind \<open>char::is_uppercase\<close>, \<open>char::to_lowercase\<close> and
  \<open>str::to_lowercase\<close> are arguments. The loop of \<open>matches\<close> is a
  \<open>partial_function\<close>, so that a run that never ends is \<open>None\<close>; it is shown to end
  with the answer of a declarative matcher.
\<close>

abbreviation STAR :: rchar where "STAR \<equiv> 42"
abbreviation QUESTION :: rchar where "QUESTION \<equiv> 63"
abbreviation BACKSLASH :: rchar where "BACKSLASH \<equiv> 92"

datatype pattern_char =
  WildcardMany nat nat
| WildcardSingle nat
| Char rchar nat

record glob_pattern =
  gp_pattern :: "pattern_char list"
  gp_to_lower :: bool

record unicode =
  is_uppercase :: "rchar \<Rightarrow> bool"
  char_to_lowercase :: "rchar \<Rightarrow> rchar list"
  str_to_lowercase :: "rchar list \<Rightarrow> rchar list"

subsection \<open>Compilation\<close>

text \<open>The inner loop: count the stars that follow.\<close>

fun count_stars :: "rchar list \<Rightarrow> nat \<Rightarrow> nat \<times> rchar list" where
  "count_stars [] num = (num, [])"
| "count_stars (c # cs) num = (if c = STAR then count_stars cs (num + 1) else (num, c # cs))"

lemma count_stars_length [termination_simp]:
  "(num', cs') = count_stars cs num \<Longrightarrow> length cs' \<le> length cs"
  by (induction cs num rule: count_stars.induct) (auto split: if_splits)

function compile_loop ::
    "unicode \<Rightarrow> bool \<Rightarrow> rchar list \<Rightarrow> bool \<Rightarrow> pattern_char list \<Rightarrow> pattern_char list" where
  "compile_loop u to_lower [] is_escaped chars = chars"
| "compile_loop u to_lower (c # cs) is_escaped chars =
     (if c = STAR \<and> \<not> is_escaped then
        (let (num, cs') = count_stars cs 1
         in compile_loop u to_lower cs' is_escaped (chars @ [WildcardMany num 0]))
      else if c = QUESTION \<and> \<not> is_escaped then
        compile_loop u to_lower cs is_escaped (chars @ [WildcardSingle 0])
      else if c = BACKSLASH \<and> \<not> is_escaped then
        compile_loop u to_lower cs True chars
      else if to_lower \<and> is_uppercase u c then
        compile_loop u to_lower cs False (chars @ map (\<lambda>c. Char c 0) (char_to_lowercase u c))
      else compile_loop u to_lower cs False (chars @ [Char c 0]))"
  by pat_completeness auto
termination
  by (relation "measure (\<lambda>(u, l, cs, e, chars). length cs)") (auto dest: count_stars_length)

definition compile :: "unicode \<Rightarrow> rchar list \<Rightarrow> bool \<Rightarrow> glob_pattern" where
  "compile u pattern to_lower =
     \<lparr>gp_pattern = compile_loop u to_lower pattern False [], gp_to_lower = to_lower\<rparr>"

subsection \<open>Matching\<close>

text \<open>The four indices of the loop, and one round of its body: the next indices where the round
  ends in \<open>continue\<close>, \<open>None\<close> where it ends in \<open>return false\<close>.\<close>

record glob_state =
  px :: nat
  nx :: nat
  next_px :: nat
  next_nx :: nat

definition retry :: "rchar list \<Rightarrow> glob_state \<Rightarrow> glob_state option" where
  "retry v st =
     (if 0 < next_nx st \<and> next_nx st \<le> length v
      then Some (st\<lparr>px := next_px st, nx := next_nx st\<rparr>) else None)"

definition matches_step :: "pattern_char list \<Rightarrow> rchar list \<Rightarrow> glob_state \<Rightarrow> glob_state option" where
  "matches_step pat v st =
     (case nth_opt pat (px st) of
        Some (Char c match_pos) \<Rightarrow>
          (if nth_opt v (nx st) = Some c then Some (st\<lparr>px := px st + 1, nx := nx st + 1\<rparr>)
           else retry v st)
      | Some (WildcardSingle match_pos) \<Rightarrow>
          (if nx st < length v then Some (st\<lparr>px := px st + 1, nx := nx st + 1\<rparr>)
           else retry v st)
      | Some (WildcardMany num match_pos) \<Rightarrow>
          Some (st\<lparr>next_px := px st, next_nx := nx st + 1, px := px st + 1\<rparr>)
      | None \<Rightarrow> retry v st)"

partial_function (option) matches_loop ::
    "pattern_char list \<Rightarrow> rchar list \<Rightarrow> glob_state \<Rightarrow> bool option" where
  [code]: "matches_loop pat v st =
     (if px st < length pat \<or> nx st < length v then
        let st' = matches_step pat v st
        in if st' = None then Some False else matches_loop pat v (the st')
      else Some True)"

definition matches :: "unicode \<Rightarrow> glob_pattern \<Rightarrow> rchar list \<Rightarrow> bool option" where
  "matches u gp v =
     matches_loop (gp_pattern gp)
       (if gp_to_lower gp then str_to_lowercase u v else v)
       \<lparr>px = 0, nx = 0, next_px = 0, next_nx = 0\<rparr>"

subsection \<open>The declarative matcher\<close>

text \<open>A character matches itself, \<open>?\<close> any one character, \<open>*\<close> any string.\<close>

fun glob_match :: "pattern_char list \<Rightarrow> rchar list \<Rightarrow> bool" where
  "glob_match [] v = (v = [])"
| "glob_match (Char c _ # p) v = (case v of [] \<Rightarrow> False | d # v' \<Rightarrow> c = d \<and> glob_match p v')"
| "glob_match (WildcardSingle _ # p) v = (case v of [] \<Rightarrow> False | d # v' \<Rightarrow> glob_match p v')"
| "glob_match (WildcardMany _ _ # p) v = list_ex (\<lambda>k. glob_match p (drop k v)) [0..<Suc (length v)]"

lemma glob_match_Many:
  "glob_match (WildcardMany n m # p) v \<longleftrightarrow> (\<exists>k \<le> length v. glob_match p (drop k v))"
  unfolding glob_match.simps list_ex_iff set_upt by (auto simp: less_Suc_eq_le simp del: upt_Suc)

subsection \<open>Correctness of the backtracking loop\<close>

text \<open>\<open>answers\<close>: the declarative matcher's answer at the indices of the loop, or at a later
  position of the text for the last \<open>*\<close> that was passed. \<open>in_step\<close>: since that
  \<open>*\<close> the loop has consumed one character for each pattern element, none of them a
  \<open>*\<close>.\<close>

definition is_many :: "pattern_char \<Rightarrow> bool" where
  "is_many p = (case p of WildcardMany _ _ \<Rightarrow> True | _ \<Rightarrow> False)"

definition answers :: "pattern_char list \<Rightarrow> rchar list \<Rightarrow> glob_state \<Rightarrow> bool" where
  "answers pat v st \<longleftrightarrow>
     glob_match (drop (px st) pat) (drop (nx st) v) \<or>
     0 < next_nx st \<and>
       (\<exists>k. next_nx st \<le> k \<and> k \<le> length v \<and> glob_match (drop (Suc (next_px st)) pat) (drop k v))"

definition in_step :: "pattern_char list \<Rightarrow> rchar list \<Rightarrow> glob_state \<Rightarrow> bool" where
  "in_step pat v st \<longleftrightarrow>
     px st \<le> length pat \<and> nx st \<le> length v \<and>
     (0 < next_nx st \<longrightarrow>
        next_px st < length pat \<and> is_many (pat ! next_px st) \<and>
        (px st = next_px st \<and> nx st = next_nx st \<or>
         next_px st < px st \<and> nx st + next_px st + 2 = next_nx st + px st \<and>
         (\<forall>i. next_px st < i \<and> i < px st \<longrightarrow> \<not> is_many (pat ! i))))"

definition rank :: "pattern_char list \<Rightarrow> rchar list \<Rightarrow> (glob_state \<times> glob_state) set" where
  "rank pat v = measures
     [\<lambda>st. 2 * (length v + 1 - next_nx st) + (if next_nx st = 0 \<or> next_px st < px st then 1 else 0),
      \<lambda>st. length pat - px st]"

lemma wf_rank: "wf (rank pat v)"
  by (simp add: rank_def)

lemma glob_match_here:
  assumes "i < length pat"
  shows "glob_match (drop i pat) w \<longleftrightarrow>
    (case pat ! i of
       WildcardMany _ _ \<Rightarrow> (\<exists>k \<le> length w. glob_match (drop (Suc i) pat) (drop k w))
     | WildcardSingle _ \<Rightarrow> w \<noteq> [] \<and> glob_match (drop (Suc i) pat) (tl w)
     | Char c _ \<Rightarrow> w \<noteq> [] \<and> hd w = c \<and> glob_match (drop (Suc i) pat) (tl w))"
proof -
  have "drop i pat = pat ! i # drop (Suc i) pat" using assms by (simp add: Cons_nth_drop_Suc)
  then show ?thesis
    by (cases "pat ! i"; cases w) (auto simp: glob_match_Many simp del: glob_match.simps(4))
qed

lemma glob_match_star:
  assumes "i < length pat" and "is_many (pat ! i)" and "j \<le> length v"
  shows "glob_match (drop i pat) (drop j v) \<longleftrightarrow>
    (\<exists>k. j \<le> k \<and> k \<le> length v \<and> glob_match (drop (Suc i) pat) (drop k v))"
proof -
  have "glob_match (drop i pat) (drop j v) \<longleftrightarrow>
      (\<exists>k \<le> length v - j. glob_match (drop (Suc i) pat) (drop (k + j) v))"
    using assms(2) by (auto simp: glob_match_here [OF assms(1)] is_many_def split: pattern_char.splits)
  also have "\<dots> \<longleftrightarrow> (\<exists>k \<in> (\<lambda>k. k + j) ` {..length v - j}. glob_match (drop (Suc i) pat) (drop k v))"
    by blast
  also have "(\<lambda>k. k + j) ` {..length v - j} = {j..length v}"
    using assms(3) image_add_atLeastAtMost' [of j 0 "length v - j"] by (simp add: atLeast0AtMost)
  finally show ?thesis by auto
qed

text \<open>A match of a star-free stretch of the pattern consumes one character per element.\<close>

lemma skip_singles:
  "\<lbrakk>glob_match (drop a pat) (drop k v); k \<le> length v; a + d \<le> length pat;
    \<forall>i. a \<le> i \<and> i < a + d \<longrightarrow> \<not> is_many (pat ! i)\<rbrakk> \<Longrightarrow>
   k + d \<le> length v \<and> glob_match (drop (a + d) pat) (drop (k + d) v)"
proof (induction d)
  case (Suc d)
  then have here: "k + d \<le> length v" "glob_match (drop (a + d) pat) (drop (k + d) v)"
    and lt: "a + d < length pat" and one: "\<not> is_many (pat ! (a + d))" by auto
  from here(2) one have "drop (k + d) v \<noteq> []" "glob_match (drop (Suc (a + d)) pat) (tl (drop (k + d) v))"
    by (auto simp: glob_match_here [OF lt] is_many_def split: pattern_char.splits)
  then show ?case using here(1) by (simp add: drop_Suc tl_drop)
qed simp

definition good_step :: "pattern_char list \<Rightarrow> rchar list \<Rightarrow> glob_state \<Rightarrow> glob_state option \<Rightarrow> bool" where
  "good_step pat v st r \<longleftrightarrow>
     (case r of
        None \<Rightarrow> \<not> answers pat v st
      | Some st' \<Rightarrow> in_step pat v st' \<and> answers pat v st' = answers pat v st \<and> (st', st) \<in> rank pat v)"

lemma good_retry:
  assumes "in_step pat v st" and "\<not> glob_match (drop (px st) pat) (drop (nx st) v)"
    and "0 < next_nx st \<longrightarrow> next_px st < px st"
  shows "good_step pat v st (retry v st)"
proof (cases "0 < next_nx st \<and> next_nx st \<le> length v")
  case True
  let ?p = "next_px st" and ?n = "next_nx st"
  have many: "?p < length pat" "is_many (pat ! ?p)" using assms(1) True by (auto simp: in_step_def)
  from glob_match_star [OF many, of ?n v] True show ?thesis
    using assms many
    by (auto simp: good_step_def retry_def answers_def in_step_def rank_def)
qed (use assms in \<open>auto simp: good_step_def retry_def answers_def\<close>)

lemma good_advance:
  assumes "in_step pat v st" and "px st < length pat" and "nx st < length v"
    and "\<not> is_many (pat ! px st)"
    and "glob_match (drop (px st) pat) (drop (nx st) v) \<longleftrightarrow>
      glob_match (drop (Suc (px st)) pat) (drop (Suc (nx st)) v)"
  shows "good_step pat v st (Some (st\<lparr>px := px st + 1, nx := nx st + 1\<rparr>))"
proof -
  let ?st = "st\<lparr>px := px st + 1, nx := nx st + 1\<rparr>"
  have "px st \<noteq> next_px st \<or> next_nx st = 0" using assms(1,4) by (auto simp: in_step_def)
  then have "in_step pat v ?st" using assms(1-4) by (auto simp: in_step_def less_Suc_eq)
  moreover have "answers pat v ?st = answers pat v st" using assms(5) by (simp add: answers_def)
  moreover have "(?st, st) \<in> rank pat v" using assms(1,2,4) by (auto simp: in_step_def rank_def)
  ultimately show ?thesis by (simp add: good_step_def)
qed

lemma good_star:
  assumes "in_step pat v st" and "px st < length pat" and "is_many (pat ! px st)"
  shows "good_step pat v st (Some (st\<lparr>next_px := px st, next_nx := nx st + 1, px := px st + 1\<rparr>))"
proof -
  let ?st = "st\<lparr>next_px := px st, next_nx := nx st + 1, px := px st + 1\<rparr>"
  let ?rest = "\<lambda>k. glob_match (drop (Suc (px st)) pat) (drop k v)"
  have nx: "nx st \<le> length v" using assms(1) by (simp add: in_step_def)
  have here: "glob_match (drop (px st) pat) (drop j v) \<longleftrightarrow> (\<exists>k. j \<le> k \<and> k \<le> length v \<and> ?rest k)"
    if "j \<le> length v" for j
    by (rule glob_match_star [OF assms(2,3) that])
  have old: "\<exists>k. nx st \<le> k \<and> k \<le> length v \<and> ?rest k"
    if "0 < next_nx st" "next_nx st \<le> k" "k \<le> length v"
      "glob_match (drop (Suc (next_px st)) pat) (drop k v)" for k
  proof (cases "px st = next_px st")
    case True
    with that assms(1) show ?thesis by (auto simp: in_step_def)
  next
    case False
    define d where "d = px st - Suc (next_px st)"
    have lt: "next_px st < px st" "nx st + next_px st + 2 = next_nx st + px st"
      and free: "\<forall>i. next_px st < i \<and> i < px st \<longrightarrow> \<not> is_many (pat ! i)"
      using assms(1) that(1) False by (auto simp: in_step_def)
    have "k + d \<le> length v" "glob_match (drop (px st) pat) (drop (k + d) v)"
      using skip_singles [OF that(4,3), of d] lt free assms(2) by (auto simp: d_def)
    moreover have "nx st \<le> k + d" using lt that(2) by (simp add: d_def)
    ultimately show ?thesis using here by (meson le_trans)
  qed
  have "answers pat v ?st \<longleftrightarrow> ?rest (nx st) \<or> (\<exists>k. nx st < k \<and> k \<le> length v \<and> ?rest k)"
    by (simp add: answers_def Suc_le_eq)
  also have "\<dots> \<longleftrightarrow> (\<exists>k. nx st \<le> k \<and> k \<le> length v \<and> ?rest k)"
    using nx by (metis le_less)
  also have "\<dots> \<longleftrightarrow> answers pat v st"
    using here [OF nx] old by (auto simp: answers_def)
  finally have "answers pat v ?st = answers pat v st" .
  moreover have "in_step pat v ?st" using assms by (auto simp: in_step_def)
  moreover have "(?st, st) \<in> rank pat v"
    using assms by (auto simp: in_step_def rank_def)
  ultimately show ?thesis by (simp add: good_step_def)
qed

lemma good_matches_step:
  assumes "in_step pat v st" and "px st < length pat \<or> nx st < length v"
  shows "good_step pat v st (matches_step pat v st)"
proof (cases "px st < length pat")
  case True
  have nx: "nx st \<le> length v" using assms(1) by (simp add: in_step_def)
  have gt: "0 < next_nx st \<longrightarrow> next_px st < px st" if "\<not> is_many (pat ! px st)"
    using assms(1) that by (auto simp: in_step_def)
  note here = glob_match_here [OF True]
  show ?thesis
  proof (cases "pat ! px st")
    case (WildcardMany n m)
    then show ?thesis using good_star [OF assms(1) True] True
      by (simp add: matches_step_def nth_opt_def is_many_def)
  next
    case (WildcardSingle m)
    then show ?thesis
      using good_advance [OF assms(1) True] good_retry [OF assms(1)] gt nx True
      by (auto simp: matches_step_def nth_opt_def is_many_def here drop_Suc tl_drop)
  next
    case (Char c m)
    then show ?thesis
      using good_advance [OF assms(1) True] good_retry [OF assms(1)] gt nx True
      by (auto simp: matches_step_def nth_opt_def is_many_def here drop_Suc tl_drop hd_drop_conv_nth)
  qed
next
  case False
  with assms have "drop (px st) pat = []" "drop (nx st) v \<noteq> []" by (auto simp: in_step_def)
  then have "\<not> glob_match (drop (px st) pat) (drop (nx st) v)" by simp
  moreover have "0 < next_nx st \<longrightarrow> next_px st < px st"
    using assms(1) False by (auto simp: in_step_def)
  ultimately show ?thesis
    using good_retry [OF assms(1)] False by (simp add: matches_step_def nth_opt_def)
qed

lemma matches_loop_answers:
  "in_step pat v st \<Longrightarrow> matches_loop pat v st = Some (answers pat v st)"
proof (induction st rule: wf_induct [OF wf_rank [of pat v]])
  case (1 st)
  show ?case
  proof (cases "px st < length pat \<or> nx st < length v")
    case True
    note good = good_matches_step [OF 1(2) True]
    show ?thesis
    proof (cases "matches_step pat v st")
      case None
      with good True show ?thesis
        by (subst matches_loop.simps) (simp add: good_step_def)
    next
      case (Some st')
      with good have "matches_loop pat v st' = Some (answers pat v st)"
        using 1(1) by (auto simp: good_step_def)
      with Some True show ?thesis by (subst matches_loop.simps) simp
    qed
  next
    case False
    with 1(2) have "answers pat v st" by (simp add: in_step_def answers_def)
    with False show ?thesis by (subst matches_loop.simps) simp
  qed
qed

text \<open>Escaping of a literal text, as the syntax of patterns has it.\<close>

definition escape :: "rchar list \<Rightarrow> rchar list" where
  "escape cs = concat (map (\<lambda>c. if c \<in> {STAR, QUESTION, BACKSLASH} then [BACKSLASH, c] else [c]) cs)"

lemma compile_escape:
  "compile_loop u False (escape cs) False chars = chars @ map (\<lambda>c. Char c 0) cs"
  by (induction cs arbitrary: chars) (auto simp: escape_def)

lemma glob_match_literal: "glob_match (map (\<lambda>c. Char c 0) cs) v \<longleftrightarrow> v = cs"
  by (induction cs arbitrary: v) (auto split: list.split)

subsection \<open>Properties\<close>

text \<open>C21: for every pattern and every text the matching loop ends, and its answer is the answer
  of the declarative matcher on the (lower-cased) text.\<close>

theorem matches_glob_match:
  "matches u gp v =
    Some (glob_match (gp_pattern gp) (if gp_to_lower gp then str_to_lowercase u v else v))"
  by (simp add: matches_def matches_loop_answers in_step_def answers_def)

text \<open>The pattern made of a text with its special characters escaped, compiled with case
  kept, matches that text and nothing else.\<close>

theorem matches_escaped_literal: "matches u (compile u (escape cs) False) v = Some (v = cs)"
  by (simp add: matches_def matches_loop_answers in_step_def answers_def compile_def
      compile_escape glob_match_literal)

end
