(* ===== verification/Snowflake.thy ===== *)
theory Snowflake
  imports Prelude
begin

unbundle bit_operations_syntax

section \<open>Snowflake identifiers\<close>

text \<open>
  Models \<^verbatim>\<open>src/crates/utils/src/snowflake.rs\<close>. A \<open>SystemTime\<close> is a number of
  nanoseconds relative to the Unix epoch, a \<open>Duration\<close> a number of nanoseconds; every
  reading of the clock is an argument. \<open>fetch_add\<close> returns the old counter, so concurrent
  callers of \<open>generate\<close> behave as some sequence of calls.
\<close>

type_synonym system_time = int
type_synonym duration = nat

definition from_secs :: "nat \<Rightarrow> duration" where "from_secs s = s * 1000000000"
definition as_millis :: "duration \<Rightarrow> nat" where "as_millis d = d div 1000000"
definition as_secs :: "duration \<Rightarrow> nat" where "as_secs d = d div 1000000000"

definition duration_since :: "system_time \<Rightarrow> system_time \<Rightarrow> duration option" where
  "duration_since now earlier = (if earlier \<le> now then Some (nat (now - earlier)) else None)"

definition checked_sub :: "nat \<Rightarrow> nat \<Rightarrow> nat option" where
  "checked_sub a b = (if b \<le> a then Some (a - b) else None)"

record snowflake_id_generator =
  epoch :: system_time
  node_id :: u64
  sequence :: u64

definition SEQUENCE_LEN :: nat where "SEQUENCE_LEN = 12"
definition NODE_ID_LEN :: nat where "NODE_ID_LEN = 9"
definition SEQUENCE_MASK :: u64 where "SEQUENCE_MASK = push_bit SEQUENCE_LEN 1 - 1"
definition NODE_ID_MASK :: u64 where "NODE_ID_MASK = push_bit NODE_ID_LEN 1 - 1"

definition SNOWFLAKE_EPOCH :: system_time where
  "SNOWFLAKE_EPOCH = int (from_secs 1632280000)"

definition from_duration :: "system_time \<Rightarrow> duration \<Rightarrow> u64 option" where
  "from_duration now period =
     (case duration_since now SNOWFLAKE_EPOCH of
        None \<Rightarrow> None
      | Some elapsed \<Rightarrow>
          (case checked_sub elapsed period of
             None \<Rightarrow> None
           | Some elapsed \<Rightarrow>
               Some (push_bit (SEQUENCE_LEN + NODE_ID_LEN) (of_nat (as_millis elapsed)))))"

text \<open>The clock is read twice.\<close>

definition from_timestamp :: "system_time \<Rightarrow> system_time \<Rightarrow> u64 \<Rightarrow> u64 option" where
  "from_timestamp now now' timestamp =
     (case duration_since now 0 of
        None \<Rightarrow> None
      | Some d \<Rightarrow>
          (case checked_sub (as_secs d) (unat timestamp) of
             None \<Rightarrow> None
           | Some diff \<Rightarrow> from_duration now' (from_secs diff)))"

definition with_node_id :: "u64 \<Rightarrow> snowflake_id_generator" where
  "with_node_id n = \<lparr>epoch = SNOWFLAKE_EPOCH, node_id = n, sequence = 0\<rparr>"

definition past_id :: "snowflake_id_generator \<Rightarrow> system_time \<Rightarrow> duration \<Rightarrow> u64 option" where
  "past_id g now period =
     (case duration_since now (epoch g) of
        None \<Rightarrow> None
      | Some elapsed \<Rightarrow>
          (case checked_sub elapsed period of
             None \<Rightarrow> None
           | Some elapsed \<Rightarrow>
               Some (push_bit (SEQUENCE_LEN + NODE_ID_LEN) (of_nat (as_millis elapsed)))))"

definition generate ::
    "snowflake_id_generator \<Rightarrow> system_time \<Rightarrow> u64 option \<times> snowflake_id_generator" where
  "generate g now =
     (case duration_since now (epoch g) of
        None \<Rightarrow> (None, g)
      | Some d \<Rightarrow>
          let elapsed = of_nat (as_millis d) :: u64;
              seq = sequence g;
              g' = g\<lparr>sequence := seq + 1\<rparr>
          in (Some (push_bit (SEQUENCE_LEN + NODE_ID_LEN) elapsed
                OR push_bit SEQUENCE_LEN (node_id g AND NODE_ID_MASK)
                OR (seq AND SEQUENCE_MASK)), g'))"

definition clone_generator :: "snowflake_id_generator \<Rightarrow> snowflake_id_generator" where
  "clone_generator g = \<lparr>epoch = epoch g, node_id = node_id g, sequence = 0\<rparr>"

text \<open>A run of calls at the given clock readings.\<close>

fun generate_many ::
    "snowflake_id_generator \<Rightarrow> system_time list \<Rightarrow> u64 option list \<times> snowflake_id_generator" where
  "generate_many g [] = ([], g)"
| "generate_many g (now # nows) =
     (let (i, g') = generate g now; (is, g'') = generate_many g' nows in (i # is, g''))"

subsection \<open>The three fields of an identifier\<close>

lemmas snowflake_consts = SEQUENCE_LEN_def NODE_ID_LEN_def SEQUENCE_MASK_def NODE_ID_MASK_def

definition millis_at :: "snowflake_id_generator \<Rightarrow> system_time \<Rightarrow> nat" where
  "millis_at g now = as_millis (nat (now - epoch g))"

lemma mask_take_bit:
  "w AND SEQUENCE_MASK = take_bit 12 w" "w AND NODE_ID_MASK = take_bit 9 w"
  by (simp_all add: snowflake_consts take_bit_eq_mask mask_eq_exp_minus_1)

lemma unat_or_fields:
  fixes e n q :: u64
  shows "unat (push_bit 21 e OR push_bit 12 (take_bit 9 n) OR take_bit 12 q) =
    unat (push_bit 21 e) + (unat n mod 512 * 2 ^ 12 + unat q mod 4096)"
proof -
  have q: "unat (take_bit 12 q) = unat q mod 4096"
    by (simp add: take_bit_eq_mod unat_mod)
  have n: "unat (push_bit 12 (take_bit 9 n)) = unat n mod 512 * 2 ^ 12"
    by (simp add: push_bit_eq_mult take_bit_eq_mod unat_mod unat_word_ariths)
  have low: "push_bit 12 (take_bit 9 n) OR take_bit 12 q = push_bit 12 (take_bit 9 n) + take_bit 12 q"
    by (rule disjunctive_add [symmetric]) (auto simp: bit_simps)
  then have ulow: "unat (push_bit 12 (take_bit 9 n) OR take_bit 12 q) =
      unat n mod 512 * 2 ^ 12 + unat q mod 4096"
    by (simp add: unat_word_ariths n q)
  have "push_bit 21 e OR (push_bit 12 (take_bit 9 n) OR take_bit 12 q) =
      push_bit 21 e + (push_bit 12 (take_bit 9 n) OR take_bit 12 q)"
    by (rule disjunctive_add [symmetric]) (auto simp: bit_simps)
  moreover have "unat (push_bit 21 e) = unat e mod 2 ^ 43 * 2 ^ 21"
    using mult_mod_left [of "unat e" "2 ^ 43" "2 ^ 21"]
    by (simp add: push_bit_eq_mult unat_word_ariths)
  ultimately show ?thesis using ulow by (simp add: or.assoc unat_word_ariths)
qed

lemma unat_millis_field:
  "unat (push_bit 21 (of_nat ms) :: u64) = ms mod 2 ^ 43 * 2 ^ 21"
proof -
  have "push_bit 21 (of_nat ms) = (of_nat (ms * 2 ^ 21) :: u64)" by (simp add: push_bit_eq_mult)
  then have "unat (push_bit 21 (of_nat ms) :: u64) = ms * 2 ^ 21 mod (2 ^ 43 * 2 ^ 21)"
    by (simp add: unat_of_nat del: of_nat_mult)
  then show ?thesis by (simp only: mult_mod_left)
qed

lemma generate_id:
  assumes "epoch g \<le> now"
  obtains i where "generate g now = (Some i, g\<lparr>sequence := sequence g + 1\<rparr>)"
    and "unat i = millis_at g now mod 2 ^ 43 * 2 ^ 21 +
      (unat (node_id g) mod 512 * 2 ^ 12 + unat (sequence g) mod 4096)"
proof (rule that)
  let ?i = "push_bit 21 (of_nat (millis_at g now)) OR push_bit 12 (take_bit 9 (node_id g))
    OR take_bit 12 (sequence g)"
  show "generate g now = (Some ?i, g\<lparr>sequence := sequence g + 1\<rparr>)"
    using assms by (simp add: generate_def duration_since_def mask_take_bit millis_at_def
        SEQUENCE_LEN_def NODE_ID_LEN_def Let_def)
  show "unat ?i = millis_at g now mod 2 ^ 43 * 2 ^ 21 +
      (unat (node_id g) mod 512 * 2 ^ 12 + unat (sequence g) mod 4096)"
    by (simp only: unat_or_fields unat_millis_field)
qed

lemma millis_at_sequence [simp]: "millis_at (g\<lparr>sequence := q\<rparr>) now = millis_at g now"
  by (simp add: millis_at_def)

lemma sequence_step: "(unat (s + 1 :: u64) + j) mod 4096 = (unat s + Suc j) mod 4096"
proof -
  have "unat (s + 1) mod 4096 = (unat s + 1) mod 2 ^ 64 mod 4096" by (simp add: unat_word_ariths)
  also have "\<dots> = (unat s + 1) mod 4096" by (rule mod_mod_cancel) simp
  finally have "(unat (s + 1) + j) mod 4096 = (unat s + 1 + j) mod 4096" by (rule mod_add_cong) simp
  then show ?thesis by simp
qed

lemma generate_many_nth:
  "\<lbrakk>\<forall>now \<in> set nows. epoch g \<le> now; i < length nows\<rbrakk> \<Longrightarrow>
   \<exists>x. fst (generate_many g nows) ! i = Some x \<and>
     unat x = millis_at g (nows ! i) mod 2 ^ 43 * 2 ^ 21 +
       (unat (node_id g) mod 512 * 2 ^ 12 + (unat (sequence g) + i) mod 4096)"
proof (induction nows arbitrary: g i)
  case (Cons now nows)
  obtain x where x: "generate g now = (Some x, g\<lparr>sequence := sequence g + 1\<rparr>)"
    "unat x = millis_at g now mod 2 ^ 43 * 2 ^ 21 +
      (unat (node_id g) mod 512 * 2 ^ 12 + unat (sequence g) mod 4096)"
    using generate_id [of g now] Cons.prems(1) by auto
  show ?case
  proof (cases i)
    case 0
    with x show ?thesis by (simp add: split_beta)
  next
    case (Suc j)
    have "(unat (sequence g + 1) + j) mod 4096 = (unat (sequence g) + Suc j) mod 4096"
      by (rule sequence_step)
    then show ?thesis
      using Cons.IH [of "g\<lparr>sequence := sequence g + 1\<rparr>" j] Cons.prems Suc x(1)
      by (simp add: split_beta)
  qed
qed simp

lemma fields_eq_iff:
  fixes a b n q r :: nat
  assumes "n < 512" and "q < 4096" and "r < 4096"
  shows "a * 2 ^ 21 + (n * 2 ^ 12 + q) = b * 2 ^ 21 + (n * 2 ^ 12 + r) \<longleftrightarrow> a = b \<and> q = r"
proof
  assume "a * 2 ^ 21 + (n * 2 ^ 12 + q) = b * 2 ^ 21 + (n * 2 ^ 12 + r)"
  then have eq: "a * 2097152 + q = b * 2097152 + r" by simp
  from eq have "(a * 2097152 + q) div 2097152 = (b * 2097152 + r) div 2097152" by simp
  then have "a = b" using assms by simp
  with eq show "a = b \<and> q = r" by simp
qed simp

lemma fields_less_iff:
  fixes a b l :: nat
  assumes "l < 2 ^ 21"
  shows "a * 2 ^ 21 + l < b * 2 ^ 21 \<longleftrightarrow> a < b"
  using assms by auto

subsection \<open>Properties\<close>

text \<open>C24: calls of \<open>generate\<close> on one generator, at clock readings not before its epoch,
  all return an identifier; two of them return the same identifier exactly if their clock
  readings fall on the same millisecond (modulo the 43 bits kept) and the number of calls
  between them is a multiple of 4096.\<close>

theorem generate_unique:
  assumes "\<forall>now \<in> set nows. epoch g \<le> now" and "i < j" and "j < length nows"
  shows "fst (generate_many g nows) ! i \<noteq> None \<and>
    (fst (generate_many g nows) ! i = fst (generate_many g nows) ! j \<longleftrightarrow>
      millis_at g (nows ! i) mod 2 ^ 43 = millis_at g (nows ! j) mod 2 ^ 43 \<and> (j - i) mod 4096 = 0)"
proof -
  let ?f = "\<lambda>i. millis_at g (nows ! i) mod 2 ^ 43" and ?q = "\<lambda>i. (unat (sequence g) + i) mod 4096"
  let ?n = "unat (node_id g) mod 512"
  obtain x where x: "fst (generate_many g nows) ! i = Some x"
      "unat x = ?f i * 2 ^ 21 + (?n * 2 ^ 12 + ?q i)"
    using generate_many_nth [OF assms(1) less_trans [OF assms(2,3)]] by blast
  obtain y where y: "fst (generate_many g nows) ! j = Some y"
      "unat y = ?f j * 2 ^ 21 + (?n * 2 ^ 12 + ?q j)"
    using generate_many_nth [OF assms(1,3)] by blast
  have "x = y \<longleftrightarrow> ?f i = ?f j \<and> ?q i = ?q j"
    unfolding word_unat_eq_iff x(2) y(2) by (rule fields_eq_iff) simp_all
  also have "?q i = ?q j \<longleftrightarrow> (j - i) mod 4096 = 0"
    using assms(2) mod_eq_dvd_iff_nat [of "unat (sequence g) + i" "unat (sequence g) + j" 4096]
    by (auto simp: dvd_eq_mod_eq_0)
  finally show ?thesis using x(1) y(1) by simp
qed

theorem generate_unique_witness:
  "fst (generate_many (with_node_id 7) [SNOWFLAKE_EPOCH + 5, SNOWFLAKE_EPOCH + 6]) ! 0 \<noteq>
   fst (generate_many (with_node_id 7) [SNOWFLAKE_EPOCH + 5, SNOWFLAKE_EPOCH + 6]) ! 1"
  using generate_unique [of "[SNOWFLAKE_EPOCH + 5, SNOWFLAKE_EPOCH + 6]" "with_node_id 7" 0 1]
  by (simp add: with_node_id_def)

text \<open>The identifier that \<open>past_id\<close> returns separates the identifiers issued before
  the start of the period from those issued later: an identifier generated by any generator with
  the same epoch is below it exactly if it was generated in an earlier millisecond, as long as
  the milliseconds fit their 43 bits.\<close>

theorem past_id_separates:
  assumes "past_id g now period = Some c" and "generate g' t = (Some x, g'')"
    and "epoch g' = epoch g" and "millis_at g' t < 2 ^ 43" and "millis_at g now < 2 ^ 43"
  shows "x < c \<longleftrightarrow> millis_at g t < as_millis (nat (now - epoch g) - period)"
proof -
  have c: "c = push_bit 21 (of_nat (as_millis (nat (now - epoch g) - period)))"
    using assms(1) by (auto simp: past_id_def duration_since_def checked_sub_def SEQUENCE_LEN_def
        NODE_ID_LEN_def split: if_splits)
  have "as_millis (nat (now - epoch g) - period) < 2 ^ 43"
    using assms(5) div_le_mono [of "nat (now - epoch g) - period" "nat (now - epoch g)" 1000000]
    by (simp add: millis_at_def as_millis_def)
  then have uc: "unat c = as_millis (nat (now - epoch g) - period) * 2 ^ 21"
    by (simp only: c unat_millis_field mod_less)
  have "epoch g' \<le> t" using assms(2) by (auto simp: generate_def duration_since_def split: if_splits)
  then obtain y where y: "generate g' t = (Some y, g'\<lparr>sequence := sequence g' + 1\<rparr>)"
    "unat y = millis_at g' t mod 2 ^ 43 * 2 ^ 21 +
      (unat (node_id g') mod 512 * 2 ^ 12 + unat (sequence g') mod 4096)"
    by (rule generate_id)
  define l where "l = unat (node_id g') mod 512 * 2 ^ 12 + unat (sequence g') mod 4096"
  have "unat (node_id g') mod 512 < 512" "unat (sequence g') mod 4096 < 4096" by simp_all
  then have l: "l < 2 ^ 21" unfolding l_def by simp
  have "unat x = millis_at g t * 2 ^ 21 + l"
    using y assms(2,3,4) by (simp add: l_def millis_at_def)
  then show ?thesis unfolding word_less_nat_alt uc by (simp only: fields_less_iff [OF l])
qed

theorem past_id_separates_witness:
  "\<exists>c x g''. past_id (with_node_id 3) (SNOWFLAKE_EPOCH + 9000000) 2000000 = Some c \<and>
    generate (with_node_id 3) (SNOWFLAKE_EPOCH + 6000000) = (Some x, g'') \<and> x < c"
proof -
  let ?g = "with_node_id 3"
  obtain x g'' where x: "generate ?g (SNOWFLAKE_EPOCH + 6000000) = (Some x, g'')"
    by (rule generate_id [of ?g "SNOWFLAKE_EPOCH + 6000000"]) (simp_all add: with_node_id_def)
  obtain c where c: "past_id ?g (SNOWFLAKE_EPOCH + 9000000) 2000000 = Some c"
    by (simp add: past_id_def duration_since_def checked_sub_def with_node_id_def)
  have "x < c"
    by (subst past_id_separates [OF c x])
      (simp_all add: with_node_id_def millis_at_def as_millis_def)
  with c x show ?thesis by blast
qed

end
