(* ===== verification/Store_Types.thy ===== *)
theory Store_Types
  imports Prelude
begin

unbundle bit_operations_syntax

section \<open>Data of the store\<close>

text \<open>
  The types of \<^verbatim>\<open>src/crates/store/src/lib.rs\<close> and
  \<^verbatim>\<open>src/crates/store/src/write/mod.rs\<close>: subspaces, key classes, operations of a batch and
  the identifiers a batch assigns. A \<open>BlobHash\<close> is a byte string of length 32, the hash of
  a \<open>BitmapHash\<close> one of length 8; a \<open>String\<close> is its UTF-8 bytes; a
  \<open>RoaringBitmap\<close> is the set of its elements. Errors keep the event that is raised and
  drop the context attached to it.
\<close>

datatype trc_error =
  DataCorruption | UnexpectedError | AssertValueFailed | NotConfigured | NotSupported
| SqliteError | DecompressError | BlobMissingMarker | ThreadError | StoreLimit

type_synonym 'a trc_result = "trc_error + 'a"

type_synonym blob_hash = bytes
type_synonym roaring_bitmap = "u32 set"

definition U64_LEN :: nat where "U64_LEN = 8"
definition U32_LEN :: nat where "U32_LEN = 4"
definition BLOB_HASH_LEN :: nat where "BLOB_HASH_LEN = 32"
definition WITH_SUBSPACE :: u32 where "WITH_SUBSPACE = 1"
definition MAX_TOKEN_LENGTH :: nat where "MAX_TOKEN_LENGTH = unat (drop_bit 1 u8_MAX)"

subsection \<open>Subspaces\<close>

definition SUBSPACE_ACL :: u8 where "SUBSPACE_ACL = 97"
definition SUBSPACE_BITMAP_ID :: u8 where "SUBSPACE_BITMAP_ID = 98"
definition SUBSPACE_BITMAP_TAG :: u8 where "SUBSPACE_BITMAP_TAG = 99"
definition SUBSPACE_BITMAP_TEXT :: u8 where "SUBSPACE_BITMAP_TEXT = 118"
definition SUBSPACE_DIRECTORY :: u8 where "SUBSPACE_DIRECTORY = 100"
definition SUBSPACE_FTS_QUEUE :: u8 where "SUBSPACE_FTS_QUEUE = 102"
definition SUBSPACE_INDEXES :: u8 where "SUBSPACE_INDEXES = 105"
definition SUBSPACE_BLOB_RESERVE :: u8 where "SUBSPACE_BLOB_RESERVE = 106"
definition SUBSPACE_BLOB_LINK :: u8 where "SUBSPACE_BLOB_LINK = 107"
definition SUBSPACE_BLOBS :: u8 where "SUBSPACE_BLOBS = 116"
definition SUBSPACE_LOGS :: u8 where "SUBSPACE_LOGS = 108"
definition SUBSPACE_COUNTER :: u8 where "SUBSPACE_COUNTER = 110"
definition SUBSPACE_LOOKUP_VALUE :: u8 where "SUBSPACE_LOOKUP_VALUE = 109"
definition SUBSPACE_PROPERTY :: u8 where "SUBSPACE_PROPERTY = 112"
definition SUBSPACE_SETTINGS :: u8 where "SUBSPACE_SETTINGS = 115"
definition SUBSPACE_QUEUE_MESSAGE :: u8 where "SUBSPACE_QUEUE_MESSAGE = 101"
definition SUBSPACE_QUEUE_EVENT :: u8 where "SUBSPACE_QUEUE_EVENT = 113"
definition SUBSPACE_QUOTA :: u8 where "SUBSPACE_QUOTA = 117"
definition SUBSPACE_REPORT_OUT :: u8 where "SUBSPACE_REPORT_OUT = 104"
definition SUBSPACE_REPORT_IN :: u8 where "SUBSPACE_REPORT_IN = 114"
definition SUBSPACE_FTS_INDEX :: u8 where "SUBSPACE_FTS_INDEX = 103"
definition SUBSPACE_TELEMETRY_SPAN :: u8 where "SUBSPACE_TELEMETRY_SPAN = 111"
definition SUBSPACE_TELEMETRY_INDEX :: u8 where "SUBSPACE_TELEMETRY_INDEX = 119"
definition SUBSPACE_TELEMETRY_METRIC :: u8 where "SUBSPACE_TELEMETRY_METRIC = 120"

lemmas subspace_defs =
  SUBSPACE_ACL_def SUBSPACE_BITMAP_ID_def SUBSPACE_BITMAP_TAG_def SUBSPACE_BITMAP_TEXT_def
  SUBSPACE_DIRECTORY_def SUBSPACE_FTS_QUEUE_def SUBSPACE_INDEXES_def SUBSPACE_BLOB_RESERVE_def
  SUBSPACE_BLOB_LINK_def SUBSPACE_BLOBS_def SUBSPACE_LOGS_def SUBSPACE_COUNTER_def
  SUBSPACE_LOOKUP_VALUE_def SUBSPACE_PROPERTY_def SUBSPACE_SETTINGS_def
  SUBSPACE_QUEUE_MESSAGE_def SUBSPACE_QUEUE_EVENT_def SUBSPACE_QUOTA_def SUBSPACE_REPORT_OUT_def
  SUBSPACE_REPORT_IN_def SUBSPACE_FTS_INDEX_def SUBSPACE_TELEMETRY_SPAN_def
  SUBSPACE_TELEMETRY_INDEX_def SUBSPACE_TELEMETRY_METRIC_def

subsection \<open>Key classes\<close>

record bitmap_hash =
  bh_hash :: bytes
  bh_len :: u8

datatype 't tag_value = TagId 't | TagText bytes

datatype 't bitmap_class =
  DocumentIds
| Tag u8 "'t tag_value"
| Text u8 bitmap_hash

record fts_queue_class =
  fq_seq :: u64
  fq_hash :: blob_hash

record any_class =
  any_subspace :: u8
  any_key :: bytes

datatype lookup_class = LookupKey bytes | LookupCounter bytes

datatype 't directory_class =
  NameToId bytes
| EmailToId bytes
| MemberOf 't 't
| Members 't 't
| Principal 't
| UsedQuota u32

record queue_event =
  qe_due :: u64
  qe_queue_id :: u64

record report_event =
  re_due :: u64
  re_policy_hash :: u64
  re_seq_id :: u64
  re_domain :: bytes

datatype queue_class =
  Message u64
| MessageEvent queue_event
| DmarcReportHeader report_event
| DmarcReportEvent report_event
| TlsReportHeader report_event
| TlsReportEvent report_event
| QuotaCount bytes
| QuotaSize bytes

text \<open>The fields of the reports are the identifier and the expiry, in this order.\<close>

datatype report_class = ReportTls u64 u64 | ReportDmarc u64 u64 | ReportArf u64 u64

datatype telemetry_class =
  Span u64
| Metric u64 u64 u64
| TelemetryIndex u64 bytes

datatype blob_op =
  Reserve blob_hash u64
| Commit blob_hash
| Link blob_hash
| LinkId blob_hash u64

datatype 't value_class =
  Property u8
| Acl u32
| Lookup lookup_class
| FtsIndex bitmap_hash
| FtsQueue fts_queue_class
| Directory "'t directory_class"
| Blob blob_op
| Config bytes
| Queue queue_class
| Report report_class
| Telemetry telemetry_class
| Any any_class

subsection \<open>Keys\<close>

record 't bitmap_key =
  bk_account_id :: u32
  bk_collection :: u8
  bk_class :: "'t bitmap_class"
  bk_document_id :: u32

record index_key =
  ik_account_id :: u32
  ik_collection :: u8
  ik_document_id :: u32
  ik_field :: u8
  ik_key :: bytes

record index_key_prefix =
  ikp_account_id :: u32
  ikp_collection :: u8
  ikp_field :: u8

record 't value_key =
  vk_account_id :: u32
  vk_collection :: u8
  vk_document_id :: u32
  vk_class :: "'t value_class"

record log_key =
  lk_account_id :: u32
  lk_collection :: u8
  lk_change_id :: u64

text \<open>What a backend sees of an \<open>impl Key\<close>: its subspace and its serialization.\<close>

record key =
  key_subspace :: u8
  key_bytes :: bytes

subsection \<open>Batches\<close>

record assigned_ids =
  document_ids :: "u32 list"
  counter_ids :: "i64 list"

definition no_ids :: assigned_ids where
  "no_ids = \<lparr>document_ids = [], counter_ids = []\<rparr>"

text \<open>\<open>Box<dyn SerializeWithId>\<close> is the function it stands for.\<close>

datatype maybe_dynamic_value =
  StaticValue bytes
| DynamicValue "assigned_ids \<Rightarrow> bytes trc_result"

datatype maybe_dynamic_id = StaticId u32 | DynamicId nat

datatype assert_value = AssertU32 u32 | AssertU64 u64 | AssertHash u64 | AssertSome | AssertNone

datatype value_op = SetValue maybe_dynamic_value | AtomicAdd i64 | AddAndGet i64 | ClearValue

datatype operation =
  AccountId u32
| Collection u8
| DocumentId u32
| ChangeId u64
| AssertValue "maybe_dynamic_id value_class" assert_value
| Value "maybe_dynamic_id value_class" value_op
| Index u8 bytes bool
| BitmapOp "maybe_dynamic_id bitmap_class" bool
| Log maybe_dynamic_value

type_synonym batch = "operation list"

definition push_document_id :: "assigned_ids \<Rightarrow> u32 \<Rightarrow> assigned_ids" where
  "push_document_id ids i = ids\<lparr>document_ids := document_ids ids @ [i]\<rparr>"

definition push_counter_id :: "assigned_ids \<Rightarrow> i64 \<Rightarrow> assigned_ids" where
  "push_counter_id ids i = ids\<lparr>counter_ids := counter_ids ids @ [i]\<rparr>"

definition get_document_id :: "assigned_ids \<Rightarrow> nat \<Rightarrow> u32 trc_result" where
  "get_document_id ids idx = ok_or UnexpectedError (nth_opt (document_ids ids) idx)"

definition first_document_id :: "assigned_ids \<Rightarrow> u32 trc_result" where
  "first_document_id ids = get_document_id ids 0"

definition last_opt :: "'a list \<Rightarrow> 'a option" where
  "last_opt xs = (if xs = [] then None else Some (last xs))"

definition last_document_id :: "assigned_ids \<Rightarrow> u32 trc_result" where
  "last_document_id ids = ok_or UnexpectedError (last_opt (document_ids ids))"

definition last_counter_id :: "assigned_ids \<Rightarrow> i64 trc_result" where
  "last_counter_id ids = ok_or UnexpectedError (last_opt (counter_ids ids))"

definition resolve_value :: "maybe_dynamic_value \<Rightarrow> assigned_ids \<Rightarrow> bytes trc_result" where
  "resolve_value v ids =
     (case v of StaticValue b \<Rightarrow> Inr b | DynamicValue f \<Rightarrow> f ids)"

definition resolve_maybe_id :: "maybe_dynamic_id \<Rightarrow> assigned_ids \<Rightarrow> u32 trc_result" where
  "resolve_maybe_id v ids =
     (case v of StaticId i \<Rightarrow> Inr i | DynamicId idx \<Rightarrow> get_document_id ids idx)"

text \<open>\<open>ResolveId\<close> for the two kinds of identifiers a class is made over.\<close>

definition resolve_id_u32 :: "assigned_ids option \<Rightarrow> u32 \<Rightarrow> u32" where
  "resolve_id_u32 ids i = i"

definition resolve_id_dynamic :: "assigned_ids option \<Rightarrow> maybe_dynamic_id \<Rightarrow> u32" where
  "resolve_id_dynamic ids v =
     (case v of
        StaticId i \<Rightarrow> i
      | DynamicId idx \<Rightarrow>
          (case ids of
             None \<Rightarrow> u32_MAX
           | Some ids \<Rightarrow>
               (case nth_opt (document_ids ids) idx of None \<Rightarrow> u32_MAX | Some i \<Rightarrow> i)))"

definition dynamic_document_id :: "nat \<Rightarrow> assigned_ids \<Rightarrow> bytes trc_result" where
  "dynamic_document_id idx ids = rbind (get_document_id ids idx) (\<lambda>i. Inr (be_u32 i))"

definition maybe_id_value :: "maybe_dynamic_id \<Rightarrow> maybe_dynamic_value" where
  "maybe_id_value v =
     (case v of
        StaticId i \<Rightarrow> StaticValue (be_u32 i)
      | DynamicId idx \<Rightarrow> DynamicValue (dynamic_document_id idx))"

end
