(* ===== verification/Store_Keys.thy ===== *)
theory Store_Keys
  imports Store_Types Leb128
begin

unbundle bit_operations_syntax

section \<open>Key serialization\<close>

text \<open>
  Models \<^verbatim>\<open>src/crates/store/src/write/key.rs\<close>. A \<open>KeySerializer\<close> is the byte
  string it has written so far, so a chain of \<open>write\<close> calls is a concatenation. The
  classes are polymorphic in their identifiers; the functions take the \<open>resolve_id\<close> of
  the identifier type, closed over the assigned identifiers.
\<close>

subsection \<open>Big-endian integers inside a key\<close>

definition deserialize_be_u32 :: "bytes \<Rightarrow> nat \<Rightarrow> u32 trc_result" where
  "deserialize_be_u32 bs index =
     rbind (ok_or DataCorruption (get_range bs index (index + U32_LEN))) (\<lambda>b. Inr (from_be_u32 b))"

definition deserialize_be_u64 :: "bytes \<Rightarrow> nat \<Rightarrow> u64 trc_result" where
  "deserialize_be_u64 bs index =
     rbind (ok_or DataCorruption (get_range bs index (index + U64_LEN))) (\<lambda>b. Inr (from_be_u64 b))"

subsection \<open>Serialization\<close>

definition with_subspace :: "u32 \<Rightarrow> u8 \<Rightarrow> bytes" where
  "with_subspace flags s = (if flags AND WITH_SUBSPACE \<noteq> 0 then [s] else [])"

definition serialize_index_key_prefix :: "index_key_prefix \<Rightarrow> u32 \<Rightarrow> bytes" where
  "serialize_index_key_prefix k flags =
     with_subspace flags SUBSPACE_INDEXES @
     be_u32 (ikp_account_id k) @ [ikp_collection k] @ [ikp_field k]"

definition index_key_prefix_len :: nat where
  "index_key_prefix_len = U32_LEN + 2"

definition serialize_log_key :: "log_key \<Rightarrow> u32 \<Rightarrow> bytes" where
  "serialize_log_key k flags =
     with_subspace flags SUBSPACE_LOGS @
     be_u32 (lk_account_id k) @ [lk_collection k] @ be_u64 (lk_change_id k)"

definition serialize_index_key :: "index_key \<Rightarrow> u32 \<Rightarrow> bytes" where
  "serialize_index_key k flags =
     with_subspace flags SUBSPACE_INDEXES @
     be_u32 (ik_account_id k) @ [ik_collection k] @ [ik_field k] @ ik_key k @
     be_u32 (ik_document_id k)"

definition value_subspace :: "'t value_class \<Rightarrow> u8 \<Rightarrow> u8" where
  "value_subspace c collection =
     (case c of
        Property field \<Rightarrow> (if field = 84 \<and> collection = 1 then SUBSPACE_COUNTER else SUBSPACE_PROPERTY)
      | Acl _ \<Rightarrow> SUBSPACE_ACL
      | FtsIndex _ \<Rightarrow> SUBSPACE_FTS_INDEX
      | FtsQueue _ \<Rightarrow> SUBSPACE_FTS_QUEUE
      | Blob op \<Rightarrow> (case op of Reserve _ _ \<Rightarrow> SUBSPACE_BLOB_RESERVE | _ \<Rightarrow> SUBSPACE_BLOB_LINK)
      | Config _ \<Rightarrow> SUBSPACE_SETTINGS
      | Lookup l \<Rightarrow> (case l of LookupKey _ \<Rightarrow> SUBSPACE_LOOKUP_VALUE | LookupCounter _ \<Rightarrow> SUBSPACE_COUNTER)
      | Directory d \<Rightarrow> (case d of UsedQuota _ \<Rightarrow> SUBSPACE_QUOTA | _ \<Rightarrow> SUBSPACE_DIRECTORY)
      | Queue q \<Rightarrow>
          (case q of
             Message _ \<Rightarrow> SUBSPACE_QUEUE_MESSAGE
           | MessageEvent _ \<Rightarrow> SUBSPACE_QUEUE_EVENT
           | DmarcReportHeader _ \<Rightarrow> SUBSPACE_REPORT_OUT
           | TlsReportHeader _ \<Rightarrow> SUBSPACE_REPORT_OUT
           | DmarcReportEvent _ \<Rightarrow> SUBSPACE_REPORT_OUT
           | TlsReportEvent _ \<Rightarrow> SUBSPACE_REPORT_OUT
           | QuotaCount _ \<Rightarrow> SUBSPACE_QUOTA
           | QuotaSize _ \<Rightarrow> SUBSPACE_QUOTA)
      | Report _ \<Rightarrow> SUBSPACE_REPORT_IN
      | Telemetry t \<Rightarrow>
          (case t of
             Span _ \<Rightarrow> SUBSPACE_TELEMETRY_SPAN
           | TelemetryIndex _ _ \<Rightarrow> SUBSPACE_TELEMETRY_INDEX
           | Metric _ _ _ \<Rightarrow> SUBSPACE_TELEMETRY_METRIC)
      | Any a \<Rightarrow> any_subspace a)"

definition is_counter :: "'t value_class \<Rightarrow> u8 \<Rightarrow> bool" where
  "is_counter c collection =
     (case c of
        Directory (UsedQuota _) \<Rightarrow> True
      | Lookup (LookupCounter _) \<Rightarrow> True
      | Queue (QuotaCount _) \<Rightarrow> True
      | Queue (QuotaSize _) \<Rightarrow> True
      | Property field \<Rightarrow> field = 84 \<and> collection = 1
      | _ \<Rightarrow> False)"

text \<open>\<open>hash.get(0..min(len, 8))\<close> on the eight bytes of the hash, and the length byte that
  follows it from length 8 on.\<close>

definition hash_prefix :: "bitmap_hash \<Rightarrow> bytes" where
  "hash_prefix h =
     (case get_range (bh_hash h) 0 (min (unat (bh_len h)) 8) of None \<Rightarrow> [] | Some b \<Rightarrow> b) @
     (if 8 \<le> bh_len h then [bh_len h] else [])"

definition serialize_report_event :: "report_event \<Rightarrow> bytes" where
  "serialize_report_event e =
     be_u64 (re_due e) @ re_domain e @ be_u64 (re_policy_hash e) @ be_u64 (re_seq_id e)"

fun serialize_blob_op :: "blob_op \<Rightarrow> u32 \<Rightarrow> u8 \<Rightarrow> u32 \<Rightarrow> bytes" where
  "serialize_blob_op (Reserve h until) account_id collection document_id =
     be_u32 account_id @ h @ be_u64 until"
| "serialize_blob_op (Commit h) account_id collection document_id =
     h @ be_u32 u32_MAX @ [0] @ be_u32 u32_MAX"
| "serialize_blob_op (Link h) account_id collection document_id =
     h @ be_u32 account_id @ [collection] @ be_u32 document_id"
| "serialize_blob_op (LinkId h i) account_id collection document_id =
     h @ be_u32 (ucast (drop_bit 32 i)) @ [u8_MAX] @ be_u32 (ucast i)"

fun serialize_directory_class :: "('t \<Rightarrow> u32) \<Rightarrow> 't directory_class \<Rightarrow> bytes" where
  "serialize_directory_class resolve (NameToId name) = [0] @ name"
| "serialize_directory_class resolve (EmailToId email) = [1] @ email"
| "serialize_directory_class resolve (Principal uid) = [2] @ leb128 (resolve uid)"
| "serialize_directory_class resolve (UsedQuota uid) = [4] @ leb128 uid"
| "serialize_directory_class resolve (MemberOf principal_id member_of) =
     [5] @ be_u32 (resolve principal_id) @ be_u32 (resolve member_of)"
| "serialize_directory_class resolve (Members principal_id has_member) =
     [6] @ be_u32 (resolve principal_id) @ be_u32 (resolve has_member)"

fun serialize_queue_class :: "queue_class \<Rightarrow> bytes" where
  "serialize_queue_class (Message queue_id) = be_u64 queue_id"
| "serialize_queue_class (MessageEvent event) = be_u64 (qe_due event) @ be_u64 (qe_queue_id event)"
| "serialize_queue_class (DmarcReportHeader event) = [0] @ serialize_report_event event @ [0]"
| "serialize_queue_class (TlsReportHeader event) = [0] @ serialize_report_event event @ [1]"
| "serialize_queue_class (DmarcReportEvent event) = [1] @ serialize_report_event event"
| "serialize_queue_class (TlsReportEvent event) = [2] @ serialize_report_event event"
| "serialize_queue_class (QuotaCount key) = [0] @ key"
| "serialize_queue_class (QuotaSize key) = [1] @ key"

fun serialize_report_class :: "report_class \<Rightarrow> bytes" where
  "serialize_report_class (ReportTls i expires) = [0] @ be_u64 expires @ be_u64 i"
| "serialize_report_class (ReportDmarc i expires) = [1] @ be_u64 expires @ be_u64 i"
| "serialize_report_class (ReportArf i expires) = [2] @ be_u64 expires @ be_u64 i"

fun serialize_telemetry_class :: "telemetry_class \<Rightarrow> bytes" where
  "serialize_telemetry_class (Span span_id) = be_u64 span_id"
| "serialize_telemetry_class (TelemetryIndex span_id v) = v @ be_u64 span_id"
| "serialize_telemetry_class (Metric timestamp metric_id node_id) =
     be_u64 timestamp @ leb128 metric_id @ leb128 node_id"

fun serialize_value_class ::
    "('t \<Rightarrow> u32) \<Rightarrow> 't value_class \<Rightarrow> u32 \<Rightarrow> u8 \<Rightarrow> u32 \<Rightarrow> bytes" where
  "serialize_value_class resolve (Property field) account_id collection document_id =
     be_u32 account_id @ [collection] @ [field] @ be_u32 document_id"
| "serialize_value_class resolve (FtsIndex h) account_id collection document_id =
     be_u32 account_id @ hash_prefix h @ [collection] @ be_u32 document_id"
| "serialize_value_class resolve (Acl grant_account_id) account_id collection document_id =
     be_u32 grant_account_id @ be_u32 account_id @ [collection] @ be_u32 document_id"
| "serialize_value_class resolve (FtsQueue queue) account_id collection document_id =
     be_u64 (fq_seq queue) @ be_u32 account_id @ [collection] @ be_u32 document_id @ fq_hash queue"
| "serialize_value_class resolve (Blob op) account_id collection document_id =
     serialize_blob_op op account_id collection document_id"
| "serialize_value_class resolve (Config key) account_id collection document_id = key"
| "serialize_value_class resolve (Lookup (LookupKey key)) account_id collection document_id = key"
| "serialize_value_class resolve (Lookup (LookupCounter key)) account_id collection document_id = key"
| "serialize_value_class resolve (Directory d) account_id collection document_id =
     serialize_directory_class resolve d"
| "serialize_value_class resolve (Queue q) account_id collection document_id =
     serialize_queue_class q"
| "serialize_value_class resolve (Report r) account_id collection document_id =
     serialize_report_class r"
| "serialize_value_class resolve (Telemetry t) account_id collection document_id =
     serialize_telemetry_class t"
| "serialize_value_class resolve (Any a) account_id collection document_id = any_key a"

definition value_class_serialize ::
    "('t \<Rightarrow> u32) \<Rightarrow> 't value_class \<Rightarrow> u32 \<Rightarrow> u8 \<Rightarrow> u32 \<Rightarrow> u32 \<Rightarrow> bytes" where
  "value_class_serialize resolve c account_id collection document_id flags =
     with_subspace flags (value_subspace c collection) @
     serialize_value_class resolve c account_id collection document_id"

definition BM_MARKER :: u8 where "BM_MARKER = push_bit 7 1"

definition bitmap_subspace :: "'t bitmap_class \<Rightarrow> u8" where
  "bitmap_subspace c =
     (case c of
        DocumentIds \<Rightarrow> SUBSPACE_BITMAP_ID
      | Tag _ _ \<Rightarrow> SUBSPACE_BITMAP_TAG
      | Text _ _ \<Rightarrow> SUBSPACE_BITMAP_TEXT)"

fun serialize_bitmap_class :: "('t \<Rightarrow> u32) \<Rightarrow> 't bitmap_class \<Rightarrow> u32 \<Rightarrow> u8 \<Rightarrow> bytes" where
  "serialize_bitmap_class resolve DocumentIds account_id collection =
     be_u32 account_id @ [collection]"
| "serialize_bitmap_class resolve (Tag field (TagId i)) account_id collection =
     be_u32 account_id @ [collection] @ [field] @ leb128 (resolve i)"
| "serialize_bitmap_class resolve (Tag field (TagText text)) account_id collection =
     be_u32 account_id @ [collection] @ [field OR BM_MARKER] @ text"
| "serialize_bitmap_class resolve (Text field token) account_id collection =
     be_u32 account_id @ hash_prefix token @ [collection] @ [field]"

definition bitmap_class_serialize ::
    "('t \<Rightarrow> u32) \<Rightarrow> 't bitmap_class \<Rightarrow> u32 \<Rightarrow> u8 \<Rightarrow> u32 \<Rightarrow> u32 \<Rightarrow> bytes" where
  "bitmap_class_serialize resolve c account_id collection document_id flags =
     with_subspace flags (bitmap_subspace c) @
     serialize_bitmap_class resolve c account_id collection @ be_u32 document_id"

subsection \<open>Keys as the backends see them\<close>

definition key_of_value :: "u32 value_key \<Rightarrow> key" where
  "key_of_value k =
     \<lparr>key_subspace = value_subspace (vk_class k) (vk_collection k),
      key_bytes = value_class_serialize (resolve_id_u32 None) (vk_class k)
        (vk_account_id k) (vk_collection k) (vk_document_id k) 0\<rparr>"

definition key_of_bitmap :: "u32 bitmap_key \<Rightarrow> key" where
  "key_of_bitmap k =
     \<lparr>key_subspace = bitmap_subspace (bk_class k),
      key_bytes = bitmap_class_serialize (resolve_id_u32 None) (bk_class k)
        (bk_account_id k) (bk_collection k) (bk_document_id k) 0\<rparr>"

definition key_of_index :: "index_key \<Rightarrow> key" where
  "key_of_index k = \<lparr>key_subspace = SUBSPACE_INDEXES, key_bytes = serialize_index_key k 0\<rparr>"

definition key_of_index_prefix :: "index_key_prefix \<Rightarrow> key" where
  "key_of_index_prefix k = \<lparr>key_subspace = SUBSPACE_INDEXES, key_bytes = serialize_index_key_prefix k 0\<rparr>"

definition key_of_log :: "log_key \<Rightarrow> key" where
  "key_of_log k = \<lparr>key_subspace = SUBSPACE_LOGS, key_bytes = serialize_log_key k 0\<rparr>"

definition serialize_any_key :: "any_class \<Rightarrow> u32 \<Rightarrow> bytes" where
  "serialize_any_key k flags = with_subspace flags (any_subspace k) @ any_key k"

definition key_of_any :: "any_class \<Rightarrow> key" where
  "key_of_any k = \<lparr>key_subspace = any_subspace k, key_bytes = serialize_any_key k 0\<rparr>"

definition value_key_property :: "u32 \<Rightarrow> u8 \<Rightarrow> u32 \<Rightarrow> u8 \<Rightarrow> u32 value_key" where
  "value_key_property account_id collection document_id field =
     \<lparr>vk_account_id = account_id, vk_collection = collection, vk_document_id = document_id,
      vk_class = Property field\<rparr>"

definition with_document_id :: "u32 value_key \<Rightarrow> u32 \<Rightarrow> u32 value_key" where
  "with_document_id k document_id = k\<lparr>vk_document_id := document_id\<rparr>"

definition value_key_from_class :: "u32 value_class \<Rightarrow> u32 value_key" where
  "value_key_from_class c =
     \<lparr>vk_account_id = 0, vk_collection = 0, vk_document_id = 0, vk_class = c\<rparr>"

text \<open>Capacity hint for the serializer of a value class.\<close>

definition serialized_size :: "'t value_class \<Rightarrow> nat" where
  "serialized_size c =
     (case c of
        Property _ \<Rightarrow> U32_LEN * 2 + 3
      | FtsIndex h \<Rightarrow>
          (if 8 \<le> bh_len h then U32_LEN * 2 + 10 else unat (bh_len h) + U32_LEN * 2 + 1)
      | Acl _ \<Rightarrow> U32_LEN * 3 + 2
      | Lookup l \<Rightarrow> (case l of LookupCounter v \<Rightarrow> length v | LookupKey v \<Rightarrow> length v)
      | Config v \<Rightarrow> length v
      | Directory d \<Rightarrow>
          (case d of
             NameToId v \<Rightarrow> length v
           | EmailToId v \<Rightarrow> length v
           | Principal _ \<Rightarrow> U32_LEN
           | UsedQuota _ \<Rightarrow> U32_LEN
           | Members _ _ \<Rightarrow> U32_LEN * 2
           | MemberOf _ _ \<Rightarrow> U32_LEN * 2)
      | Blob op \<Rightarrow>
          (case op of
             Reserve _ _ \<Rightarrow> BLOB_HASH_LEN + U64_LEN + U32_LEN + 1
           | _ \<Rightarrow> BLOB_HASH_LEN + U32_LEN * 2 + 2)
      | FtsQueue _ \<Rightarrow> BLOB_HASH_LEN + U64_LEN * 2
      | Queue q \<Rightarrow>
          (case q of
             Message _ \<Rightarrow> U64_LEN
           | MessageEvent _ \<Rightarrow> U64_LEN * 2
           | DmarcReportEvent event \<Rightarrow> length (re_domain event) + U64_LEN * 3
           | TlsReportEvent event \<Rightarrow> length (re_domain event) + U64_LEN * 3
           | DmarcReportHeader event \<Rightarrow> length (re_domain event) + U64_LEN * 3 + 1
           | TlsReportHeader event \<Rightarrow> length (re_domain event) + U64_LEN * 3 + 1
           | QuotaCount v \<Rightarrow> length v
           | QuotaSize v \<Rightarrow> length v)
      | Report _ \<Rightarrow> U64_LEN * 2 + 1
      | Telemetry t \<Rightarrow>
          (case t of
             Span _ \<Rightarrow> U64_LEN + 1
           | TelemetryIndex _ v \<Rightarrow> U64_LEN + length v + 1
           | Metric _ _ _ \<Rightarrow> U64_LEN * 2 + 1)
      | Any a \<Rightarrow> length (any_key a))"

text \<open>\<open>ReportEvent::deserialize\<close> reads the key of a report header back.\<close>

definition deserialize_report_event :: "bytes \<Rightarrow> report_event trc_result" where
  "deserialize_report_event key =
     rbind (deserialize_be_u64 key 1) (\<lambda>due.
     rbind (deserialize_be_u64 key (usize_sub (length key) (U64_LEN * 2 + 1))) (\<lambda>policy_hash.
     rbind (deserialize_be_u64 key (usize_sub (length key) (U64_LEN + 1))) (\<lambda>seq_id.
     rbind (case get_range key (U64_LEN + 1) (usize_sub (length key) (U64_LEN * 2 + 1)) of
              Some domain \<Rightarrow> (if is_utf8 domain then Inr domain else Inl DataCorruption)
            | None \<Rightarrow> Inl DataCorruption) (\<lambda>domain.
     Inr \<lparr>re_due = due, re_policy_hash = policy_hash, re_seq_id = seq_id, re_domain = domain\<rparr>))))"

subsection \<open>Reading keys back\<close>

lemma len_simps [simp]: "U32_LEN = 4" "U64_LEN = 8" "BLOB_HASH_LEN = 32"
  by (simp_all add: U32_LEN_def U64_LEN_def BLOB_HASH_LEN_def)

lemma with_subspace_0 [simp]: "with_subspace 0 s = []"
  by (simp add: with_subspace_def)

lemma deserialize_be_mid [simp, codec]:
  "index = length xs \<Longrightarrow> deserialize_be_u32 (xs @ be_u32 w @ ys) index = Inr w"
  "index = length xs \<Longrightarrow> deserialize_be_u64 (xs @ be_u64 v @ ys) index = Inr v"
  by (simp_all add: deserialize_be_u32_def deserialize_be_u64_def
      get_range_mid' [where ys = "be_u32 w"] get_range_mid' [where ys = "be_u64 v"])

lemma deserialize_be_end [simp, codec]:
  "index = length xs \<Longrightarrow> deserialize_be_u32 (xs @ be_u32 w) index = Inr w"
  "index = length xs \<Longrightarrow> deserialize_be_u64 (xs @ be_u64 v) index = Inr v"
  using deserialize_be_mid [where ys = "[]"] by simp_all

lemma deserialize_be_u32_short:
  "length bs < index + 4 \<Longrightarrow> deserialize_be_u32 bs index = Inl DataCorruption"
  by (simp add: deserialize_be_u32_def get_range_def)

lemma deserialize_be_u32_long:
  "index + 4 \<le> length bs \<Longrightarrow>
    deserialize_be_u32 bs index = Inr (from_be_u32 (take 4 (drop index bs)))"
  by (simp add: deserialize_be_u32_def get_range_def)

lemma deserialize_report_header:
  assumes "is_utf8 (re_domain e)"
  shows "deserialize_report_event (t # serialize_report_event e @ [t']) = Inr e"
proof -
  let ?k = "t # serialize_report_event e @ [t']" and ?d = "re_domain e"
  have len: "length ?k = length ?d + 26" by (simp add: serialize_report_event_def)
  have 1: "deserialize_be_u64 ?k (Suc 0) = Inr (re_due e)"
    using deserialize_be_mid(2) [of "Suc 0" "[t]" "re_due e"] by (simp add: serialize_report_event_def)
  have 2: "deserialize_be_u64 ?k (9 + length ?d) = Inr (re_policy_hash e)"
    using deserialize_be_mid(2) [of "9 + length ?d" "t # be_u64 (re_due e) @ ?d"]
    by (simp add: serialize_report_event_def)
  have 3: "deserialize_be_u64 ?k (17 + length ?d) = Inr (re_seq_id e)"
    using deserialize_be_mid(2)
      [of "17 + length ?d" "t # be_u64 (re_due e) @ ?d @ be_u64 (re_policy_hash e)"]
    by (simp add: serialize_report_event_def)
  have 4: "get_range ?k 9 (9 + length ?d) = Some ?d"
    using get_range_mid' [of 9 "t # be_u64 (re_due e)" "9 + length ?d" ?d]
    by (simp add: serialize_report_event_def)
  show ?thesis
    unfolding deserialize_report_event_def len using assms by (simp add: 1 2 3 4)
qed

subsection \<open>Injectivity\<close>

text \<open>The hash of a token: eight bytes, zero beyond the length of a short token.\<close>

definition wf_hash :: "bitmap_hash \<Rightarrow> bool" where
  "wf_hash h \<longleftrightarrow> length (bh_hash h) = 8 \<and>
     (unat (bh_len h) < 8 \<longrightarrow> drop (unat (bh_len h)) (bh_hash h) = replicate (8 - unat (bh_len h)) 0)"

lemma hash_prefix_wf:
  assumes "wf_hash h"
  shows "hash_prefix h = (if unat (bh_len h) < 8 then take (unat (bh_len h)) (bh_hash h)
    else bh_hash h @ [bh_len h])"
  using assms by (auto simp: hash_prefix_def wf_hash_def get_range_def word_le_nat_alt min_def)

lemma length_hash_prefix:
  "wf_hash h \<Longrightarrow> length (hash_prefix h) = (if unat (bh_len h) < 8 then unat (bh_len h) else 9)"
  by (simp add: hash_prefix_wf) (simp add: wf_hash_def)

lemma hash_prefix_inj:
  assumes "wf_hash h" and "wf_hash h'" and "hash_prefix h = hash_prefix h'"
  shows "h = h'"
proof -
  have len: "length (hash_prefix h) = length (hash_prefix h')" using assms(3) by simp
  show ?thesis
  proof (cases "unat (bh_len h) < 8")
    case True
    then have n: "unat (bh_len h') = unat (bh_len h)"
      using len assms(1,2) by (simp add: length_hash_prefix split: if_splits)
    have "bh_hash h = take (unat (bh_len h)) (bh_hash h) @ drop (unat (bh_len h)) (bh_hash h)" by simp
    also have "\<dots> = take (unat (bh_len h')) (bh_hash h') @ drop (unat (bh_len h')) (bh_hash h')"
      using assms True n unfolding wf_hash_def by (simp add: hash_prefix_wf [OF assms(1)] hash_prefix_wf [OF assms(2)])
    finally have "bh_hash h = bh_hash h'" by simp
    moreover have "bh_len h = bh_len h'" using n by (simp add: word_unat_eq_iff)
    ultimately show ?thesis by (cases h, cases h') simp
  next
    case False
    then have "\<not> unat (bh_len h') < 8"
      using len assms(1,2) by (auto simp: length_hash_prefix split: if_splits)
    with False assms show ?thesis
      by (cases h, cases h') (simp add: hash_prefix_wf wf_hash_def)
  qed
qed

text \<open>Classes whose keys are unambiguous: hashes have their length, and a link does not use the
  collection and document reserved for commit markers and identifier links.\<close>

fun wf_value_class :: "'t value_class \<Rightarrow> u8 \<Rightarrow> u32 \<Rightarrow> bool" where
  "wf_value_class (FtsIndex h) collection document_id = wf_hash h"
| "wf_value_class (FtsQueue q) collection document_id = (length (fq_hash q) = 32)"
| "wf_value_class (Blob (Reserve h _)) collection document_id = (length h = 32)"
| "wf_value_class (Blob (Commit h)) collection document_id = (length h = 32)"
| "wf_value_class (Blob (Link h)) collection document_id =
     (length h = 32 \<and> collection \<noteq> u8_MAX \<and> document_id \<noteq> u32_MAX)"
| "wf_value_class (Blob (LinkId h _)) collection document_id = (length h = 32)"
| "wf_value_class (Lookup (LookupCounter _)) collection document_id = False"
| "wf_value_class (Any _) collection document_id = False"
| "wf_value_class _ collection document_id = True"

text \<open>Which of the account, the collection and the document a class puts in its key.\<close>

definition keyed_by :: "'t value_class \<Rightarrow> u32 \<Rightarrow> u8 \<Rightarrow> u32 \<Rightarrow> u32 option \<times> (u8 \<times> u32) option" where
  "keyed_by c account_id collection document_id =
     (case c of
        Property _ \<Rightarrow> (Some account_id, Some (collection, document_id))
      | FtsIndex _ \<Rightarrow> (Some account_id, Some (collection, document_id))
      | Acl _ \<Rightarrow> (Some account_id, Some (collection, document_id))
      | FtsQueue _ \<Rightarrow> (Some account_id, Some (collection, document_id))
      | Blob (Reserve _ _) \<Rightarrow> (Some account_id, None)
      | Blob (Link _) \<Rightarrow> (Some account_id, Some (collection, document_id))
      | _ \<Rightarrow> (None, None))"

lemma split_hash [simp]:
  "length h = 32 \<Longrightarrow> length h' = 32 \<Longrightarrow> h @ xs = h' @ ys \<longleftrightarrow> h = h' \<and> xs = ys"
  by (simp add: append_eq_append_conv)

lemma split_id:
  fixes i j :: u64
  assumes "(ucast (drop_bit 32 i) :: u32) = ucast (drop_bit 32 j)" and "(ucast i :: u32) = ucast j"
  shows "i = j"
proof (rule bit_word_eqI)
  fix n assume n: "n < LENGTH(64)"
  show "bit i n = bit j n"
  proof (cases "n < 32")
    case True
    then show ?thesis using arg_cong [OF assms(2), of "\<lambda>w. bit w n"] by (simp add: bit_simps)
  next
    case False
    moreover from n have "n - 32 < 32" by auto
    ultimately show ?thesis
      using arg_cong [OF assms(1), of "\<lambda>w. bit w (n - 32)"] by (simp add: bit_simps)
  qed
qed

lemma serialize_report_event_inj [simp]:
  "serialize_report_event e = serialize_report_event e' \<longleftrightarrow> e = e'"
  by (cases e; cases e') (auto simp: serialize_report_event_def simp flip: append_assoc)

lemma serialize_queue_class_inj:
  "value_subspace (Queue q :: 't value_class) a = value_subspace (Queue q' :: 't value_class) b \<Longrightarrow>
    serialize_queue_class q = serialize_queue_class q' \<Longrightarrow> q = q'"
  by (cases q; cases q') (auto simp: value_subspace_def subspace_defs)

lemma serialize_report_class_inj: "serialize_report_class r = serialize_report_class r' \<Longrightarrow> r = r'"
  by (cases r; cases r') auto

lemma serialize_telemetry_class_inj:
  "value_subspace (Telemetry t :: 't value_class) a = value_subspace (Telemetry t' :: 't value_class) b \<Longrightarrow>
    serialize_telemetry_class t = serialize_telemetry_class t' \<Longrightarrow> t = t'"
  by (cases t; cases t')
    (auto simp: value_subspace_def subspace_defs leb128_prefix_free_u64 leb128_inj)

lemma serialize_directory_class_inj:
  "inj resolve \<Longrightarrow> serialize_directory_class resolve d = serialize_directory_class resolve d' \<Longrightarrow> d = d'"
  by (cases d; cases d') (auto simp: leb128_inj dest: injD)

lemma serialize_blob_op_inj:
  "\<lbrakk>serialize_blob_op op a co d = serialize_blob_op op' a' co' d';
    wf_value_class (Blob op :: 't value_class) co d; wf_value_class (Blob op' :: 't value_class) co' d';
    value_subspace (Blob op :: 't value_class) co = value_subspace (Blob op' :: 't value_class) co'\<rbrakk> \<Longrightarrow>
   op = op' \<and> keyed_by (Blob op :: 't value_class) a co d = keyed_by (Blob op' :: 't value_class) a' co' d'"
  by (cases op; cases op') (auto simp: value_subspace_def subspace_defs keyed_by_def intro: split_id)

lemma directory_queue_disjoint:
  "value_subspace (Directory dc :: 't value_class) co = value_subspace (Queue q :: 't value_class) co' \<Longrightarrow>
    serialize_directory_class resolve dc \<noteq> serialize_queue_class q"
  by (cases dc; cases q) (simp_all add: value_subspace_def subspace_defs)

lemma value_subspace_kind:
  "value_subspace c co = value_subspace c' co' \<Longrightarrow> wf_value_class c co d \<Longrightarrow> wf_value_class c' co' d' \<Longrightarrow>
   (case c of
      Property _ \<Rightarrow> (case c' of Property _ \<Rightarrow> True | _ \<Rightarrow> False)
    | Acl _ \<Rightarrow> (case c' of Acl _ \<Rightarrow> True | _ \<Rightarrow> False)
    | FtsIndex _ \<Rightarrow> (case c' of FtsIndex _ \<Rightarrow> True | _ \<Rightarrow> False)
    | FtsQueue _ \<Rightarrow> (case c' of FtsQueue _ \<Rightarrow> True | _ \<Rightarrow> False)
    | Blob _ \<Rightarrow> (case c' of Blob _ \<Rightarrow> True | _ \<Rightarrow> False)
    | Config _ \<Rightarrow> (case c' of Config _ \<Rightarrow> True | _ \<Rightarrow> False)
    | Lookup _ \<Rightarrow> (case c' of Lookup _ \<Rightarrow> True | _ \<Rightarrow> False)
    | Report _ \<Rightarrow> (case c' of Report _ \<Rightarrow> True | _ \<Rightarrow> False)
    | Telemetry _ \<Rightarrow> (case c' of Telemetry _ \<Rightarrow> True | _ \<Rightarrow> False)
    | Directory _ \<Rightarrow> (case c' of Directory _ \<Rightarrow> True | Queue _ \<Rightarrow> True | _ \<Rightarrow> False)
    | Queue _ \<Rightarrow> (case c' of Directory _ \<Rightarrow> True | Queue _ \<Rightarrow> True | _ \<Rightarrow> False)
    | Any _ \<Rightarrow> False)"
  by (cases c; cases c')
    (simp_all add: value_subspace_def subspace_defs split: lookup_class.splits blob_op.splits
      directory_class.splits queue_class.splits telemetry_class.splits if_splits)

lemma serialize_value_class_inj:
  fixes c c' :: "u32 value_class"
  assumes "wf_value_class c co d" and "wf_value_class c' co' d'"
    and "value_subspace c co = value_subspace c' co'"
    and "serialize_value_class (resolve_id_u32 None) c a co d =
      serialize_value_class (resolve_id_u32 None) c' a' co' d'"
  shows "c = c' \<and> keyed_by c a co d = keyed_by c' a' co' d'"
proof -
  have inj: "inj (resolve_id_u32 None)" by (simp add: resolve_id_u32_def inj_def)
  note kind = value_subspace_kind [OF assms(3,1,2)]
  show ?thesis
  proof (cases c)
    case (FtsIndex h)
    then obtain h' where h': "c' = FtsIndex h'" using kind by (cases c') simp_all
    with FtsIndex assms(4) have "hash_prefix h @ [co] = hash_prefix h' @ [co'] \<and> a = a' \<and> d = d'"
      by (simp flip: append_assoc append_Cons)
    then show ?thesis
      using FtsIndex h' assms(1,2) hash_prefix_inj by (auto simp: keyed_by_def)
  next
    case (Blob op)
    then obtain op' where "c' = Blob op'" using kind by (cases c') simp_all
    with Blob assms show ?thesis
      using serialize_blob_op_inj [where op = op and op' = op'] by simp
  next
    case (Directory dc)
    show ?thesis
    proof (cases c')
      case (Directory dc')
      then have "dc = dc'"
        using assms(4) \<open>c = Directory dc\<close> by (intro serialize_directory_class_inj [OF inj]) simp
      then show ?thesis using Directory \<open>c = Directory dc\<close> by (simp add: keyed_by_def)
    next
      case (Queue q)
      then show ?thesis
        using assms(3,4) \<open>c = Directory dc\<close> directory_queue_disjoint [of dc co q co' "resolve_id_u32 None"] by simp
    qed (use kind Directory in simp_all)
  next
    case (Queue q)
    show ?thesis
    proof (cases c')
      case (Directory dc')
      then show ?thesis
        using assms(3,4) \<open>c = Queue q\<close> directory_queue_disjoint [of dc' co' q co "resolve_id_u32 None"] by simp
    next
      case (Queue q')
      then have "q = q'"
        using assms(3,4) \<open>c = Queue q\<close>
        by (intro serialize_queue_class_inj [where 't = u32]) simp_all
      then show ?thesis using Queue \<open>c = Queue q\<close> by (simp add: keyed_by_def)
    qed (use kind Queue in simp_all)
  next
    case (Telemetry t)
    then obtain t' where t': "c' = Telemetry t'" using kind by (cases c') simp_all
    then have "t = t'"
      using assms(3,4) Telemetry by (intro serialize_telemetry_class_inj [where 't = u32]) simp_all
    then show ?thesis using Telemetry t' by (simp add: keyed_by_def)
  next
    case (Report r)
    then obtain r' where r': "c' = Report r'" using kind by (cases c') simp_all
    then have "r = r'" using assms(4) Report by (intro serialize_report_class_inj) simp
    then show ?thesis using Report r' by (simp add: keyed_by_def)
  next
    case (Lookup l)
    then obtain l' where l': "c' = Lookup l'" using kind by (cases c') simp_all
    then show ?thesis using assms Lookup by (cases l; cases l') (simp_all add: keyed_by_def)
  qed (use kind assms in \<open>cases c'; force simp: keyed_by_def\<close>)+
qed

text \<open>Fields of tags leave the high bit free, which marks the tags that are text.\<close>

fun wf_bitmap_class :: "'t bitmap_class \<Rightarrow> bool" where
  "wf_bitmap_class DocumentIds = True"
| "wf_bitmap_class (Tag field _) = (field < 0x80)"
| "wf_bitmap_class (Text _ token) = wf_hash token"

lemma bit_7_small:
  assumes "field < 0x80"
  shows "\<not> bit (field :: u8) 7"
proof -
  have "unat field < 128" using assms by (simp add: word_less_nat_alt)
  then have "\<not> bit (unat field) 7" by (simp add: bit_iff_odd)
  then show ?thesis by (simp add: bit_unsigned_iff)
qed

lemma bit_BM_MARKER [simp]: "bit BM_MARKER n \<longleftrightarrow> n = 7"
  unfolding BM_MARKER_def bit_push_bit_iff by (auto simp: bit_1_iff)

lemma marker_ne: "field < 0x80 \<Longrightarrow> field \<noteq> (field' OR BM_MARKER)"
  using bit_7_small [of field] by (auto simp: bit_or_iff)

lemma marker_inj:
  assumes "field < 0x80" and "field' < 0x80" and "field OR BM_MARKER = field' OR BM_MARKER"
  shows "field = field'"
proof (rule bit_word_eqI)
  fix n assume "n < LENGTH(8)"
  have "bit (field OR BM_MARKER) n = bit (field' OR BM_MARKER) n" using assms(3) by simp
  then show "bit field n = bit field' n"
    using bit_7_small [OF assms(1)] bit_7_small [OF assms(2)]
    by (cases "n = 7") (auto simp: bit_or_iff)
qed

lemma serialize_bitmap_class_inj:
  fixes c c' :: "u32 bitmap_class"
  assumes "wf_bitmap_class c" and "wf_bitmap_class c'" and "bitmap_subspace c = bitmap_subspace c'"
    and "serialize_bitmap_class (resolve_id_u32 None) c a co =
      serialize_bitmap_class (resolve_id_u32 None) c' a' co'"
  shows "c = c' \<and> a = a' \<and> co = co'"
proof (cases c)
  case DocumentIds
  then show ?thesis using assms by (cases c') (auto simp: bitmap_subspace_def subspace_defs)
next
  case (Tag f t)
  then obtain f' t' where c': "c' = Tag f' t'"
    using assms(3) by (cases c') (auto simp: bitmap_subspace_def subspace_defs)
  show ?thesis
    using Tag c' assms marker_ne [of f f'] marker_ne [of f' f] marker_inj [of f f']
    by (cases t; cases t') (auto simp: resolve_id_u32_def)
next
  case (Text f h)
  then obtain f' h' where c': "c' = Text f' h'"
    using assms(3) by (cases c') (auto simp: bitmap_subspace_def subspace_defs)
  then have "hash_prefix h @ [co, f] = hash_prefix h' @ [co', f'] \<and> a = a'"
    using Text assms(4) by simp
  then show ?thesis using Text c' assms(1,2) hash_prefix_inj [of h h'] by simp
qed

subsection \<open>Properties\<close>



text \<open>The keys of the lookup counters share their subspace with the counter that is kept
  for each mailbox (property 84 of collection 1): the lookup counter named by the ten bytes of
  that property's key has the same key as the property.\<close>

theorem counter_key_collision:
  "key_of_value (value_key_property account_id 1 document_id 84) =
   key_of_value (value_key_from_class
     (Lookup (LookupCounter (be_u32 account_id @ [1, 84] @ be_u32 document_id))))"
  by (simp add: key_of_value_def value_key_property_def value_key_from_class_def
      value_class_serialize_def value_subspace_def)

text \<open>C19: two bitmap keys with the same subspace and the same bytes are the same key, when the
  fields of tags leave the marker bit free and the token hashes are padded with zeros.\<close>

theorem bitmap_key_injective:
  assumes "wf_bitmap_class (bk_class k)" and "wf_bitmap_class (bk_class k')"
    and "key_of_bitmap k = key_of_bitmap k'"
  shows "k = k'"
  using serialize_bitmap_class_inj [OF assms(1,2)] assms(3)
  by (auto simp: key_of_bitmap_def bitmap_class_serialize_def)

theorem bitmap_key_injective_witness:
  "key_of_bitmap \<lparr>bk_account_id = 7, bk_collection = 0, bk_class = Tag 3 (TagId 1), bk_document_id = 2\<rparr> \<noteq>
   key_of_bitmap \<lparr>bk_account_id = 7, bk_collection = 0, bk_class = Tag 3 (TagText [1]), bk_document_id = 2\<rparr>"
  using bitmap_key_injective
    [of "\<lparr>bk_account_id = 7, bk_collection = 0, bk_class = Tag 3 (TagId 1), bk_document_id = 2\<rparr>"
        "\<lparr>bk_account_id = 7, bk_collection = 0, bk_class = Tag 3 (TagText [1]), bk_document_id = 2\<rparr>"]
  by auto

text \<open>The byte order of log keys is the order of account, collection and change identifier,
  so a range of log keys is a range of change identifiers.\<close>

theorem log_key_order:
  "key_bytes (key_of_log k) < key_bytes (key_of_log k') \<longleftrightarrow>
     lk_account_id k < lk_account_id k' \<or> lk_account_id k = lk_account_id k' \<and>
     (lk_collection k < lk_collection k' \<or> lk_collection k = lk_collection k' \<and>
      lk_change_id k < lk_change_id k')"
  by (auto simp: key_of_log_def serialize_log_key_def)

text \<open>Reading the key of a queued report header gives the report event back, for the DMARC
  and for the TLS header.\<close>

theorem report_header_roundtrip:
  assumes "is_utf8 (re_domain e)"
  shows "deserialize_report_event (key_bytes (key_of_value (value_key_from_class (Queue (DmarcReportHeader e))))) = Inr e \<and>
    deserialize_report_event (key_bytes (key_of_value (value_key_from_class (Queue (TlsReportHeader e))))) = Inr e"
  using deserialize_report_header [OF assms, of 0]
  by (simp add: key_of_value_def value_key_from_class_def value_class_serialize_def)

theorem report_header_roundtrip_witness:
  "deserialize_report_event (key_bytes (key_of_value (value_key_from_class
     (Queue (TlsReportHeader \<lparr>re_due = 1, re_policy_hash = 2, re_seq_id = 3, re_domain = [0x61, 0x2E, 0x62]\<rparr>))))) =
   Inr \<lparr>re_due = 1, re_policy_hash = 2, re_seq_id = 3, re_domain = [0x61, 0x2E, 0x62]\<rparr>"
  using report_header_roundtrip
    [of "\<lparr>re_due = 1, re_policy_hash = 2, re_seq_id = 3, re_domain = [0x61, 0x2E, 0x62]\<rparr>"]
  by simp

end
