(* ===== verification/Store_Values.thy ===== *)
theory Store_Values
  imports Store_Keys
begin

unbundle bit_operations_syntax

section \<open>Values\<close>

text \<open>
  Models the serialization of values in \<^verbatim>\<open>src/crates/store/src/write/mod.rs\<close>, the
  assertions of \<^verbatim>\<open>src/crates/store/src/write/assert.rs\<close> and the token hashes of
  \<^verbatim>\<open>src/crates/store/src/write/hash.rs\<close>. An iterator over bytes is the list of the bytes
  it has left. The hash functions of the crates \<open>xxhash_rust\<close> and \<open>farmhash\<close> are
  arguments.
\<close>

subsection \<open>Whole values\<close>

definition serialize_u32 :: "u32 \<Rightarrow> bytes" where "serialize_u32 w = be_u32 w"
definition serialize_u64 :: "u64 \<Rightarrow> bytes" where "serialize_u64 w = be_u64 w"
definition serialize_u16 :: "u16 \<Rightarrow> bytes" where "serialize_u16 w = be_u16 w"
definition serialize_i64 :: "64 word \<Rightarrow> bytes" where "serialize_i64 w = be_u64 w"
definition serialize_string :: "bytes \<Rightarrow> bytes" where "serialize_string s = s"
definition serialize_bytes :: "bytes \<Rightarrow> bytes" where "serialize_bytes b = b"
definition serialize_unit :: "unit \<Rightarrow> bytes" where "serialize_unit u = []"

definition deserialize_u64 :: "bytes \<Rightarrow> u64 trc_result" where
  "deserialize_u64 bs = (if length bs = 8 then Inr (from_be_u64 bs) else Inl DataCorruption)"

definition deserialize_i64 :: "bytes \<Rightarrow> 64 word trc_result" where
  "deserialize_i64 bs = (if length bs = 8 then Inr (from_be_u64 bs) else Inl DataCorruption)"

definition deserialize_u32 :: "bytes \<Rightarrow> u32 trc_result" where
  "deserialize_u32 bs = (if length bs = 4 then Inr (from_be_u32 bs) else Inl DataCorruption)"

definition deserialize_unit :: "bytes \<Rightarrow> unit trc_result" where
  "deserialize_unit bs = Inr ()"

subsection \<open>Items of a vector\<close>

text \<open>Lengths are \<open>usize\<close> values and are written as 64-bit integers.\<close>

definition push_len :: "bytes \<Rightarrow> nat \<Rightarrow> bytes" where
  "push_len buf n = to_leb128_bytes (of_nat n :: u64) buf"

definition serialize_into_bytes :: "bytes \<Rightarrow> bytes \<Rightarrow> bytes" where
  "serialize_into_bytes v buf =
     (let buf = push_len buf (length v) in if v \<noteq> [] then buf @ v else buf)"

definition serialize_into_string :: "bytes \<Rightarrow> bytes \<Rightarrow> bytes" where
  "serialize_into_string v buf =
     (let buf = push_len buf (length v) in if v \<noteq> [] then buf @ v else buf)"

definition serialize_into_u32 :: "u32 \<Rightarrow> bytes \<Rightarrow> bytes" where
  "serialize_into_u32 v buf = to_leb128_bytes v buf"

definition serialize_into_u64 :: "u64 \<Rightarrow> bytes \<Rightarrow> bytes" where
  "serialize_into_u64 v buf = to_leb128_bytes v buf"

definition deserialize_from_u32 :: "bytes \<Rightarrow> (u32 \<times> bytes) option" where
  "deserialize_from_u32 it = next_leb128 shifts_u32 it"

definition deserialize_from_u64 :: "bytes \<Rightarrow> (u64 \<times> bytes) option" where
  "deserialize_from_u64 it = next_leb128 shifts_u64 it"

text \<open>The loop that takes \<open>len\<close> bytes.\<close>

fun take_bytes :: "nat \<Rightarrow> bytes \<Rightarrow> bytes \<Rightarrow> (bytes \<times> bytes) option" where
  "take_bytes 0 buf it = Some (buf, it)"
| "take_bytes (Suc n) buf it =
     (case it of [] \<Rightarrow> None | b # it' \<Rightarrow> take_bytes n (buf @ [b]) it')"

definition deserialize_from_bytes :: "bytes \<Rightarrow> (bytes \<times> bytes) option" where
  "deserialize_from_bytes it =
     (case next_leb128 shifts_u64 it of
        None \<Rightarrow> None
      | Some (len :: u64, it') \<Rightarrow> take_bytes (unat len) [] it')"

definition deserialize_from_string :: "bytes \<Rightarrow> (bytes \<times> bytes) option" where
  "deserialize_from_string it =
     (case deserialize_from_bytes it of
        None \<Rightarrow> None
      | Some (s, it') \<Rightarrow> if is_utf8 s then Some (s, it') else None)"

subsection \<open>Vectors\<close>

definition serialize_vec :: "('a \<Rightarrow> bytes \<Rightarrow> bytes) \<Rightarrow> 'a list \<Rightarrow> bytes" where
  "serialize_vec serialize_into xs = fold serialize_into xs (push_len [] (length xs))"

fun deserialize_items ::
    "(bytes \<Rightarrow> ('a \<times> bytes) option) \<Rightarrow> nat \<Rightarrow> 'a list \<Rightarrow> bytes \<Rightarrow> 'a list trc_result" where
  "deserialize_items deserialize_from 0 xs it = Inr xs"
| "deserialize_items deserialize_from (Suc n) xs it =
     (case deserialize_from it of
        None \<Rightarrow> Inl DataCorruption
      | Some (x, it') \<Rightarrow> deserialize_items deserialize_from n (xs @ [x]) it')"

definition deserialize_vec :: "(bytes \<Rightarrow> ('a \<times> bytes) option) \<Rightarrow> bytes \<Rightarrow> 'a list trc_result" where
  "deserialize_vec deserialize_from bs =
     (case next_leb128 shifts_u64 bs of
        None \<Rightarrow> Inl DataCorruption
      | Some (len :: u64, it) \<Rightarrow> deserialize_items deserialize_from (unat len) [] it)"

subsection \<open>Assertions\<close>

record 'a hashed_value =
  hv_hash :: u64
  hv_inner :: 'a

definition assert_matches :: "(bytes \<Rightarrow> u64) \<Rightarrow> assert_value \<Rightarrow> bytes \<Rightarrow> bool" where
  "assert_matches xxh3_64 a bs =
     (case a of
        AssertU32 v \<Rightarrow> length bs = U32_LEN \<and> deserialize_u32 bs = Inr v
      | AssertU64 v \<Rightarrow> length bs = U64_LEN \<and> deserialize_u64 bs = Inr v
      | AssertHash v \<Rightarrow> xxh3_64 bs = v
      | AssertNone \<Rightarrow> False
      | AssertSome \<Rightarrow> True)"

definition assert_is_none :: "assert_value \<Rightarrow> bool" where
  "assert_is_none a = (a = AssertNone)"

definition deserialize_hashed ::
    "(bytes \<Rightarrow> u64) \<Rightarrow> (bytes \<Rightarrow> 'a trc_result) \<Rightarrow> bytes \<Rightarrow> 'a hashed_value trc_result" where
  "deserialize_hashed xxh3_64 deserialize bs =
     rbind (deserialize bs) (\<lambda>x. Inr \<lparr>hv_hash = xxh3_64 bs, hv_inner = x\<rparr>)"

definition hashed_to_assert_value :: "'a hashed_value \<Rightarrow> assert_value" where
  "hashed_to_assert_value v = AssertHash (hv_hash v)"

subsection \<open>Token hashes\<close>

definition le_u64 :: "u64 \<Rightarrow> bytes" where "le_u64 w = rev (be_u64 w)"

definition token_hash :: "(bytes \<Rightarrow> u64) \<Rightarrow> (bytes \<Rightarrow> u64) \<Rightarrow> bytes \<Rightarrow> bytes" where
  "token_hash xxh3_64 hash64 item =
     (if length item \<le> 8 then item @ replicate (8 - length item) 0
      else take 4 (le_u64 (xxh3_64 item)) @ take 4 (le_u64 (hash64 item)))"

definition bitmap_hash_new :: "(bytes \<Rightarrow> u64) \<Rightarrow> (bytes \<Rightarrow> u64) \<Rightarrow> bytes \<Rightarrow> bitmap_hash" where
  "bitmap_hash_new xxh3_64 hash64 item =
     \<lparr>bh_hash = token_hash xxh3_64 hash64 item,
      bh_len = of_nat (min (length item) MAX_TOKEN_LENGTH)\<rparr>"

definition bitmap_hash_to_u64 :: "bitmap_hash \<Rightarrow> u64" where
  "bitmap_hash_to_u64 h = from_be_u64 (bh_hash h)"

definition bitmap_class_word :: "(bytes \<Rightarrow> u64) \<Rightarrow> (bytes \<Rightarrow> u64) \<Rightarrow> bytes \<Rightarrow> u8 \<Rightarrow> 't bitmap_class" where
  "bitmap_class_word xxh3_64 hash64 token field = Text field (bitmap_hash_new xxh3_64 hash64 token)"

definition bitmap_class_stemmed :: "(bytes \<Rightarrow> u64) \<Rightarrow> (bytes \<Rightarrow> u64) \<Rightarrow> bytes \<Rightarrow> u8 \<Rightarrow> 't bitmap_class" where
  "bitmap_class_stemmed xxh3_64 hash64 token field =
     Text (field OR push_bit 7 1) (bitmap_hash_new xxh3_64 hash64 token)"

definition token_type_word :: "u8 \<Rightarrow> u8" where "token_type_word field = field"
definition token_type_stemmed :: "u8 \<Rightarrow> u8" where "token_type_stemmed field = push_bit 7 1 OR field"

subsection \<open>Item codecs\<close>

text \<open>What \<open>Vec<T>\<close> relies on of its items: an item appends its encoding to the
  buffer, and decoding takes exactly that encoding off the input.\<close>

locale item_codec =
  fixes ser :: "'a \<Rightarrow> bytes \<Rightarrow> bytes" and de :: "bytes \<Rightarrow> ('a \<times> bytes) option" and good :: "'a \<Rightarrow> bool"
  assumes ser_append: "ser x buf = buf @ ser x []"
    and de_ser: "good x \<Longrightarrow> de (ser x [] @ it) = Some (x, it)"
begin

lemma fold_ser: "fold ser xs buf = buf @ concat (map (\<lambda>x. ser x []) xs)"
proof (induction xs arbitrary: buf)
  case (Cons x xs)
  then show ?case using ser_append [of x buf] by simp
qed simp

lemma items:
  "\<forall>x \<in> set xs. good x \<Longrightarrow>
    deserialize_items de (length xs) acc (concat (map (\<lambda>x. ser x []) xs) @ it) = Inr (acc @ xs)"
  by (induction xs arbitrary: acc) (simp_all add: de_ser)

lemma vec_roundtrip:
  assumes "\<forall>x \<in> set xs. good x" and "length xs < 2 ^ 64"
  shows "deserialize_vec de (serialize_vec ser xs) = Inr xs"
proof -
  have n: "unat (of_nat (length xs) :: u64) = length xs" using assms(2) by (simp add: unat_of_nat)
  have "serialize_vec ser xs =
      leb128 (of_nat (length xs) :: u64) @ concat (map (\<lambda>x. ser x []) xs)"
    by (simp add: serialize_vec_def fold_ser push_len_def leb128_def)
  then show ?thesis
    using items [OF assms(1), of "[]" "[]"] by (simp add: deserialize_vec_def n)
qed

end

lemma take_bytes_append: "take_bytes (length v) buf (v @ it) = Some (buf @ v, it)"
  by (induction v arbitrary: buf) simp_all

lemma push_len_append: "push_len buf n = buf @ leb128 (of_nat n :: u64)"
  by (simp add: push_len_def to_leb128_bytes_out)

lemma deserialize_from_bytes_roundtrip:
  assumes "length v < 2 ^ 64"
  shows "deserialize_from_bytes (leb128 (of_nat (length v) :: u64) @ v @ it) = Some (v, it)"
proof -
  have "unat (of_nat (length v) :: u64) = length v" using assms by (simp add: unat_of_nat)
  then show ?thesis by (simp add: deserialize_from_bytes_def take_bytes_append)
qed

interpretation u32_items: item_codec serialize_into_u32 deserialize_from_u32 "\<lambda>_. True"
  by unfold_locales
    (simp_all add: serialize_into_u32_def deserialize_from_u32_def to_leb128_bytes_out)

interpretation u64_items: item_codec serialize_into_u64 deserialize_from_u64 "\<lambda>_. True"
  by unfold_locales
    (simp_all add: serialize_into_u64_def deserialize_from_u64_def to_leb128_bytes_out)

interpretation bytes_items: item_codec serialize_into_bytes deserialize_from_bytes
  "\<lambda>v. length v < 2 ^ 64"
proof unfold_locales
  show "serialize_into_bytes x buf = buf @ serialize_into_bytes x []" for x buf
    by (simp add: serialize_into_bytes_def push_len_append Let_def)
  show "deserialize_from_bytes (serialize_into_bytes x [] @ it) = Some (x, it)"
    if "length x < 2 ^ 64" for x it
    using deserialize_from_bytes_roundtrip [OF that]
    by (cases "x = []") (simp_all add: serialize_into_bytes_def push_len_append Let_def)
qed

interpretation string_items: item_codec serialize_into_string deserialize_from_string
  "\<lambda>v. length v < 2 ^ 64 \<and> is_utf8 v"
proof unfold_locales
  show "serialize_into_string x buf = buf @ serialize_into_string x []" for x buf
    by (simp add: serialize_into_string_def push_len_append Let_def)
  show "deserialize_from_string (serialize_into_string x [] @ it) = Some (x, it)"
    if "length x < 2 ^ 64 \<and> is_utf8 x" for x it
    using deserialize_from_bytes_roundtrip [of x] that
    by (cases "x = []")
      (simp_all add: serialize_into_string_def deserialize_from_string_def push_len_append Let_def)
qed

subsection \<open>Hashes of tokens\<close>

lemma MAX_TOKEN_LENGTH_eq: "MAX_TOKEN_LENGTH = 127"
  by (simp add: MAX_TOKEN_LENGTH_def mask_eq_exp_minus_1)

lemma length_token_hash: "length (token_hash f g item) = 8"
  by (simp add: token_hash_def le_u64_def)

lemma unat_bh_len_new: "unat (bh_len (bitmap_hash_new f g item)) = min (length item) 127"
  by (simp add: bitmap_hash_new_def MAX_TOKEN_LENGTH_eq unat_of_nat min_def)

lemma wf_bitmap_hash_new: "wf_hash (bitmap_hash_new f g item)"
proof -
  have "drop (length item) (token_hash f g item) = replicate (8 - length item) 0"
    if "length item < 8" using that by (simp add: token_hash_def)
  then show ?thesis
    unfolding wf_hash_def unat_bh_len_new
    by (auto simp: bitmap_hash_new_def length_token_hash min_def split: if_splits)
qed

lemma token_hash_short: "length t \<le> 8 \<Longrightarrow> take (length t) (token_hash f g t) = t"
  by (simp add: token_hash_def)

lemma bitmap_hash_new_short_inj:
  assumes "bitmap_hash_new f g t = bitmap_hash_new f g t'" and "length t \<le> 8"
  shows "t = t'"
proof -
  have "min (length t) 127 = min (length t') 127"
    using arg_cong [OF assms(1), of "\<lambda>h. unat (bh_len h)"] by (simp only: unat_bh_len_new)
  then have len: "length t' = length t" using assms(2) by linarith
  have eq: "token_hash f g t = token_hash f g t'"
    using arg_cong [OF assms(1), of bh_hash] by (simp add: bitmap_hash_new_def)
  have "t = take (length t) (token_hash f g t)" using assms(2) by (rule token_hash_short [symmetric])
  also have "\<dots> = take (length t') (token_hash f g t')" by (simp only: eq len)
  also have "\<dots> = t'" using assms(2) len by (intro token_hash_short) simp
  finally show ?thesis .
qed

subsection \<open>Properties\<close>

text \<open>C23: a vector of strings survives serialization, whatever the strings, as long as its
  length and theirs fit a \<open>usize\<close>; so do vectors of 32-bit and of 64-bit integers.\<close>

theorem vec_values_roundtrip:
  assumes "length ss < 2 ^ 64" and "\<forall>s \<in> set ss. length s < 2 ^ 64 \<and> is_utf8 s"
    and "length ws < 2 ^ 64" and "length ds < 2 ^ 64"
  shows "deserialize_vec deserialize_from_string (serialize_vec serialize_into_string ss) = Inr ss \<and>
    deserialize_vec deserialize_from_u32 (serialize_vec serialize_into_u32 ws) = Inr ws \<and>
    deserialize_vec deserialize_from_u64 (serialize_vec serialize_into_u64 ds) = Inr ds"
  using string_items.vec_roundtrip [OF assms(2,1)] u32_items.vec_roundtrip [OF _ assms(3)]
    u64_items.vec_roundtrip [OF _ assms(4)] by simp

theorem vec_values_roundtrip_witness:
  "deserialize_vec deserialize_from_string (serialize_vec serialize_into_string [[0x61], []]) =
     Inr [[0x61], []] \<and>
   deserialize_vec deserialize_from_u32 (serialize_vec serialize_into_u32 [300]) = Inr [300] \<and>
   deserialize_vec deserialize_from_u64 (serialize_vec serialize_into_u64 [2 ^ 40]) = Inr [2 ^ 40]"
  using vec_values_roundtrip [of "[[0x61], []]" "[300]" "[2 ^ 40]"] by simp

text \<open>The index key of a word of at most eight bytes is the key of no other word: for any
  hash functions, if two words of an account, collection and field have the same bitmap key and
  the first has at most eight bytes, the words are equal.\<close>

theorem short_word_key_injective:
  assumes "length t \<le> 8"
    and "key_of_bitmap \<lparr>bk_account_id = a, bk_collection = co, bk_class = bitmap_class_word f g t field,
        bk_document_id = d\<rparr> =
      key_of_bitmap \<lparr>bk_account_id = a', bk_collection = co', bk_class = bitmap_class_word f g t' field',
        bk_document_id = d'\<rparr>"
  shows "t = t' \<and> field = field' \<and> a = a' \<and> co = co' \<and> d = d'"
proof -
  have "serialize_bitmap_class (resolve_id_u32 None) (bitmap_class_word f g t field) a co =
      serialize_bitmap_class (resolve_id_u32 None) (bitmap_class_word f g t' field') a' co' \<and> d = d'"
    using assms(2) by (simp add: key_of_bitmap_def bitmap_class_serialize_def flip: append_assoc)
  moreover from this have
    "(bitmap_class_word f g t field :: u32 bitmap_class) = bitmap_class_word f g t' field' \<and>
      a = a' \<and> co = co'"
    by (intro serialize_bitmap_class_inj)
      (simp_all add: bitmap_class_word_def wf_bitmap_hash_new bitmap_subspace_def)
  ultimately show ?thesis
    using bitmap_hash_new_short_inj [of f g t t'] assms(1) by (simp add: bitmap_class_word_def)
qed

theorem short_word_key_injective_witness:
  "key_of_bitmap \<lparr>bk_account_id = 1, bk_collection = 0,
      bk_class = bitmap_class_word (\<lambda>_. 0) (\<lambda>_. 0) [0x61] 2, bk_document_id = 3\<rparr> \<noteq>
   key_of_bitmap \<lparr>bk_account_id = 1, bk_collection = 0,
      bk_class = bitmap_class_word (\<lambda>_. 0) (\<lambda>_. 0) [0x61, 0] 2, bk_document_id = 3\<rparr>"
  using short_word_key_injective [of "[0x61]" 1 0 "\<lambda>_. 0" "\<lambda>_. 0" 2 3 1 0 "[0x61, 0]" 2 3] by auto

end
