(* ===== verification/Batch_Builder.thy ===== *)
theory Batch_Builder
  imports Store_Types
begin

unbundle bit_operations_syntax

section \<open>Building batches\<close>

text \<open>
  Models \<^verbatim>\<open>src/crates/store/src/write/batch.rs\<close> and the \<open>ToBitmaps\<close> instances of
  \<^verbatim>\<open>src/crates/store/src/write/mod.rs\<close>. A \<open>BatchBuilder\<close> and a \<open>Batch\<close> are the
  list of their operations. A value handed to \<open>value\<close> is its serialization and its
  \<open>to_bitmaps\<close>; the tokenizer that the text instance uses is an argument.
\<close>

definition F_VALUE :: u32 where "F_VALUE = push_bit 0 1"
definition F_INDEX :: u32 where "F_INDEX = push_bit 1 1"
definition F_BITMAP :: u32 where "F_BITMAP = push_bit 2 1"
definition F_CLEAR :: u32 where "F_CLEAR = push_bit 3 1"

definition has_flag :: "u32 \<Rightarrow> u32 \<Rightarrow> bool" where
  "has_flag options flag = (options AND flag = flag)"

definition batch_new :: batch where "batch_new = []"

definition batch_with_change_id :: "batch \<Rightarrow> u64 \<Rightarrow> batch" where
  "batch_with_change_id ops change_id = ops @ [ChangeId change_id]"

definition batch_with_account_id :: "batch \<Rightarrow> u32 \<Rightarrow> batch" where
  "batch_with_account_id ops account_id = ops @ [AccountId account_id]"

definition batch_with_collection :: "batch \<Rightarrow> u8 \<Rightarrow> batch" where
  "batch_with_collection ops collection = ops @ [Collection collection]"

definition create_document :: "batch \<Rightarrow> batch" where
  "create_document ops = ops @ [DocumentId u32_MAX, BitmapOp DocumentIds True]"

definition create_document_with_id :: "batch \<Rightarrow> u32 \<Rightarrow> batch" where
  "create_document_with_id ops document_id = ops @ [DocumentId document_id, BitmapOp DocumentIds True]"

definition update_document :: "batch \<Rightarrow> u32 \<Rightarrow> batch" where
  "update_document ops document_id = ops @ [DocumentId document_id]"

definition delete_document :: "batch \<Rightarrow> u32 \<Rightarrow> batch" where
  "delete_document ops document_id = ops @ [DocumentId document_id, BitmapOp DocumentIds False]"

definition batch_assert_value :: "batch \<Rightarrow> maybe_dynamic_id value_class \<Rightarrow> assert_value \<Rightarrow> batch" where
  "batch_assert_value ops c v = ops @ [AssertValue c v]"

definition batch_value ::
    "batch \<Rightarrow> u8 \<Rightarrow> bytes \<Rightarrow> (batch \<Rightarrow> u8 \<Rightarrow> bool \<Rightarrow> batch) \<Rightarrow> u32 \<Rightarrow> batch" where
  "batch_value ops field serialized to_bitmaps options =
     (let is_set = \<not> has_flag options F_CLEAR;
          ops = (if has_flag options F_BITMAP then to_bitmaps ops field is_set else ops);
          ops = (if has_flag options F_INDEX then ops @ [Index field serialized is_set] else ops)
      in if has_flag options F_VALUE
         then ops @ [Value (Property field)
                (if is_set then SetValue (StaticValue serialized) else ClearValue)]
         else ops)"

definition batch_tag :: "batch \<Rightarrow> u8 \<Rightarrow> maybe_dynamic_id tag_value \<Rightarrow> u32 \<Rightarrow> batch" where
  "batch_tag ops field v options = ops @ [BitmapOp (Tag field v) (\<not> has_flag options F_CLEAR)]"

definition batch_add :: "batch \<Rightarrow> maybe_dynamic_id value_class \<Rightarrow> i64 \<Rightarrow> batch" where
  "batch_add ops c v = ops @ [Value c (AtomicAdd v)]"

definition batch_add_and_get :: "batch \<Rightarrow> maybe_dynamic_id value_class \<Rightarrow> i64 \<Rightarrow> batch" where
  "batch_add_and_get ops c v = ops @ [Value c (AddAndGet v)]"

definition batch_set :: "batch \<Rightarrow> maybe_dynamic_id value_class \<Rightarrow> maybe_dynamic_value \<Rightarrow> batch" where
  "batch_set ops c v = ops @ [Value c (SetValue v)]"

definition batch_clear :: "batch \<Rightarrow> maybe_dynamic_id value_class \<Rightarrow> batch" where
  "batch_clear ops c = ops @ [Value c ClearValue]"

definition batch_log :: "batch \<Rightarrow> maybe_dynamic_value \<Rightarrow> batch" where
  "batch_log ops v = ops @ [Log v]"

definition batch_custom :: "batch \<Rightarrow> (batch \<Rightarrow> batch) \<Rightarrow> batch" where
  "batch_custom ops build = build ops"

definition batch_build_batch :: "batch \<Rightarrow> batch \<times> batch" where
  "batch_build_batch ops = (ops, [])"

fun find_account_id :: "operation list \<Rightarrow> u32 option" where
  "find_account_id [] = None"
| "find_account_id (op # ops) =
     (case op of AccountId account_id \<Rightarrow> Some account_id | _ \<Rightarrow> find_account_id ops)"

definition batch_last_account_id :: "batch \<Rightarrow> u32 option" where
  "batch_last_account_id ops = find_account_id (rev ops)"

definition batch_first_account_id :: "batch \<Rightarrow> u32 option" where
  "batch_first_account_id ops = find_account_id ops"

definition batch_is_empty :: "batch \<Rightarrow> bool" where
  "batch_is_empty ops =
     (ops = [] \<or>
      \<not> list_ex (\<lambda>op. \<not> (case op of
          AccountId _ \<Rightarrow> True | Collection _ \<Rightarrow> True | DocumentId _ \<Rightarrow> True
        | AssertValue _ _ \<Rightarrow> True | _ \<Rightarrow> False)) ops)"

definition batch_is_atomic :: "batch \<Rightarrow> bool" where
  "batch_is_atomic ops =
     (\<not> list_ex (\<lambda>op. case op of
          AssertValue _ _ \<Rightarrow> True | Value _ (AddAndGet _) \<Rightarrow> True | _ \<Rightarrow> False) ops)"

definition operation_acl :: "u32 \<Rightarrow> bytes option \<Rightarrow> operation" where
  "operation_acl grant_account_id v =
     Value (Acl grant_account_id)
       (case v of Some b \<Rightarrow> SetValue (StaticValue b) | None \<Rightarrow> ClearValue)"

subsection \<open>Bitmaps of a value\<close>

definition to_bitmaps_u32 :: "u32 \<Rightarrow> batch \<Rightarrow> u8 \<Rightarrow> bool \<Rightarrow> batch" where
  "to_bitmaps_u32 v ops field is_set = ops @ [BitmapOp (Tag field (TagId (StaticId v))) is_set]"

definition to_bitmaps_u64 :: "u64 \<Rightarrow> batch \<Rightarrow> u8 \<Rightarrow> bool \<Rightarrow> batch" where
  "to_bitmaps_u64 v ops field is_set = ops @ [BitmapOp (Tag field (TagId (StaticId (ucast v)))) is_set]"

text \<open>The words of a text are collected in a set before they are pushed; the set is listed
  without repetition.\<close>

definition to_tokens :: "(bytes \<Rightarrow> bytes list) \<Rightarrow> bytes \<Rightarrow> bytes list" where
  "to_tokens word_tokenizer s = remdups (word_tokenizer s)"

definition to_bitmaps_str ::
    "(bytes \<Rightarrow> bytes list) \<Rightarrow> (bytes \<Rightarrow> bitmap_hash) \<Rightarrow> bytes \<Rightarrow> batch \<Rightarrow> u8 \<Rightarrow> bool \<Rightarrow> batch" where
  "to_bitmaps_str word_tokenizer hash_new s ops field is_set =
     fold (\<lambda>token ops. ops @ [BitmapOp (Text field (hash_new token)) is_set])
       (to_tokens word_tokenizer s) ops"

definition to_bitmaps_vec ::
    "('a \<Rightarrow> batch \<Rightarrow> u8 \<Rightarrow> bool \<Rightarrow> batch) \<Rightarrow> 'a list \<Rightarrow> batch \<Rightarrow> u8 \<Rightarrow> bool \<Rightarrow> batch" where
  "to_bitmaps_vec to_bitmaps items ops field is_set =
     fold (\<lambda>item ops. to_bitmaps item ops field is_set) items ops"

subsection \<open>Available document identifiers\<close>

text \<open>\<open>random_available_id\<close> lists the identifiers missing below the largest one in use and
  fills up with the ones that follow until there are a hundred. The random number generator is
  an argument: \<open>gen_range n\<close> is its answer for the range below \<open>n\<close>.\<close>

definition ids_between :: "u32 \<Rightarrow> u32 \<Rightarrow> u32 list" where
  "ids_between a b = map of_nat [unat a..<unat b]"

fun gap_ids :: "u32 list \<Rightarrow> u32 \<Rightarrow> u32 list \<Rightarrow> u32 \<times> u32 list" where
  "gap_ids [] last_id available_ids = (last_id, available_ids)"
| "gap_ids (i # is) last_id available_ids =
     gap_ids is (i + 1) (available_ids @ ids_between last_id i)"

function fill_ids :: "u32 \<Rightarrow> u32 list \<Rightarrow> u32 list" where
  "fill_ids last_id available_ids =
     (if length available_ids < 100 then fill_ids (last_id + 1) (available_ids @ [last_id])
      else available_ids)"
  by pat_completeness auto
termination
  by (relation "measure (\<lambda>(i, xs). 100 - length xs)") auto

declare fill_ids.simps [simp del]

definition available_ids :: "roaring_bitmap \<Rightarrow> u32 list" where
  "available_ids bm =
     (let (last_id, xs) = gap_ids (sorted_list_of_set bm) 0 [] in fill_ids last_id xs)"

definition random_available_id :: "(nat \<Rightarrow> nat) \<Rightarrow> roaring_bitmap \<Rightarrow> u32" where
  "random_available_id gen_range bm =
     (let xs = available_ids bm in xs ! gen_range (length xs))"

lemma ids_between_set: "x \<in> set (ids_between a b) \<longleftrightarrow> a \<le> x \<and> x < b"
proof -
  have "unat b < 2 ^ 32" by (rule order_less_le_trans [OF unsigned_less]) simp
  then have lt: "n < 2 ^ 32" if "n < unat b" for n using that by simp
  have "x \<in> set (ids_between a b) \<longleftrightarrow> (\<exists>n. unat a \<le> n \<and> n < unat b \<and> x = of_nat n)"
    by (auto simp: ids_between_def)
  also have "\<dots> \<longleftrightarrow> unat a \<le> unat x \<and> unat x < unat b"
  proof
    assume "\<exists>n. unat a \<le> n \<and> n < unat b \<and> x = of_nat n"
    then obtain n where n: "unat a \<le> n" "n < unat b" "x = of_nat n" by blast
    then have "unat x = n" using lt [of n] by (simp add: unat_of_nat)
    with n show "unat a \<le> unat x \<and> unat x < unat b" by simp
  next
    assume "unat a \<le> unat x \<and> unat x < unat b"
    then show "\<exists>n. unat a \<le> n \<and> n < unat b \<and> x = of_nat n" by (intro exI [of _ "unat x"]) simp
  qed
  finally show ?thesis by (simp add: word_le_nat_alt word_less_nat_alt)
qed

lemma length_ids_between: "length (ids_between a b) = unat b - unat a"
  by (simp add: ids_between_def)

lemma unat_Suc_u32: "(i :: u32) \<noteq> u32_MAX \<Longrightarrow> unat (i + 1) = Suc (unat i)"
  using unatSuc [of i] by (simp add: add.commute [of i] add_eq_0_iff)

text \<open>The gaps lie between the bounds of the scan and are not in use; counting them and the
  identifiers in use gives the length of the scan.\<close>

lemma gap_ids_spec:
  "\<lbrakk>sorted_wrt (<) xs; \<forall>x \<in> set xs. l \<le> x \<and> x \<noteq> u32_MAX\<rbrakk> \<Longrightarrow>
   \<exists>l' g. gap_ids xs l acc = (l', acc @ g) \<and> l \<le> l' \<and> (\<forall>x \<in> set xs. x < l') \<and>
     (\<forall>i \<in> set g. l \<le> i \<and> i < l' \<and> i \<notin> set xs) \<and> length g + length xs = unat l' - unat l"
proof (induction xs arbitrary: l acc)
  case (Cons x xs)
  have x: "l \<le> x" "x < x + 1" "unat (x + 1) = Suc (unat x)"
    using Cons.prems(2) unat_Suc_u32 [of x] by (simp_all add: word_less_nat_alt)
  have above: "x < y \<longleftrightarrow> x + 1 \<le> y" for y
    using x(3) by (simp add: word_le_nat_alt word_less_nat_alt Suc_le_eq)
  have "\<forall>y \<in> set xs. x + 1 \<le> y \<and> y \<noteq> u32_MAX" using Cons.prems by (simp add: above)
  moreover have "sorted_wrt (<) xs" using Cons.prems(1) by simp
  ultimately obtain l' g where g: "gap_ids xs (x + 1) (acc @ ids_between l x) = (l', (acc @ ids_between l x) @ g)"
    "x < l'" "\<forall>y \<in> set xs. y < l'" "\<forall>i \<in> set g. x < i \<and> i < l' \<and> i \<notin> set xs"
    "length g + length xs = unat l' - Suc (unat x)"
    using Cons.IH [of "x + 1" "acc @ ids_between l x"] unfolding above x(3) by blast
  let ?g = "ids_between l x @ g"
  have "\<forall>i \<in> set ?g. l \<le> i \<and> i < l' \<and> i \<notin> set (x # xs)"
    using g(2,4) x(1) Cons.prems(1) by (fastforce simp: ids_between_set)
  moreover have "length ?g + length (x # xs) = unat l' - unat l"
    using g(2,5) x(1) by (simp add: length_ids_between word_le_nat_alt word_less_nat_alt)
  ultimately show ?case using g(1,2,3) x(1) by (intro exI [of _ l'] exI [of _ ?g]) auto
qed simp

lemma fill_ids_spec:
  "length acc \<le> 100 \<Longrightarrow> fill_ids l acc = acc @ map (\<lambda>k. l + of_nat k) [0..<100 - length acc]"
proof (induction "100 - length acc" arbitrary: l acc)
  case 0
  then show ?case by (simp add: fill_ids.simps)
next
  case (Suc n)
  then have n: "n = 100 - length (acc @ [l])" and lt: "length acc < 100" by auto
  have "fill_ids l acc = fill_ids (l + 1) (acc @ [l])"
    using lt by (subst fill_ids.simps) simp
  also have "\<dots> = (acc @ [l]) @ map (\<lambda>k. l + 1 + of_nat k) [0..<n]"
    using Suc.hyps(1) [OF n] lt unfolding n by simp
  also have "\<dots> = acc @ map (\<lambda>k. l + of_nat k) [0..<Suc n]"
    by (simp add: map_upt_Suc add.assoc del: upt_Suc)
  finally show ?case using Suc.hyps(2) by simp
qed

lemma available_ids_fresh:
  assumes "u32_MAX \<notin> bm" and "card bm + 100 < 2 ^ 32" and "i \<in> set (available_ids bm)"
  shows "i \<notin> bm \<and> i \<noteq> u32_MAX"
proof -
  let ?xs = "sorted_list_of_set bm"
  have xs: "set ?xs = bm" "length ?xs = card bm" by simp_all
  have "\<forall>x \<in> set ?xs. 0 \<le> x \<and> x \<noteq> u32_MAX" using assms(1) xs(1) by auto
  with gap_ids_spec [of ?xs 0 "[]"] obtain l g where
    g: "gap_ids ?xs 0 [] = (l, g)" "\<forall>x \<in> bm. x < l" "\<forall>i \<in> set g. i < l \<and> i \<notin> bm"
      "length g + card bm = unat l"
    by auto
  have avail: "available_ids bm = fill_ids l g" by (simp add: available_ids_def g(1))
  show ?thesis
  proof (cases "i \<in> set g")
    case True
    then show ?thesis using g(3) by (metis word_order.extremum_strict max_word_max)
  next
    case False
    then have "length g < 100" using assms(3) avail
      by (auto simp: fill_ids.simps [of l g] split: if_splits)
    then obtain k where k: "k < 100 - length g" "i = l + of_nat k"
      using assms(3) avail False by (auto simp: fill_ids_spec)
    have "unat l + k < 2 ^ 32 - 1" using k(1) g(4) assms(2) by simp
    then have "unat i = unat l + k" by (simp add: k(2) unat_word_ariths unat_of_nat)
    then have "l \<le> i" "i \<noteq> u32_MAX"
      using \<open>unat l + k < 2 ^ 32 - 1\<close> by (auto simp: word_le_nat_alt unsigned_minus_1_eq_mask mask_eq_exp_minus_1)
    then show ?thesis using g(2) by (auto simp: not_less [symmetric])
  qed
qed

subsection \<open>Properties\<close>

text \<open>C20: the identifier chosen for a new document is not in use and is not the placeholder
  \<open>u32::MAX\<close>, whatever the random number generator answers within its range, as long as
  fewer than about 2^32 documents exist.\<close>

theorem random_available_id_fresh:
  assumes "u32_MAX \<notin> bm" and "card bm + 100 < 2 ^ 32" and "\<And>n. 0 < n \<Longrightarrow> gen_range n < n"
  shows "random_available_id gen_range bm \<notin> bm \<and> random_available_id gen_range bm \<noteq> u32_MAX"
proof -
  obtain l g where lg: "gap_ids (sorted_list_of_set bm) 0 [] = (l, g)" by fastforce
  have "fill_ids l g \<noteq> []" by (cases "length g \<le> 100") (auto simp: fill_ids_spec fill_ids.simps [of l g])
  then have "available_ids bm \<noteq> []" by (simp add: available_ids_def lg)
  then have "random_available_id gen_range bm \<in> set (available_ids bm)"
    using assms(3) by (simp add: random_available_id_def Let_def)
  then show ?thesis by (rule available_ids_fresh [OF assms(1,2)])
qed

theorem random_available_id_fresh_witness:
  "random_available_id (\<lambda>n. n - 1) {3, 5} \<notin> {3, 5} \<and> random_available_id (\<lambda>n. n - 1) {3, 5} \<noteq> u32_MAX"
  by (rule random_available_id_fresh) simp_all

end
