(* ===== verification/Sqlite_Store.thy ===== *)
theory Sqlite_Store
  imports Store_Values Batch_Builder "HOL-Library.Sublist"
begin

section \<open>The SQLite backend\<close>

text \<open>
  Models \<^verbatim>\<open>src/crates/store/src/backend/sqlite/\<close> (\<open>write.rs\<close>, \<open>read.rs\<close>,
  \<open>blob.rs\<close> and the table definitions of \<open>main.rs\<close>). The database engine is not part
  of the program: it is the argument \<open>eng\<close>, which runs the statements of the source on a
  connection of any type. Every statement may fail. What the code relies on of the engine is the
  locale \<open>sql_engine\<close>.
\<close>

subsection \<open>Statements\<close>

datatype sql_value = SqlNull | SqlInt int | SqlReal u64 | SqlText bytes | SqlBlob bytes

datatype column_kind = Blob_Column | No_Column | Integer_Column

text \<open>The statement templates of the source; the table is the letter of its subspace.\<close>

datatype sql_cmd =
  Create_Table u8 column_kind
| Begin_Immediate
| Commit_Transaction
| Rollback_Transaction
| Insert_Or_Replace u8 bytes bytes
| Insert_Add u8 bytes int
| Insert_Add_Returning u8 bytes int
| Update_Add u8 int bytes
| Delete_Key u8 bytes
| Insert_Or_Ignore_Key u8 bytes
| Insert_Key u8 bytes
| Delete_Where_Zero u8
| Delete_Range u8 bytes bytes

datatype sql_query =
  Select_Value u8 bytes
| Select_Keys u8 bytes bytes
| Select_Range bool u8 bytes bytes bool bool

type_synonym sql_row = "sql_value list"

text \<open>\<open>sql_connect\<close>: the pool hands out a connection. \<open>sql_exec\<close>: a statement that
  writes, with the rows it returns or \<open>None\<close> for an error. \<open>sql_select\<close>: a query that
  could be prepared delivers rows, and may fail after them.\<close>

record 'db sql_engine =
  sql_connect :: "'db \<Rightarrow> bool"
  sql_exec :: "sql_cmd \<Rightarrow> 'db \<Rightarrow> sql_row list option \<times> 'db"
  sql_select :: "sql_query \<Rightarrow> 'db \<Rightarrow> (sql_row list \<times> bool) option"

text \<open>\<open>ValueRef::as_bytes\<close> and \<open>row.get::<_, i64>\<close> of the driver.\<close>

definition as_bytes :: "sql_value \<Rightarrow> bytes trc_result" where
  "as_bytes v = (case v of SqlBlob b \<Rightarrow> Inr b | SqlText b \<Rightarrow> Inr b | _ \<Rightarrow> Inl SqliteError)"

definition as_i64 :: "sql_value \<Rightarrow> i64 trc_result" where
  "as_i64 v = (case v of SqlInt i \<Rightarrow> Inr i | _ \<Rightarrow> Inl SqliteError)"

definition column :: "sql_row \<Rightarrow> nat \<Rightarrow> sql_value trc_result" where
  "column row i = ok_or SqliteError (nth_opt row i)"

text \<open>\<open>query_row(..).optional()\<close>: the first row, if there is one.\<close>

definition query_row_optional ::
    "'db sql_engine \<Rightarrow> sql_query \<Rightarrow> (sql_row \<Rightarrow> 'a trc_result) \<Rightarrow> 'db \<Rightarrow> 'a option trc_result" where
  "query_row_optional eng q f db =
     (case sql_select eng q db of
        None \<Rightarrow> Inl SqliteError
      | Some (rows, failed) \<Rightarrow>
          (case rows of
             row # _ \<Rightarrow> rbind (f row) (\<lambda>x. Inr (Some x))
           | [] \<Rightarrow> if failed then Inl SqliteError else Inr None))"

text \<open>Execution of a statement of which only success matters.\<close>

definition exec_ok :: "'db sql_engine \<Rightarrow> sql_cmd \<Rightarrow> 'db \<Rightarrow> unit trc_result \<times> 'db" where
  "exec_ok eng c db =
     (case sql_exec eng c db of
        (None, db') \<Rightarrow> (Inl SqliteError, db')
      | (Some _, db') \<Rightarrow> (Inr (), db'))"

subsection \<open>Tables\<close>

definition blob_tables :: "u8 list" where
  "blob_tables =
     [SUBSPACE_ACL, SUBSPACE_DIRECTORY, SUBSPACE_FTS_QUEUE, SUBSPACE_BLOB_RESERVE,
      SUBSPACE_BLOB_LINK, SUBSPACE_LOOKUP_VALUE, SUBSPACE_PROPERTY, SUBSPACE_SETTINGS,
      SUBSPACE_QUEUE_MESSAGE, SUBSPACE_QUEUE_EVENT, SUBSPACE_REPORT_OUT, SUBSPACE_REPORT_IN,
      SUBSPACE_FTS_INDEX, SUBSPACE_LOGS, SUBSPACE_BLOBS, SUBSPACE_TELEMETRY_SPAN,
      SUBSPACE_TELEMETRY_METRIC, SUBSPACE_TELEMETRY_INDEX]"

definition key_tables :: "u8 list" where
  "key_tables =
     [SUBSPACE_INDEXES, SUBSPACE_BITMAP_ID, SUBSPACE_BITMAP_TAG, SUBSPACE_BITMAP_TEXT]"

definition integer_tables :: "u8 list" where
  "integer_tables = [SUBSPACE_COUNTER, SUBSPACE_QUOTA]"

fun exec_all :: "'db sql_engine \<Rightarrow> sql_cmd list \<Rightarrow> 'db \<Rightarrow> unit trc_result \<times> 'db" where
  "exec_all eng [] db = (Inr (), db)"
| "exec_all eng (c # cs) db =
     (case exec_ok eng c db of
        (Inl e, db') \<Rightarrow> (Inl e, db')
      | (Inr _, db') \<Rightarrow> exec_all eng cs db')"

definition create_tables :: "'db sql_engine \<Rightarrow> 'db \<Rightarrow> unit trc_result \<times> 'db" where
  "create_tables eng db =
     (if \<not> sql_connect eng db then (Inl SqliteError, db)
      else exec_all eng
        (map (\<lambda>t. Create_Table t Blob_Column) blob_tables @
         map (\<lambda>t. Create_Table t No_Column) key_tables @
         map (\<lambda>t. Create_Table t Integer_Column) integer_tables) db)"

subsection \<open>Reading\<close>

definition sqlite_get_value ::
    "'db sql_engine \<Rightarrow> (bytes \<Rightarrow> 'a trc_result) \<Rightarrow> key \<Rightarrow> 'db \<Rightarrow> 'a option trc_result" where
  "sqlite_get_value eng deserialize k db =
     (if \<not> sql_connect eng db then Inl SqliteError
      else query_row_optional eng (Select_Value (key_subspace k) (key_bytes k))
        (\<lambda>row. rbind (column row 0) (\<lambda>v. rbind (as_bytes v) (\<lambda>b.
           case deserialize b of Inl _ \<Rightarrow> Inl SqliteError | Inr x \<Rightarrow> Inr x))) db)"

text \<open>The loop over the rows of a bitmap: keys of another length are skipped.\<close>

fun collect_ids :: "nat \<Rightarrow> sql_row list \<Rightarrow> bool \<Rightarrow> roaring_bitmap \<Rightarrow> roaring_bitmap trc_result" where
  "collect_ids key_len [] failed bm = (if failed then Inl SqliteError else Inr bm)"
| "collect_ids key_len (row # rows) failed bm =
     rbind (column row 0) (\<lambda>v. rbind (as_bytes v) (\<lambda>k.
       if length k = key_len then
         rbind (deserialize_be_u32 k (usize_sub (length k) U32_LEN)) (\<lambda>i.
           collect_ids key_len rows failed (insert i bm))
       else collect_ids key_len rows failed bm))"

definition sqlite_get_bitmap :: "'db sql_engine \<Rightarrow> u32 bitmap_key \<Rightarrow> 'db \<Rightarrow> roaring_bitmap option trc_result" where
  "sqlite_get_bitmap eng k db =
     (let begin_key = key_bytes (key_of_bitmap k);
          end_key = key_bytes (key_of_bitmap (k\<lparr>bk_document_id := u32_MAX\<rparr>));
          key_len = length begin_key;
          table = key_subspace (key_of_bitmap k)
      in if \<not> sql_connect eng db then Inl SqliteError
         else case sql_select eng (Select_Keys table begin_key end_key) db of
             None \<Rightarrow> Inl SqliteError
           | Some (rows, failed) \<Rightarrow>
               rbind (collect_ids key_len rows failed {}) (\<lambda>bm.
                 Inr (if bm \<noteq> {} then Some bm else None)))"

record iterate_params =
  ip_begin :: key
  ip_end :: key
  ip_first :: bool
  ip_ascending :: bool
  ip_values :: bool

definition iterate_params_new :: "key \<Rightarrow> key \<Rightarrow> iterate_params" where
  "iterate_params_new b e =
     \<lparr>ip_begin = b, ip_end = e, ip_first = False, ip_ascending = True, ip_values = True\<rparr>"

definition ascending :: "iterate_params \<Rightarrow> iterate_params" where
  "ascending p = p\<lparr>ip_ascending := True\<rparr>"
definition descending :: "iterate_params \<Rightarrow> iterate_params" where
  "descending p = p\<lparr>ip_ascending := False\<rparr>"
definition only_first :: "iterate_params \<Rightarrow> iterate_params" where
  "only_first p = p\<lparr>ip_first := True\<rparr>"
definition no_values :: "iterate_params \<Rightarrow> iterate_params" where
  "no_values p = p\<lparr>ip_values := False\<rparr>"
definition set_ascending :: "iterate_params \<Rightarrow> bool \<Rightarrow> iterate_params" where
  "set_ascending p b = p\<lparr>ip_ascending := b\<rparr>"
definition set_values :: "iterate_params \<Rightarrow> bool \<Rightarrow> iterate_params" where
  "set_values p b = p\<lparr>ip_values := b\<rparr>"

text \<open>A callback updates the state of the caller and says whether to go on.\<close>

type_synonym 's callback = "bytes \<Rightarrow> bytes \<Rightarrow> 's \<Rightarrow> (bool \<times> 's) trc_result"

fun iterate_rows :: "bool \<Rightarrow> 's callback \<Rightarrow> sql_row list \<Rightarrow> bool \<Rightarrow> 's \<Rightarrow> 's trc_result" where
  "iterate_rows with_values cb [] failed s = (if failed then Inl SqliteError else Inr s)"
| "iterate_rows with_values cb (row # rows) failed s =
     rbind (rbind (column row 0) as_bytes) (\<lambda>k.
     rbind (if with_values then rbind (column row 1) as_bytes else Inr []) (\<lambda>v.
     rbind (cb k v s) (\<lambda>(go_on, s').
       if go_on then iterate_rows with_values cb rows failed s' else Inr s')))"

definition sqlite_iterate ::
    "'db sql_engine \<Rightarrow> iterate_params \<Rightarrow> 's callback \<Rightarrow> 's \<Rightarrow> 'db \<Rightarrow> 's trc_result" where
  "sqlite_iterate eng p cb s db =
     (if \<not> sql_connect eng db then Inl SqliteError
      else case sql_select eng
          (Select_Range (ip_values p) (key_subspace (ip_begin p)) (key_bytes (ip_begin p))
            (key_bytes (ip_end p)) (ip_ascending p) (ip_first p)) db of
          None \<Rightarrow> Inl SqliteError
        | Some (rows, failed) \<Rightarrow> iterate_rows (ip_values p) cb rows failed s)"

definition sqlite_get_counter :: "'db sql_engine \<Rightarrow> u32 value_key \<Rightarrow> 'db \<Rightarrow> i64 trc_result" where
  "sqlite_get_counter eng k db =
     (if \<not> sql_connect eng db then Inl SqliteError
      else rbind
        (query_row_optional eng (Select_Value (key_subspace (key_of_value k)) (key_bytes (key_of_value k)))
          (\<lambda>row. rbind (column row 0) as_i64) db)
        (\<lambda>v. Inr (case v of Some i \<Rightarrow> i | None \<Rightarrow> 0)))"

subsection \<open>Writing\<close>

text \<open>The variables of the loop over the operations of a batch.\<close>

record write_state =
  ws_account_id :: u32
  ws_collection :: u8
  ws_document_id :: u32
  ws_change_id :: u64
  ws_result :: assigned_ids

definition write_state_new :: write_state where
  "write_state_new =
     \<lparr>ws_account_id = u32_MAX, ws_collection = u8_MAX, ws_document_id = u32_MAX,
      ws_change_id = u64_MAX, ws_result = no_ids\<rparr>"

text \<open>One round of the loop goes on, returns an error with the transaction still open (it is
  then dropped, which rolls it back), or returns one after \<open>rollback\<close>.\<close>

datatype write_outcome = Continue write_state | Dropped trc_error | RolledBack trc_error

definition outcome :: "write_state \<Rightarrow> unit trc_result \<times> 'db \<Rightarrow> write_outcome \<times> 'db" where
  "outcome st r = (case r of (Inl e, db) \<Rightarrow> (Dropped e, db) | (Inr _, db) \<Rightarrow> (Continue st, db))"

definition value_class_key :: "maybe_dynamic_id value_class \<Rightarrow> write_state \<Rightarrow> bytes" where
  "value_class_key c st =
     value_class_serialize (resolve_id_dynamic (Some (ws_result st))) c
       (ws_account_id st) (ws_collection st) (ws_document_id st) 0"

definition bitmap_class_key :: "maybe_dynamic_id bitmap_class \<Rightarrow> write_state \<Rightarrow> bytes" where
  "bitmap_class_key c st =
     bitmap_class_serialize (resolve_id_dynamic (Some (ws_result st))) c
       (ws_account_id st) (ws_collection st) (ws_document_id st) 0"

definition write_value ::
    "'db sql_engine \<Rightarrow> maybe_dynamic_id value_class \<Rightarrow> value_op \<Rightarrow> write_state \<Rightarrow> 'db \<Rightarrow>
     write_outcome \<times> 'db" where
  "write_value eng c op st db =
     (let k = value_class_key c st; table = value_subspace c (ws_collection st)
      in case op of
           SetValue v \<Rightarrow>
             (case resolve_value v (ws_result st) of
                Inl e \<Rightarrow> (Dropped e, db)
              | Inr b \<Rightarrow> outcome st (exec_ok eng (Insert_Or_Replace table k b) db))
         | AtomicAdd by \<Rightarrow>
             outcome st (exec_ok eng
               (if 0 \<le> by then Insert_Add table k by else Update_Add table by k) db)
         | AddAndGet by \<Rightarrow>
             (case sql_exec eng (Insert_Add_Returning table k by) db of
                (Some (row # _), db') \<Rightarrow>
                  (case rbind (column row 0) as_i64 of
                     Inl e \<Rightarrow> (Dropped e, db')
                   | Inr i \<Rightarrow> (Continue (st\<lparr>ws_result := push_counter_id (ws_result st) i\<rparr>), db'))
              | (_, db') \<Rightarrow> (Dropped SqliteError, db'))
         | ClearValue \<Rightarrow> outcome st (exec_ok eng (Delete_Key table k) db))"

definition write_index ::
    "'db sql_engine \<Rightarrow> u8 \<Rightarrow> bytes \<Rightarrow> bool \<Rightarrow> write_state \<Rightarrow> 'db \<Rightarrow> write_outcome \<times> 'db" where
  "write_index eng field key is_set st db =
     (let k = serialize_index_key
            \<lparr>ik_account_id = ws_account_id st, ik_collection = ws_collection st,
             ik_document_id = ws_document_id st, ik_field = field, ik_key = key\<rparr> 0
      in outcome st (exec_ok eng
           (if is_set then Insert_Or_Ignore_Key SUBSPACE_INDEXES k
            else Delete_Key SUBSPACE_INDEXES k) db))"

text \<open>The search for a document identifier that is not in use.\<close>

definition next_document_id ::
    "'db sql_engine \<Rightarrow> (nat \<Rightarrow> nat) \<Rightarrow> u32 \<Rightarrow> u8 \<Rightarrow> 'db \<Rightarrow> u32 trc_result" where
  "next_document_id eng gen_range account_id collection db =
     (let begin_key = key_bytes (key_of_bitmap \<lparr>bk_account_id = account_id,
            bk_collection = collection, bk_class = DocumentIds, bk_document_id = 0\<rparr>);
          end_key = key_bytes (key_of_bitmap \<lparr>bk_account_id = account_id,
            bk_collection = collection, bk_class = DocumentIds, bk_document_id = u32_MAX\<rparr>);
          key_len = length begin_key
      in case sql_select eng (Select_Keys SUBSPACE_BITMAP_ID begin_key end_key) db of
           None \<Rightarrow> Inl SqliteError
         | Some (rows, failed) \<Rightarrow>
             rbind (collect_ids key_len rows failed {}) (\<lambda>found_ids.
               Inr (random_available_id gen_range found_ids)))"

definition write_bitmap_key ::
    "'db sql_engine \<Rightarrow> maybe_dynamic_id bitmap_class \<Rightarrow> bool \<Rightarrow> write_state \<Rightarrow> 'db \<Rightarrow>
     write_outcome \<times> 'db" where
  "write_bitmap_key eng c is_set st db =
     (let k = bitmap_class_key c st; table = bitmap_subspace c
      in outcome st (exec_ok eng
           (if is_set then
              if c = DocumentIds then Insert_Key SUBSPACE_BITMAP_ID k
              else Insert_Or_Ignore_Key table k
            else Delete_Key table k) db))"

text \<open>The random number generator answers each call of a batch on its own; the calls are
  numbered by the identifiers assigned before.\<close>

definition write_bitmap ::
    "'db sql_engine \<Rightarrow> (nat \<Rightarrow> nat \<Rightarrow> nat) \<Rightarrow> maybe_dynamic_id bitmap_class \<Rightarrow> bool \<Rightarrow> write_state \<Rightarrow> 'db \<Rightarrow>
     write_outcome \<times> 'db" where
  "write_bitmap eng rng c is_set st db =
     (if is_set \<and> c = DocumentIds \<and> ws_document_id st = u32_MAX then
        (case next_document_id eng (rng (length (document_ids (ws_result st))))
           (ws_account_id st) (ws_collection st) db of
           Inl e \<Rightarrow> (Dropped e, db)
         | Inr i \<Rightarrow>
             write_bitmap_key eng c is_set
               (st\<lparr>ws_document_id := i, ws_result := push_document_id (ws_result st) i\<rparr>) db)
      else write_bitmap_key eng c is_set st db)"

definition write_log :: "'db sql_engine \<Rightarrow> maybe_dynamic_value \<Rightarrow> write_state \<Rightarrow> 'db \<Rightarrow> write_outcome \<times> 'db" where
  "write_log eng v st db =
     (let k = serialize_log_key \<lparr>lk_account_id = ws_account_id st, lk_collection = ws_collection st,
            lk_change_id = ws_change_id st\<rparr> 0
      in case resolve_value v (ws_result st) of
           Inl e \<Rightarrow> (Dropped SqliteError, db)
         | Inr b \<Rightarrow> outcome st (exec_ok eng (Insert_Or_Replace SUBSPACE_LOGS k b) db))"

definition write_assert ::
    "'db sql_engine \<Rightarrow> (bytes \<Rightarrow> u64) \<Rightarrow> maybe_dynamic_id value_class \<Rightarrow> assert_value \<Rightarrow> write_state \<Rightarrow> 'db \<Rightarrow>
     write_outcome \<times> 'db" where
  "write_assert eng xxh3_64 c a st db =
     (case query_row_optional eng
         (Select_Value (value_subspace c (ws_collection st)) (value_class_key c st))
         (\<lambda>row. rbind (column row 0) (\<lambda>v. rbind (as_bytes v) (\<lambda>b. Inr (assert_matches xxh3_64 a b)))) db of
        Inl e \<Rightarrow> (Dropped e, db)
      | Inr m \<Rightarrow>
          if (case m of Some b \<Rightarrow> b | None \<Rightarrow> assert_is_none a) then (Continue st, db)
          else (case exec_ok eng Rollback_Transaction db of
                  (Inl e, db') \<Rightarrow> (RolledBack e, db')
                | (Inr _, db') \<Rightarrow> (RolledBack AssertValueFailed, db')))"

definition write_op ::
    "'db sql_engine \<Rightarrow> (bytes \<Rightarrow> u64) \<Rightarrow> (nat \<Rightarrow> nat \<Rightarrow> nat) \<Rightarrow> operation \<Rightarrow> write_state \<Rightarrow> 'db \<Rightarrow>
     write_outcome \<times> 'db" where
  "write_op eng xxh3_64 rng op st db =
     (case op of
        AccountId i \<Rightarrow> (Continue (st\<lparr>ws_account_id := i\<rparr>), db)
      | Collection c \<Rightarrow> (Continue (st\<lparr>ws_collection := c\<rparr>), db)
      | DocumentId i \<Rightarrow> (Continue (st\<lparr>ws_document_id := i\<rparr>), db)
      | ChangeId i \<Rightarrow> (Continue (st\<lparr>ws_change_id := i\<rparr>), db)
      | Value c vop \<Rightarrow> write_value eng c vop st db
      | Index field key is_set \<Rightarrow> write_index eng field key is_set st db
      | BitmapOp c is_set \<Rightarrow> write_bitmap eng rng c is_set st db
      | Log v \<Rightarrow> write_log eng v st db
      | AssertValue c a \<Rightarrow> write_assert eng xxh3_64 c a st db)"

fun write_ops ::
    "'db sql_engine \<Rightarrow> (bytes \<Rightarrow> u64) \<Rightarrow> (nat \<Rightarrow> nat \<Rightarrow> nat) \<Rightarrow> operation list \<Rightarrow> write_state \<Rightarrow> 'db \<Rightarrow>
     write_outcome \<times> 'db" where
  "write_ops eng xxh3_64 rng [] st db = (Continue st, db)"
| "write_ops eng xxh3_64 rng (op # ops) st db =
     (case write_op eng xxh3_64 rng op st db of
        (Continue st', db') \<Rightarrow> write_ops eng xxh3_64 rng ops st' db'
      | r \<Rightarrow> r)"

text \<open>A transaction that is dropped, or whose commit fails, is rolled back by the driver.\<close>

definition drop_transaction :: "'db sql_engine \<Rightarrow> 'db \<Rightarrow> 'db" where
  "drop_transaction eng db = snd (sql_exec eng Rollback_Transaction db)"

definition sqlite_write ::
    "'db sql_engine \<Rightarrow> (bytes \<Rightarrow> u64) \<Rightarrow> (nat \<Rightarrow> nat \<Rightarrow> nat) \<Rightarrow> batch \<Rightarrow> 'db \<Rightarrow>
     assigned_ids trc_result \<times> 'db" where
  "sqlite_write eng xxh3_64 rng ops db =
     (if \<not> sql_connect eng db then (Inl SqliteError, db)
      else case exec_ok eng Begin_Immediate db of
          (Inl e, db1) \<Rightarrow> (Inl e, db1)
        | (Inr _, db1) \<Rightarrow>
            (case write_ops eng xxh3_64 rng ops write_state_new db1 of
               (Continue st, db2) \<Rightarrow>
                 (case exec_ok eng Commit_Transaction db2 of
                    (Inl e, db3) \<Rightarrow> (Inl e, drop_transaction eng db3)
                  | (Inr _, db3) \<Rightarrow> (Inr (ws_result st), db3))
             | (Dropped e, db2) \<Rightarrow> (Inl e, drop_transaction eng db2)
             | (RolledBack e, db2) \<Rightarrow> (Inl e, db2)))"

definition sqlite_purge_store :: "'db sql_engine \<Rightarrow> 'db \<Rightarrow> unit trc_result \<times> 'db" where
  "sqlite_purge_store eng db =
     (if \<not> sql_connect eng db then (Inl SqliteError, db)
      else exec_all eng (map Delete_Where_Zero [SUBSPACE_QUOTA, SUBSPACE_COUNTER]) db)"

definition sqlite_delete_range :: "'db sql_engine \<Rightarrow> key \<Rightarrow> key \<Rightarrow> 'db \<Rightarrow> unit trc_result \<times> 'db" where
  "sqlite_delete_range eng from to db =
     (if \<not> sql_connect eng db then (Inl SqliteError, db)
      else exec_ok eng (Delete_Range (key_subspace from) (key_bytes from) (key_bytes to)) db)"

subsection \<open>Blobs\<close>

definition usize_MAX :: nat where "usize_MAX = 2 ^ 64 - 1"

definition sqlite_get_blob :: "'db sql_engine \<Rightarrow> bytes \<Rightarrow> nat \<Rightarrow> nat \<Rightarrow> 'db \<Rightarrow> bytes option trc_result" where
  "sqlite_get_blob eng k range_start range_end db =
     (if \<not> sql_connect eng db then Inl SqliteError
      else query_row_optional eng (Select_Value SUBSPACE_BLOBS k)
        (\<lambda>row. rbind (column row 0) (\<lambda>v. rbind (as_bytes v) (\<lambda>b.
           Inr (if range_start = 0 \<and> range_end = usize_MAX then b
                else (case get_range b range_start (min (length b) range_end) of
                        None \<Rightarrow> [] | Some r \<Rightarrow> r))))) db)"

definition sqlite_put_blob :: "'db sql_engine \<Rightarrow> bytes \<Rightarrow> bytes \<Rightarrow> 'db \<Rightarrow> unit trc_result \<times> 'db" where
  "sqlite_put_blob eng k data db =
     (if \<not> sql_connect eng db then (Inl SqliteError, db)
      else exec_ok eng (Insert_Or_Replace SUBSPACE_BLOBS k data) db)"

definition sqlite_delete_blob :: "'db sql_engine \<Rightarrow> bytes \<Rightarrow> 'db \<Rightarrow> bool trc_result \<times> 'db" where
  "sqlite_delete_blob eng k db =
     (if \<not> sql_connect eng db then (Inl SqliteError, db)
      else (case exec_ok eng (Delete_Key SUBSPACE_BLOBS k) db of
              (Inl e, db') \<Rightarrow> (Inl e, db')
            | (Inr _, db') \<Rightarrow> (Inr True, db')))"

end
