(* ===== verification/Sqlite_Laws.thy ===== *)
theory Sqlite_Laws
  imports Sqlite_Store
begin

section \<open>What the SQLite backend promises\<close>

text \<open>
  The locale \<open>sqlite_engine\<close> lists what the statements of the backend do when the engine
  reports success, in terms of the tables a connection sees; a failed statement may leave
  anything but cannot touch the state a rollback returns to. Inside the locale the operations of
  the backend are shown to implement an abstract key-value store: \<open>op_step\<close> says what each
  operation of a batch does to the tables.
\<close>

type_synonym tables = "u8 \<Rightarrow> bytes \<rightharpoonup> sql_value"

definition tbl_put :: "tables \<Rightarrow> u8 \<Rightarrow> bytes \<Rightarrow> sql_value option \<Rightarrow> tables" where
  "tbl_put R t k v = R(t := (R t)(k := v))"

lemma tbl_put_apply: "tbl_put R t k v t' k' = (if t' = t \<and> k' = k then v else R t' k')"
  by (simp add: tbl_put_def)

text \<open>The result of \<open>v + ?\<close>: an absent row takes the addend, an integer the sum if it is
  representable; nothing is assumed otherwise.\<close>

definition added :: "sql_value option \<Rightarrow> int \<Rightarrow> sql_value \<Rightarrow> bool" where
  "added old n new \<longleftrightarrow>
     (old = None \<longrightarrow> new = SqlInt n) \<and>
     (\<forall>a. old = Some (SqlInt a) \<and> in_i64 (a + n) \<longrightarrow> new = SqlInt (a + n))"

definition keys_between :: "tables \<Rightarrow> u8 \<Rightarrow> bytes \<Rightarrow> bytes \<Rightarrow> bytes set" where
  "keys_between R t b e = {k. b \<le> k \<and> k \<le> e \<and> R t k \<noteq> None}"

definition range_keys :: "tables \<Rightarrow> u8 \<Rightarrow> bytes \<Rightarrow> bytes \<Rightarrow> bool \<Rightarrow> bool \<Rightarrow> bytes list" where
  "range_keys R t b e asc first =
     (let ks = sorted_list_of_set (keys_between R t b e);
          ks' = (if asc then ks else rev ks)
      in if first then take 1 ks' else ks')"

definition row_of :: "tables \<Rightarrow> bool \<Rightarrow> u8 \<Rightarrow> bytes \<Rightarrow> sql_row" where
  "row_of R with_values t k =
     (if with_values then [SqlBlob k, the (R t k)] else [SqlBlob k])"

fun is_update :: "sql_cmd \<Rightarrow> bool" where
  "is_update Begin_Immediate = False"
| "is_update Commit_Transaction = False"
| "is_update Rollback_Transaction = False"
| "is_update _ = True"

text \<open>Rows delivered by a query with a given answer: all of it, or a prefix before a
  failure.\<close>

definition delivers :: "sql_row list \<times> bool \<Rightarrow> sql_row list \<Rightarrow> bool" where
  "delivers r answer = (case r of (rows, failed) \<Rightarrow> if failed then prefix rows answer else rows = answer)"

locale sqlite_engine =
  fixes eng :: "'db sql_engine" and view :: "'db \<Rightarrow> tables" and saved :: "'db \<Rightarrow> tables"
  assumes finite_view: "finite {k. view db t k \<noteq> None}"
    and create_table: "view (snd (sql_exec eng (Create_Table t kind) db)) = view db"
    and begin_ok: "sql_exec eng Begin_Immediate db = (Some r, db') \<Longrightarrow>
      view db' = view db \<and> saved db' = view db"
    and begin_failed: "sql_exec eng Begin_Immediate db = (None, db') \<Longrightarrow> view db' = view db"
    and commit_ok: "sql_exec eng Commit_Transaction db = (Some r, db') \<Longrightarrow> view db' = view db"
    and commit_failed: "sql_exec eng Commit_Transaction db = (None, db') \<Longrightarrow> saved db' = saved db"
    and rollback: "view (snd (sql_exec eng Rollback_Transaction db)) = saved db"
    and update_saved: "is_update c \<Longrightarrow> saved (snd (sql_exec eng c db)) = saved db"
    and insert_or_replace: "sql_exec eng (Insert_Or_Replace t k b) db = (Some r, db') \<Longrightarrow>
      view db' = tbl_put (view db) t k (Some (SqlBlob b))"
    and insert_add: "sql_exec eng (Insert_Add t k n) db = (Some r, db') \<Longrightarrow>
      \<exists>v. added (view db t k) n v \<and> view db' = tbl_put (view db) t k (Some v)"
    and insert_add_returning: "sql_exec eng (Insert_Add_Returning t k n) db = (Some r, db') \<Longrightarrow>
      \<exists>v. added (view db t k) n v \<and> view db' = tbl_put (view db) t k (Some v) \<and> r = [[v]]"
    and update_add: "sql_exec eng (Update_Add t n k) db = (Some r, db') \<Longrightarrow>
      (case view db t k of
         None \<Rightarrow> view db' = view db
       | Some old \<Rightarrow> \<exists>v. added (Some old) n v \<and> view db' = tbl_put (view db) t k (Some v))"
    and delete_key: "sql_exec eng (Delete_Key t k) db = (Some r, db') \<Longrightarrow>
      view db' = tbl_put (view db) t k None"
    and insert_or_ignore_key: "sql_exec eng (Insert_Or_Ignore_Key t k) db = (Some r, db') \<Longrightarrow>
      view db' = (if view db t k = None then tbl_put (view db) t k (Some SqlNull) else view db)"
    and insert_key: "sql_exec eng (Insert_Key t k) db = (Some r, db') \<Longrightarrow>
      view db t k = None \<and> view db' = tbl_put (view db) t k (Some SqlNull)"
    and delete_where_zero: "sql_exec eng (Delete_Where_Zero t) db = (Some r, db') \<Longrightarrow>
      view db' = (view db)(t := (\<lambda>k. if view db t k = Some (SqlInt 0) then None else view db t k))"
    and delete_range: "sql_exec eng (Delete_Range t b e) db = (Some r, db') \<Longrightarrow>
      view db' = (view db)(t := (\<lambda>k. if b \<le> k \<and> k < e then None else view db t k))"
    and select_value: "sql_select eng (Select_Value t k) db = Some a \<Longrightarrow>
      delivers a (case view db t k of None \<Rightarrow> [] | Some v \<Rightarrow> [[v]])"
    and select_keys: "sql_select eng (Select_Keys t b e) db = Some a \<Longrightarrow>
      \<exists>ks. distinct ks \<and> set ks = keys_between (view db) t b e \<and>
        delivers a (map (\<lambda>k. [SqlBlob k]) ks)"
    and select_range: "sql_select eng (Select_Range with_values t b e asc first) db = Some a \<Longrightarrow>
      delivers a (map (row_of (view db) with_values t) (range_keys (view db) t b e asc first))"

subsection \<open>The abstract store\<close>

text \<open>Documents of a collection.\<close>

definition document_set :: "tables \<Rightarrow> u32 \<Rightarrow> u8 \<Rightarrow> u32 set" where
  "document_set R account_id collection =
     {d. R SUBSPACE_BITMAP_ID (be_u32 account_id @ [collection] @ be_u32 d) \<noteq> None}"

text \<open>What one operation of a batch does: it changes the context of the batch, checks a value, or
  writes one row. A new document takes an identifier that was not in use.\<close>

inductive op_step :: "(bytes \<Rightarrow> u64) \<Rightarrow> operation \<Rightarrow> write_state \<times> tables \<Rightarrow> write_state \<times> tables \<Rightarrow> bool"
  for h :: "bytes \<Rightarrow> u64" where
  account: "op_step h (AccountId i) (st, R) (st\<lparr>ws_account_id := i\<rparr>, R)"
| collection: "op_step h (Collection c) (st, R) (st\<lparr>ws_collection := c\<rparr>, R)"
| document: "op_step h (DocumentId i) (st, R) (st\<lparr>ws_document_id := i\<rparr>, R)"
| change: "op_step h (ChangeId i) (st, R) (st\<lparr>ws_change_id := i\<rparr>, R)"
| set_value: "resolve_value v (ws_result st) = Inr b \<Longrightarrow>
    op_step h (Value c (SetValue v)) (st, R)
      (st, tbl_put R (value_subspace c (ws_collection st)) (value_class_key c st) (Some (SqlBlob b)))"
| atomic_add: "added (R (value_subspace c (ws_collection st)) (value_class_key c st)) n v \<Longrightarrow>
    0 \<le> n \<or> R (value_subspace c (ws_collection st)) (value_class_key c st) \<noteq> None \<Longrightarrow>
    op_step h (Value c (AtomicAdd n)) (st, R)
      (st, tbl_put R (value_subspace c (ws_collection st)) (value_class_key c st) (Some v))"
| atomic_sub_absent: "n < 0 \<Longrightarrow> R (value_subspace c (ws_collection st)) (value_class_key c st) = None \<Longrightarrow>
    op_step h (Value c (AtomicAdd n)) (st, R) (st, R)"
| add_and_get: "added (R (value_subspace c (ws_collection st)) (value_class_key c st)) n (SqlInt i) \<Longrightarrow>
    op_step h (Value c (AddAndGet n)) (st, R)
      (st\<lparr>ws_result := push_counter_id (ws_result st) i\<rparr>,
       tbl_put R (value_subspace c (ws_collection st)) (value_class_key c st) (Some (SqlInt i)))"
| clear_value: "op_step h (Value c ClearValue) (st, R)
      (st, tbl_put R (value_subspace c (ws_collection st)) (value_class_key c st) None)"
| set_key: "k = serialize_index_key \<lparr>ik_account_id = ws_account_id st,
      ik_collection = ws_collection st, ik_document_id = ws_document_id st, ik_field = f, ik_key = b\<rparr> 0 \<Longrightarrow>
    R' = (if R SUBSPACE_INDEXES k = None then tbl_put R SUBSPACE_INDEXES k (Some SqlNull) else R) \<Longrightarrow>
    op_step h (Index f b True) (st, R) (st, R')"
| clear_key: "k = serialize_index_key \<lparr>ik_account_id = ws_account_id st,
      ik_collection = ws_collection st, ik_document_id = ws_document_id st, ik_field = f, ik_key = b\<rparr> 0 \<Longrightarrow>
    op_step h (Index f b False) (st, R) (st, tbl_put R SUBSPACE_INDEXES k None)"
| new_document: "ws_document_id st = u32_MAX \<Longrightarrow>
    i \<notin> document_set R (ws_account_id st) (ws_collection st) \<Longrightarrow>
    op_step h (BitmapOp DocumentIds True) (st, R)
      (st\<lparr>ws_document_id := i, ws_result := push_document_id (ws_result st) i\<rparr>,
       tbl_put R SUBSPACE_BITMAP_ID
         (be_u32 (ws_account_id st) @ [ws_collection st] @ be_u32 i) (Some SqlNull))"
| add_document: "ws_document_id st \<noteq> u32_MAX \<Longrightarrow>
    ws_document_id st \<notin> document_set R (ws_account_id st) (ws_collection st) \<Longrightarrow>
    op_step h (BitmapOp DocumentIds True) (st, R)
      (st, tbl_put R SUBSPACE_BITMAP_ID
         (be_u32 (ws_account_id st) @ [ws_collection st] @ be_u32 (ws_document_id st)) (Some SqlNull))"
| set_bitmap: "c \<noteq> DocumentIds \<Longrightarrow>
    R' = (if R (bitmap_subspace c) (bitmap_class_key c st) = None
          then tbl_put R (bitmap_subspace c) (bitmap_class_key c st) (Some SqlNull) else R) \<Longrightarrow>
    op_step h (BitmapOp c True) (st, R) (st, R')"
| clear_bitmap: "op_step h (BitmapOp c False) (st, R)
      (st, tbl_put R (bitmap_subspace c) (bitmap_class_key c st) None)"
| log: "resolve_value v (ws_result st) = Inr b \<Longrightarrow>
    k = serialize_log_key \<lparr>lk_account_id = ws_account_id st, lk_collection = ws_collection st,
      lk_change_id = ws_change_id st\<rparr> 0 \<Longrightarrow>
    op_step h (Log v) (st, R) (st, tbl_put R SUBSPACE_LOGS k (Some (SqlBlob b)))"
| assert_some: "R (value_subspace c (ws_collection st)) (value_class_key c st) = Some v \<Longrightarrow>
    as_bytes v = Inr b \<Longrightarrow> assert_matches h a b \<Longrightarrow> op_step h (AssertValue c a) (st, R) (st, R)"
| assert_none: "R (value_subspace c (ws_collection st)) (value_class_key c st) = None \<Longrightarrow>
    op_step h (AssertValue c AssertNone) (st, R) (st, R)"

inductive ops_steps ::
    "(bytes \<Rightarrow> u64) \<Rightarrow> operation list \<Rightarrow> write_state \<times> tables \<Rightarrow> write_state \<times> tables \<Rightarrow> bool"
  for h :: "bytes \<Rightarrow> u64" where
  no_ops: "ops_steps h [] s s"
| more_ops: "op_step h op s s' \<Longrightarrow> ops_steps h ops s' s'' \<Longrightarrow> ops_steps h (op # ops) s s''"

inductive_cases op_step_valueE: "op_step h (Value c vop) (st, R) s'"
inductive_cases op_step_bitmapE: "op_step h (BitmapOp c b) (st, R) s'"
inductive_cases op_step_assertE: "op_step h (AssertValue c a) (st, R) s'"
inductive_cases op_step_logE: "op_step h (Log v) (st, R) s'"
inductive_cases ops_steps_nilE: "ops_steps h [] s s'"
inductive_cases ops_steps_consE: "ops_steps h (op # ops) s s'"

inductive_simps ops_steps_simps:
  "ops_steps h [] s s'"
  "ops_steps h (op # ops) s s'"

inductive_simps op_step_simps:
  "op_step h (AccountId i) s s'"
  "op_step h (Collection c) s s'"
  "op_step h (DocumentId i) s s'"
  "op_step h (ChangeId i) s s'"
  "op_step h (Value c (SetValue v)) s s'"
  "op_step h (Value c (AddAndGet n)) s s'"
  "op_step h (Value c (AtomicAdd n)) s s'"
  "op_step h (Value c ClearValue) s s'"
  "op_step h (BitmapOp DocumentIds True) s s'"
  "op_step h (AssertValue c a) s s'"
  "op_step h (Log v) s s'"

lemma ops_steps_append:
  "ops_steps h (xs @ ys) s s'' \<longleftrightarrow> (\<exists>s'. ops_steps h xs s s' \<and> ops_steps h ys s' s'')"
  by (induction xs arbitrary: s) (auto simp: ops_steps_simps)

subsection \<open>The backend implements the abstract store\<close>

lemma exec_ok_Inr: "exec_ok eng c db = (Inr u, db') \<longleftrightarrow> (\<exists>r. sql_exec eng c db = (Some r, db'))"
  by (auto simp: exec_ok_def split: prod.splits option.splits)

lemma exec_ok_Inl:
  "exec_ok eng c db = (Inl e, db') \<longleftrightarrow> sql_exec eng c db = (None, db') \<and> e = SqliteError"
  by (auto simp: exec_ok_def split: prod.splits option.splits)

lemma snd_exec_ok: "snd (exec_ok eng c db) = snd (sql_exec eng c db)"
  by (simp add: exec_ok_def split: prod.splits option.splits)

lemma outcome_Continue:
  "outcome st r = (Continue st', db') \<longleftrightarrow> st' = st \<and> (\<exists>u. r = (Inr u, db'))"
  by (auto simp: outcome_def split: prod.splits sum.splits)

lemma outcome_not_rolled_back: "fst (outcome st r) \<noteq> RolledBack e"
  by (auto simp: outcome_def split: prod.splits sum.splits)

lemma snd_outcome: "snd (outcome st r) = snd r"
  by (auto simp: outcome_def split: prod.splits sum.splits)

lemma delivers_Cons: "delivers (row # rows, failed) [v] \<Longrightarrow> row = v"
  by (auto simp: delivers_def split: if_splits)

lemma document_key:
  "bitmap_class_key DocumentIds st =
    be_u32 (ws_account_id st) @ [ws_collection st] @ be_u32 (ws_document_id st)"
  by (simp add: bitmap_class_key_def bitmap_class_serialize_def)

context sqlite_engine
begin

lemma query_value:
  assumes "query_row_optional eng (Select_Value t k) f db = Inr x"
  shows "case view db t k of None \<Rightarrow> x = None | Some v \<Rightarrow> (\<exists>y. x = Some y \<and> f [v] = Inr y)"
proof -
  obtain rows failed where sel: "sql_select eng (Select_Value t k) db = Some (rows, failed)"
    using assms by (auto simp: query_row_optional_def split: option.splits)
  have del: "delivers (rows, failed) (case view db t k of None \<Rightarrow> [] | Some v \<Rightarrow> [[v]])"
    using select_value [OF sel] .
  show ?thesis
  proof (cases rows)
    case Nil
    then have "x = None" "\<not> failed" using assms sel by (auto simp: query_row_optional_def split: if_splits)
    with Nil del show ?thesis by (auto simp: delivers_def split: option.splits)
  next
    case (Cons row rows')
    then obtain y where y: "f row = Inr y" "x = Some y"
      using assms sel by (auto simp: query_row_optional_def rbind_Inr_iff)
    obtain v where v: "view db t k = Some v"
      using del Cons by (auto simp: delivers_def split: option.splits if_splits)
    then have "row = [v]" using del Cons by (auto dest: delivers_Cons)
    with v y show ?thesis by simp
  qed
qed

lemma write_value_sound:
  assumes "write_value eng c vop st db = (Continue st', db')"
  shows "op_step h (Value c vop) (st, view db) (st', view db')"
proof (cases vop)
  case (SetValue v)
  then obtain b where "resolve_value v (ws_result st) = Inr b" "st' = st"
    "exec_ok eng (Insert_Or_Replace (value_subspace c (ws_collection st)) (value_class_key c st) b) db = (Inr (), db')"
    using assms by (auto simp: write_value_def Let_def outcome_Continue split: sum.splits)
  then show ?thesis
    using SetValue by (auto simp: exec_ok_Inr dest!: insert_or_replace intro: op_step.set_value)
next
  case (AtomicAdd n)
  let ?t = "value_subspace c (ws_collection st)" and ?k = "value_class_key c st"
  have st: "st' = st" using assms AtomicAdd by (simp add: write_value_def Let_def outcome_Continue)
  show ?thesis
  proof (cases "0 \<le> n")
    case True
    then obtain r where "sql_exec eng (Insert_Add ?t ?k n) db = (Some r, db')"
      using assms AtomicAdd by (auto simp: write_value_def Let_def outcome_Continue exec_ok_Inr)
    from insert_add [OF this] show ?thesis
      using AtomicAdd st True by (auto intro!: op_step.atomic_add)
  next
    case False
    then obtain r where "sql_exec eng (Update_Add ?t n ?k) db = (Some r, db')"
      using assms AtomicAdd by (auto simp: write_value_def Let_def outcome_Continue exec_ok_Inr)
    from update_add [OF this] show ?thesis
      using AtomicAdd st False
      by (cases "view db ?t ?k") (auto intro!: op_step.atomic_add op_step.atomic_sub_absent)
  qed
next
  case (AddAndGet n)
  let ?t = "value_subspace c (ws_collection st)" and ?k = "value_class_key c st"
  obtain row rows i where ex: "sql_exec eng (Insert_Add_Returning ?t ?k n) db = (Some (row # rows), db')"
    and i: "rbind (column row 0) as_i64 = Inr i"
    and st: "st' = st\<lparr>ws_result := push_counter_id (ws_result st) i\<rparr>"
    using assms AddAndGet
    by (auto simp: write_value_def Let_def split: prod.splits option.splits list.splits sum.splits)
  from insert_add_returning [OF ex] obtain v where v: "added (view db ?t ?k) n v"
    "view db' = tbl_put (view db) ?t ?k (Some v)" "row = [v]" by auto
  have "v = SqlInt i"
    using i v(3) by (simp add: column_def nth_opt_def as_i64_def split: sql_value.splits)
  with v st AddAndGet show ?thesis by (auto intro: op_step.add_and_get)
next
  case ClearValue
  then show ?thesis
    using assms by (auto simp: write_value_def Let_def outcome_Continue exec_ok_Inr
        dest!: delete_key intro: op_step.clear_value)
qed

lemma write_bitmap_key_document:
  assumes "write_bitmap_key eng DocumentIds True st db = (Continue st', db')"
  shows "st' = st \<and> ws_document_id st \<notin> document_set (view db) (ws_account_id st) (ws_collection st) \<and>
    view db' = tbl_put (view db) SUBSPACE_BITMAP_ID
      (be_u32 (ws_account_id st) @ [ws_collection st] @ be_u32 (ws_document_id st)) (Some SqlNull)"
  using assms
  by (auto simp: write_bitmap_key_def Let_def outcome_Continue exec_ok_Inr document_key
      document_set_def dest!: insert_key)

lemma write_bitmap_sound:
  assumes "write_bitmap eng rng c is_set st db = (Continue st', db')"
  shows "op_step h (BitmapOp c is_set) (st, view db) (st', view db')"
proof (cases "is_set \<and> c = DocumentIds")
  case True
  show ?thesis
  proof (cases "ws_document_id st = u32_MAX")
    case new: True
    let ?st = "\<lambda>i. st\<lparr>ws_document_id := i, ws_result := push_document_id (ws_result st) i\<rparr>"
    obtain i where "write_bitmap_key eng DocumentIds True (?st i) db = (Continue st', db')"
      using assms True new by (auto simp: write_bitmap_def split: sum.splits)
    from write_bitmap_key_document [OF this] show ?thesis
      using True new by (auto intro: op_step.new_document [simplified])
  next
    case False
    then have "write_bitmap_key eng DocumentIds True st db = (Continue st', db')"
      using assms True by (simp add: write_bitmap_def)
    from write_bitmap_key_document [OF this] show ?thesis
      using True False by (auto intro: op_step.add_document [simplified])
  qed
next
  case False
  then have w: "write_bitmap_key eng c is_set st db = (Continue st', db')"
    using assms by (auto simp: write_bitmap_def)
  show ?thesis
  proof (cases is_set)
    case True
    with False w show ?thesis
      by (auto simp: write_bitmap_key_def Let_def outcome_Continue exec_ok_Inr
          dest!: insert_or_ignore_key intro: op_step.set_bitmap)
  next
    case is_clear: False
    with w show ?thesis
      by (auto simp: write_bitmap_key_def Let_def outcome_Continue exec_ok_Inr
          dest!: delete_key intro: op_step.clear_bitmap)
  qed
qed

lemma write_assert_sound:
  assumes "write_assert eng h c a st db = (Continue st', db')"
  shows "op_step h (AssertValue c a) (st, view db) (st', view db')"
proof -
  let ?t = "value_subspace c (ws_collection st)" and ?k = "value_class_key c st"
  let ?f = "\<lambda>row. rbind (column row 0) (\<lambda>v. rbind (as_bytes v) (\<lambda>b. Inr (assert_matches h a b)))"
  obtain m where q: "query_row_optional eng (Select_Value ?t ?k) ?f db = Inr m"
    and ok: "case m of Some b \<Rightarrow> b | None \<Rightarrow> assert_is_none a" and st: "st' = st" "db' = db"
    using assms by (auto simp: write_assert_def split: sum.splits if_splits prod.splits)
  show ?thesis
  proof (cases "view db ?t ?k")
    case None
    then have "a = AssertNone" using query_value [OF q] ok by (simp add: assert_is_none_def)
    with None st show ?thesis by (auto intro: op_step.assert_none)
  next
    case (Some v)
    with query_value [OF q] ok obtain b where "as_bytes v = Inr b" "assert_matches h a b"
      by (auto simp: column_def nth_opt_def rbind_Inr_iff)
    with Some st show ?thesis by (auto intro: op_step.assert_some)
  qed
qed

lemma write_op_sound:
  assumes "write_op eng h rng op st db = (Continue st', db')"
  shows "op_step h op (st, view db) (st', view db')"
proof (cases op)
  case (Index f b is_set)
  then show ?thesis
    using assms
    by (cases is_set)
      (auto simp: write_op_def write_index_def Let_def outcome_Continue exec_ok_Inr
        dest!: insert_or_ignore_key delete_key intro: op_step.set_key op_step.clear_key)
next
  case (Log v)
  then show ?thesis
    using assms
    by (auto simp: write_op_def write_log_def Let_def outcome_Continue exec_ok_Inr
        dest!: insert_or_replace intro: op_step.log split: sum.splits)
qed (use assms in \<open>auto simp: write_op_def intro: op_step.account op_step.collection op_step.document
      op_step.change write_value_sound write_bitmap_sound write_assert_sound\<close>)

lemma write_ops_sound:
  "write_ops eng h rng ops st db = (Continue st', db') \<Longrightarrow>
    ops_steps h ops (st, view db) (st', view db')"
  by (induction ops arbitrary: st db)
    (auto intro: ops_steps.intros dest!: write_op_sound split: prod.splits write_outcome.splits)

text \<open>Until the transaction ends, a rollback returns to the tables it began with.\<close>

definition keeps :: "'db \<Rightarrow> write_outcome \<times> 'db \<Rightarrow> bool" where
  "keeps db r = (case r of (RolledBack e, db') \<Rightarrow> view db' = saved db | (_, db') \<Rightarrow> saved db' = saved db)"

lemma keeps_same [simp]: "keeps db (Continue s, db)" "keeps db (Dropped e, db)"
  by (simp_all add: keeps_def)

lemma keeps_outcome: "is_update c \<Longrightarrow> keeps db (outcome s (exec_ok eng c db))"
  using update_saved [of c db]
  by (auto simp: keeps_def outcome_def exec_ok_def split: prod.splits option.splits)

lemma keeps_value: "keeps db (write_value eng c vop st db)"
proof (cases vop)
  case (AddAndGet n)
  let ?c = "Insert_Add_Returning (value_subspace c (ws_collection st)) (value_class_key c st) n"
  have "saved (snd (sql_exec eng ?c db)) = saved db" by (simp add: update_saved)
  with AddAndGet show ?thesis
    by (auto simp: write_value_def Let_def keeps_def split: prod.splits option.splits list.splits sum.splits)
qed (auto simp: write_value_def Let_def split: sum.splits intro: keeps_outcome)

lemma keeps_bitmap_key: "keeps db (write_bitmap_key eng c is_set st db)"
  by (simp add: write_bitmap_key_def Let_def keeps_outcome)

lemma keeps_assert: "keeps db (write_assert eng h c a st db)"
  using rollback [of db]
  by (auto simp: write_assert_def keeps_def exec_ok_def split: sum.splits prod.splits option.splits)

lemma keeps_op: "keeps db (write_op eng h rng op st db)"
  by (cases op)
    (auto simp: write_op_def write_index_def write_bitmap_def write_log_def Let_def keeps_value
      keeps_bitmap_key keeps_assert keeps_outcome split: sum.splits)

lemma keeps_ops: "keeps db (write_ops eng h rng ops st db)"
proof (induction ops arbitrary: st db)
  case (Cons op ops)
  show ?case
  proof (cases "write_op eng h rng op st db")
    case (Pair r db')
    have k: "keeps db (r, db')" using keeps_op [of db h rng op st] Pair by simp
    show ?thesis
    proof (cases r)
      case (Continue st')
      then have "saved db' = saved db" using k by (simp add: keeps_def)
      then have "keeps db = keeps db'" 
        by (intro ext) (simp add: keeps_def split: prod.splits write_outcome.splits)
      with Cons [of db' st'] show ?thesis using Pair Continue by simp
    qed (use Pair k in simp_all)
  qed
qed simp

lemma write_error_unchanged:
  assumes "sqlite_write eng h rng ops db = (Inl e, db')"
  shows "view db' = view db"
proof (cases "sql_connect eng db \<and> (\<exists>db1. exec_ok eng Begin_Immediate db = (Inr (), db1))")
  case True
  then obtain db1 where db1: "exec_ok eng Begin_Immediate db = (Inr (), db1)" by blast
  then have saved1: "saved db1 = view db" using begin_ok by (auto simp: exec_ok_Inr)
  obtain r db2 where r: "write_ops eng h rng ops write_state_new db1 = (r, db2)" by fastforce
  have k: "keeps db1 (r, db2)" using keeps_ops [of db1] r by metis
  show ?thesis
  proof (cases r)
    case (Continue st)
    then have s2: "saved db2 = saved db1" using k by (simp add: keeps_def)
    from Continue assms True db1 r obtain db3 where
      "exec_ok eng Commit_Transaction db2 = (Inl e, db3)" "db' = drop_transaction eng db3"
      by (auto simp: sqlite_write_def split: prod.splits sum.splits)
    then show ?thesis
      using s2 saved1 commit_failed [of db2 db3] rollback
      by (simp add: exec_ok_Inl drop_transaction_def)
  next
    case (Dropped e')
    then show ?thesis
      using assms True db1 r k saved1 rollback
      by (auto simp: sqlite_write_def keeps_def drop_transaction_def)
  next
    case (RolledBack e')
    then show ?thesis
      using assms True db1 r k saved1 by (auto simp: sqlite_write_def keeps_def)
  qed
next
  case False
  then show ?thesis
    using assms begin_failed
    by (auto simp: sqlite_write_def exec_ok_Inl split: if_splits prod.splits sum.splits)
qed

lemma write_success:
  assumes "sqlite_write eng h rng ops db = (Inr ids, db')"
  shows "\<exists>st. ids = ws_result st \<and> ops_steps h ops (write_state_new, view db) (st, view db')"
proof -
  from assms obtain db1 st db2 where "exec_ok eng Begin_Immediate db = (Inr (), db1)"
    and w: "write_ops eng h rng ops write_state_new db1 = (Continue st, db2)"
    and c: "exec_ok eng Commit_Transaction db2 = (Inr (), db')" and ids: "ids = ws_result st"
    by (auto simp: sqlite_write_def split: if_splits prod.splits sum.splits write_outcome.splits)
  then have "view db1 = view db" "view db' = view db2"
    using begin_ok commit_ok by (auto simp: exec_ok_Inr)
  with write_ops_sound [OF w] ids show ?thesis by auto
qed

end

subsection \<open>Reading\<close>

text \<open>A callback run over key-value pairs until it asks to stop.\<close>

fun run_callback :: "'s callback \<Rightarrow> (bytes \<times> bytes) list \<Rightarrow> 's \<Rightarrow> 's trc_result" where
  "run_callback cb [] s = Inr s"
| "run_callback cb ((k, v) # kvs) s =
     rbind (cb k v s) (\<lambda>(go_on, s'). if go_on then run_callback cb kvs s' else Inr s')"

definition cell_bytes :: "sql_value \<Rightarrow> bytes" where
  "cell_bytes v = (case as_bytes v of Inr b \<Rightarrow> b | Inl _ \<Rightarrow> [])"

definition entry :: "tables \<Rightarrow> bool \<Rightarrow> u8 \<Rightarrow> bytes \<Rightarrow> bytes \<times> bytes" where
  "entry R with_values t k = (k, if with_values then cell_bytes (the (R t k)) else [])"

definition entries :: "tables \<Rightarrow> iterate_params \<Rightarrow> (bytes \<times> bytes) list" where
  "entries R p =
     map (entry R (ip_values p) (key_subspace (ip_begin p)))
       (range_keys R (key_subspace (ip_begin p)) (key_bytes (ip_begin p)) (key_bytes (ip_end p))
         (ip_ascending p) (ip_first p))"

lemma row_key: "rbind (column (row_of R wv t k) 0) as_bytes = Inr k"
  by (simp add: row_of_def column_def nth_opt_def as_bytes_def)

lemma row_value:
  assumes "(if wv then rbind (column (row_of R wv t k) 1) as_bytes else Inr []) = Inr v"
  shows "entry R wv t k = (k, v)"
  using assms by (cases wv) (auto simp: row_of_def column_def nth_opt_def entry_def cell_bytes_def)

lemma iterate_row:
  assumes "iterate_rows wv cb (row_of R wv t k # rows) failed s = Inr s'"
  obtains v go_on s1 where "entry R wv t k = (k, v)" and "cb k v s = Inr (go_on, s1)"
    and "(if go_on then iterate_rows wv cb rows failed s1 else Inr s1) = Inr s'"
proof -
  from assms obtain v where v: "(if wv then rbind (column (row_of R wv t k) 1) as_bytes else Inr []) = Inr v"
    and r: "rbind (cb k v s) (\<lambda>(go_on, s'). if go_on then iterate_rows wv cb rows failed s' else Inr s') = Inr s'"
    unfolding iterate_rows.simps row_key rbind_simps rbind_Inr_iff [of "if _ then _ else _"] by blast
  from r obtain x where x: "cb k v s = Inr x"
    "(case x of (go_on, s') \<Rightarrow> if go_on then iterate_rows wv cb rows failed s' else Inr s') = Inr s'"
    unfolding rbind_Inr_iff by blast
  obtain go_on s1 where "x = (go_on, s1)" by fastforce
  with row_value [OF v] x show ?thesis by (intro that [of v go_on s1]) simp_all
qed

lemma iterate_rows_run:
  "\<lbrakk>iterate_rows wv cb rows failed s = Inr s';
    delivers (rows, failed) (map (row_of R wv t) ks)\<rbrakk> \<Longrightarrow>
   run_callback cb (map (entry R wv t) ks) s = Inr s'"
proof (induction ks arbitrary: rows s)
  case Nil
  then show ?case by (auto simp: delivers_def split: if_splits)
next
  case (Cons k ks)
  obtain rows' where rows: "rows = row_of R wv t k # rows'" "delivers (rows', failed) (map (row_of R wv t) ks)"
    using Cons.prems by (cases rows) (auto simp: delivers_def split: if_splits)
  obtain v go s1 where "entry R wv t k = (k, v)" and cb: "cb k v s = Inr (go, s1)"
    and rest: "(if go then iterate_rows wv cb rows' failed s1 else Inr s1) = Inr s'"
    using Cons.prems(1) unfolding rows(1) by (rule iterate_row)
  then show ?case using cb rest Cons.IH [OF _ rows(2), of s1] by (cases go) simp_all
qed

lemma collect_ids_set:
  "\<lbrakk>collect_ids n rows failed bm = Inr bm'; delivers (rows, failed) (map (\<lambda>k. [SqlBlob k]) ks); 4 \<le> n\<rbrakk> \<Longrightarrow>
   bm' = bm \<union> {from_be_u32 (drop (n - 4) k) | k. k \<in> set ks \<and> length k = n}"
proof (induction ks arbitrary: rows bm)
  case Nil
  then show ?case by (auto simp: delivers_def split: if_splits)
next
  case (Cons k ks)
  obtain rows' where rows: "rows = [SqlBlob k] # rows'" "delivers (rows', failed) (map (\<lambda>k. [SqlBlob k]) ks)"
    using Cons.prems by (cases rows) (auto simp: delivers_def split: if_splits)
  let ?bm = "if length k = n then insert (from_be_u32 (drop (n - 4) k)) bm else bm"
  have "collect_ids n rows' failed ?bm = Inr bm'"
    using Cons.prems(1,3) rows(1)
    by (auto simp: column_def nth_opt_def as_bytes_def deserialize_be_u32_long split: if_splits)
  from Cons.IH [OF this rows(2) Cons.prems(3)] show ?case by auto
qed

lemma between_same_prefix:
  assumes "length k = length P + 4" and "P @ be_u32 a \<le> k" and "k \<le> P @ be_u32 u32_MAX"
  shows "\<exists>d. k = P @ be_u32 d \<and> a \<le> d"
proof -
  define p z where "p = take (length P) k" and "z = drop (length P) k"
  have k: "k = p @ z" "length p = length P" "length z = 4" using assms(1) by (auto simp: p_def z_def)
  then have "p = P" using assms(2,3) by (auto simp: le_append_same_length)
  moreover have "z = be_u32 (from_be_u32 z)" using k(3) by (simp add: be_from_be_u32)
  ultimately show ?thesis
    using assms(2) k(1) by (metis be_u32_le_iff le_append_same_length less_irrefl)
qed

definition bitmap_ids :: "roaring_bitmap option \<Rightarrow> u32 set" where
  "bitmap_ids r = (case r of None \<Rightarrow> {} | Some bm \<Rightarrow> bm)"

text \<open>The documents of a bitmap key, from the document of the key on.\<close>

definition bitmap_documents :: "tables \<Rightarrow> u32 bitmap_key \<Rightarrow> u32 set" where
  "bitmap_documents R k =
     {d. bk_document_id k \<le> d \<and>
       R (key_subspace (key_of_bitmap k)) (key_bytes (key_of_bitmap (k\<lparr>bk_document_id := d\<rparr>))) \<noteq> None}"

context sqlite_engine
begin

lemma iterate_run:
  assumes "sqlite_iterate eng p cb s db = Inr s'"
  shows "run_callback cb (entries (view db) p) s = Inr s'"
proof -
  obtain rows failed where "sql_select eng
      (Select_Range (ip_values p) (key_subspace (ip_begin p)) (key_bytes (ip_begin p))
        (key_bytes (ip_end p)) (ip_ascending p) (ip_first p)) db = Some (rows, failed)"
    and it: "iterate_rows (ip_values p) cb rows failed s = Inr s'"
    using assms by (auto simp: sqlite_iterate_def split: if_splits option.splits)
  from select_range [OF this(1)] show ?thesis
    unfolding entries_def by (rule iterate_rows_run [OF it])
qed

lemma get_value_view:
  assumes "sqlite_get_value eng deserialize k db = Inr r"
  shows "case view db (key_subspace k) (key_bytes k) of
      None \<Rightarrow> r = None
    | Some v \<Rightarrow> \<exists>b x. as_bytes v = Inr b \<and> deserialize b = Inr x \<and> r = Some x"
proof -
  let ?f = "\<lambda>row. rbind (column row 0) (\<lambda>v. rbind (as_bytes v) (\<lambda>b.
    case deserialize b of Inl _ \<Rightarrow> Inl SqliteError | Inr x \<Rightarrow> Inr x))"
  have "query_row_optional eng (Select_Value (key_subspace k) (key_bytes k)) ?f db = Inr r"
    using assms by (simp add: sqlite_get_value_def split: if_splits)
  from query_value [OF this] show ?thesis
    by (cases "view db (key_subspace k) (key_bytes k)")
      (auto simp: column_def nth_opt_def rbind_Inr_iff split: sum.splits, metis sum.exhaust)
qed

lemma get_counter_view:
  assumes "sqlite_get_counter eng k db = Inr i"
  shows "case view db (key_subspace (key_of_value k)) (key_bytes (key_of_value k)) of
      None \<Rightarrow> i = 0 | Some v \<Rightarrow> v = SqlInt i"
proof -
  obtain x where x: "query_row_optional eng
      (Select_Value (key_subspace (key_of_value k)) (key_bytes (key_of_value k)))
      (\<lambda>row. rbind (column row 0) as_i64) db = Inr x" "i = (case x of Some i \<Rightarrow> i | None \<Rightarrow> 0)"
    using assms by (auto simp: sqlite_get_counter_def rbind_Inr_iff split: if_splits)
  from query_value [OF x(1)] show ?thesis
    using x(2) by (auto simp: column_def nth_opt_def as_i64_def split: option.splits sql_value.splits)
qed

lemma get_bitmap_view:
  assumes "sqlite_get_bitmap eng k db = Inr r"
  shows "bitmap_ids r = bitmap_documents (view db) k" and "r \<noteq> Some {}"
proof -
  define P where "P = serialize_bitmap_class (resolve_id_u32 None) (bk_class k) (bk_account_id k) (bk_collection k)"
  let ?t = "key_subspace (key_of_bitmap k)"
  have key: "key_bytes (key_of_bitmap (k\<lparr>bk_document_id := d\<rparr>)) = P @ be_u32 d" for d
    by (simp add: key_of_bitmap_def bitmap_class_serialize_def P_def)
  have key0: "key_bytes (key_of_bitmap k) = P @ be_u32 (bk_document_id k)"
    by (simp add: key_of_bitmap_def bitmap_class_serialize_def P_def)
  obtain rows failed where
    sel: "sql_select eng (Select_Keys ?t (P @ be_u32 (bk_document_id k)) (P @ be_u32 u32_MAX)) db = Some (rows, failed)"
    and "rbind (collect_ids (length P + 4) rows failed {}) (\<lambda>bm. Inr (if bm \<noteq> {} then Some bm else None)) = Inr r"
    using assms by (auto simp: sqlite_get_bitmap_def key0 key Let_def split: if_split_asm option.splits)
  then obtain bm where
    bm: "collect_ids (length P + 4) rows failed {} = Inr bm" "r = (if bm \<noteq> {} then Some bm else None)"
    unfolding rbind_Inr_iff by blast
  from select_keys [OF sel] obtain ks where ks: "set ks = keys_between (view db) ?t (P @ be_u32 (bk_document_id k)) (P @ be_u32 u32_MAX)"
    "delivers (rows, failed) (map (\<lambda>k. [SqlBlob k]) ks)" by blast
  have "bm = {from_be_u32 (drop (length P) k') | k'. k' \<in> set ks \<and> length k' = length P + 4}"
    using collect_ids_set [OF bm(1) ks(2)] by simp
  also have "\<dots> = {d. bk_document_id k \<le> d \<and> view db ?t (P @ be_u32 d) \<noteq> None}"
  proof (intro set_eqI iffI; clarsimp)
    fix k' v
    assume "k' \<in> set ks" "length k' = length P + 4"
    then obtain d where "k' = P @ be_u32 d" "bk_document_id k \<le> d" "view db ?t k' \<noteq> None"
      using between_same_prefix [of k' P "bk_document_id k"] by (auto simp: ks(1) keys_between_def)
    then show "bk_document_id k \<le> from_be_u32 (drop (length P) k') \<and>
        (\<exists>y. view db ?t (P @ be_u32 (from_be_u32 (drop (length P) k'))) = Some y)"
      by auto
  next
    fix d v
    assume "bk_document_id k \<le> d" "view db ?t (P @ be_u32 d) = Some v"
    then have "P @ be_u32 d \<in> set ks"
      by (simp add: ks(1) keys_between_def le_append_same_length)
    then show "\<exists>k'. d = from_be_u32 (drop (length P) k') \<and> k' \<in> set ks \<and> length k' = length P + 4"
      by (intro exI [of _ "P @ be_u32 d"]) simp
  qed
  finally have "bm = bitmap_documents (view db) k" by (simp add: bitmap_documents_def key)
  then show "bitmap_ids r = bitmap_documents (view db) k" "r \<noteq> Some {}"
    using bm(2) by (auto simp: bitmap_ids_def)
qed

lemma delete_range_view:
  assumes "sqlite_delete_range eng from to db = (Inr u, db')"
  shows "view db' = (view db)(key_subspace from := (\<lambda>k.
    if key_bytes from \<le> k \<and> k < key_bytes to then None else view db (key_subspace from) k))"
  using assms by (auto simp: sqlite_delete_range_def exec_ok_Inr dest!: delete_range split: if_splits)

lemma purge_store_view:
  assumes "sqlite_purge_store eng db = (Inr u, db')"
  shows "view db' t k = (if t \<in> {SUBSPACE_QUOTA, SUBSPACE_COUNTER} \<and> view db t k = Some (SqlInt 0)
    then None else view db t k)"
  using assms
  by (auto simp: sqlite_purge_store_def exec_ok_Inr subspace_defs dest!: delete_where_zero
      split: if_splits prod.splits sum.splits)

end

end
