(* ===== verification/Mem_Engine.thy ===== *)
theory Mem_Engine
  imports Sqlite_Laws
begin

section \<open>An engine that keeps its rows in a list\<close>

text \<open>
  A complete engine for the statements of the SQLite backend: the rows are an association list
  from table and key to value, a transaction remembers the rows it began with. No statement fails
  except an \<open>INSERT\<close> of a key that exists. It shows that the laws of \<open>sqlite_engine\<close>
  can hold together, and the theorems about the backend are evaluated on it.
\<close>

type_synonym mem_rows = "((u8 \<times> bytes) \<times> sql_value) list"

record mem_db =
  mem_rows :: mem_rows
  mem_saved :: mem_rows

definition mem_tables :: "mem_rows \<Rightarrow> tables" where
  "mem_tables rows t k = map_of rows (t, k)"

definition mem_remove :: "u8 \<Rightarrow> bytes \<Rightarrow> mem_rows \<Rightarrow> mem_rows" where
  "mem_remove t k rows = filter (\<lambda>(p, v). p \<noteq> (t, k)) rows"

definition mem_put :: "u8 \<Rightarrow> bytes \<Rightarrow> sql_value \<Rightarrow> mem_rows \<Rightarrow> mem_rows" where
  "mem_put t k v rows = ((t, k), v) # mem_remove t k rows"

definition mem_add :: "sql_value option \<Rightarrow> int \<Rightarrow> sql_value" where
  "mem_add old n =
     (case old of
        None \<Rightarrow> SqlInt n
      | Some (SqlInt a) \<Rightarrow> if in_i64 (a + n) then SqlInt (a + n) else SqlReal 0
      | Some _ \<Rightarrow> SqlInt n)"

definition mem_set :: "mem_db \<Rightarrow> mem_rows \<Rightarrow> sql_row list option \<times> mem_db" where
  "mem_set db rows = (Some [], db\<lparr>mem_rows := rows\<rparr>)"

fun mem_exec :: "sql_cmd \<Rightarrow> mem_db \<Rightarrow> sql_row list option \<times> mem_db" where
  "mem_exec (Create_Table t kind) db = (Some [], db)"
| "mem_exec Begin_Immediate db = (Some [], db\<lparr>mem_saved := mem_rows db\<rparr>)"
| "mem_exec Commit_Transaction db = (Some [], db)"
| "mem_exec Rollback_Transaction db = mem_set db (mem_saved db)"
| "mem_exec (Insert_Or_Replace t k b) db = mem_set db (mem_put t k (SqlBlob b) (mem_rows db))"
| "mem_exec (Insert_Add t k n) db =
     mem_set db (mem_put t k (mem_add (mem_tables (mem_rows db) t k) n) (mem_rows db))"
| "mem_exec (Insert_Add_Returning t k n) db =
     (let v = mem_add (mem_tables (mem_rows db) t k) n
      in (Some [[v]], db\<lparr>mem_rows := mem_put t k v (mem_rows db)\<rparr>))"
| "mem_exec (Update_Add t n k) db =
     (case mem_tables (mem_rows db) t k of
        None \<Rightarrow> (Some [], db)
      | Some old \<Rightarrow> mem_set db (mem_put t k (mem_add (Some old) n) (mem_rows db)))"
| "mem_exec (Delete_Key t k) db = mem_set db (mem_remove t k (mem_rows db))"
| "mem_exec (Insert_Or_Ignore_Key t k) db =
     (if mem_tables (mem_rows db) t k = None then mem_set db (mem_put t k SqlNull (mem_rows db))
      else (Some [], db))"
| "mem_exec (Insert_Key t k) db =
     (if mem_tables (mem_rows db) t k = None then mem_set db (mem_put t k SqlNull (mem_rows db))
      else (None, db))"
| "mem_exec (Delete_Where_Zero t) db =
     mem_set db (filter (\<lambda>((t', k), v). \<not> (t' = t \<and> mem_tables (mem_rows db) t k = Some (SqlInt 0)))
       (mem_rows db))"
| "mem_exec (Delete_Range t b e) db =
     mem_set db (filter (\<lambda>((t', k), v). \<not> (t' = t \<and> b \<le> k \<and> k < e)) (mem_rows db))"

definition mem_keys :: "mem_rows \<Rightarrow> u8 \<Rightarrow> bytes \<Rightarrow> bytes \<Rightarrow> bytes list" where
  "mem_keys rows t b e =
     sort (remdups (map (\<lambda>((t, k), v). k) (filter (\<lambda>((t', k), v). t' = t \<and> b \<le> k \<and> k \<le> e) rows)))"

fun mem_select :: "sql_query \<Rightarrow> mem_db \<Rightarrow> (sql_row list \<times> bool) option" where
  "mem_select (Select_Value t k) db =
     Some (case mem_tables (mem_rows db) t k of None \<Rightarrow> [] | Some v \<Rightarrow> [[v]], False)"
| "mem_select (Select_Keys t b e) db =
     Some (map (\<lambda>k. [SqlBlob k]) (mem_keys (mem_rows db) t b e), False)"
| "mem_select (Select_Range with_values t b e asc first) db =
     (let ks = mem_keys (mem_rows db) t b e;
          ks' = (if asc then ks else rev ks);
          ks'' = (if first then take 1 ks' else ks')
      in Some (map (row_of (mem_tables (mem_rows db)) with_values t) ks'', False))"

definition mem_engine :: "mem_db sql_engine" where
  "mem_engine = \<lparr>sql_connect = (\<lambda>db. True), sql_exec = mem_exec, sql_select = mem_select\<rparr>"

definition mem_view :: "mem_db \<Rightarrow> tables" where "mem_view db = mem_tables (mem_rows db)"
definition mem_saved_view :: "mem_db \<Rightarrow> tables" where "mem_saved_view db = mem_tables (mem_saved db)"

text \<open>The rows an engine starts with, for the examples.\<close>

definition mem_start :: "mem_rows \<Rightarrow> mem_db" where
  "mem_start rows = \<lparr>mem_rows = rows, mem_saved = []\<rparr>"

subsection \<open>The laws hold\<close>

lemma map_of_filter_key:
  "map_of (filter (\<lambda>(p, v). Q p) xs) p = (if Q p then map_of xs p else None)"
  by (induction xs) auto

lemma mem_tables_remove: "mem_tables (mem_remove t k rows) = tbl_put (mem_tables rows) t k None"
  using map_of_filter_key [of "\<lambda>p. p \<noteq> (t, k)" rows]
  by (auto simp: fun_eq_iff mem_tables_def mem_remove_def tbl_put_apply)

lemma mem_tables_put: "mem_tables (mem_put t k v rows) = tbl_put (mem_tables rows) t k (Some v)"
  using mem_tables_remove [of t k rows]
  by (auto simp: fun_eq_iff mem_tables_def mem_put_def tbl_put_apply)

lemma mem_tables_filter:
  "mem_tables (filter (\<lambda>((t, k), v). Q t k) rows) = (\<lambda>t k. if Q t k then mem_tables rows t k else None)"
  using map_of_filter_key [of "\<lambda>(t, k). Q t k" rows] by (simp add: fun_eq_iff mem_tables_def split_def)

lemma distinct_mem_keys: "distinct (mem_keys rows t b e)"
  by (simp add: mem_keys_def)

lemma finite_mem_tables: "finite {k. mem_tables rows t k \<noteq> None}"
proof (rule finite_subset)
  show "{k. mem_tables rows t k \<noteq> None} \<subseteq> snd ` fst ` set rows"
    by (force simp: mem_tables_def dest: map_of_SomeD)
qed simp

lemma set_mem_keys: "set (mem_keys rows t b e) = keys_between (mem_tables rows) t b e"
proof -
  have "k \<in> set (mem_keys rows t b e) \<longleftrightarrow> b \<le> k \<and> k \<le> e \<and> (t, k) \<in> fst ` set rows" for k
    by (force simp: mem_keys_def image_iff)
  then show ?thesis
    by (auto simp: keys_between_def mem_tables_def map_of_eq_None_iff)
qed

lemma mem_keys_sorted: "mem_keys rows t b e = sorted_list_of_set (keys_between (mem_tables rows) t b e)"
  using sorted_list_of_set.idem_if_sorted_distinct [of "mem_keys rows t b e"]
  by (simp add: set_mem_keys) (simp add: mem_keys_def)

lemma mem_range_keys:
  "range_keys (mem_view db) t b e asc first =
     (let ks = mem_keys (mem_rows db) t b e; ks' = (if asc then ks else rev ks)
      in if first then take 1 ks' else ks')"
  by (simp add: range_keys_def mem_view_def mem_keys_sorted)

lemma mem_add_added: "added old n (mem_add old n)"
  by (auto simp: added_def mem_add_def)

lemma mem_engine_sel [simp]:
  "sql_exec mem_engine = mem_exec" "sql_select mem_engine = mem_select" "sql_connect mem_engine = (\<lambda>_. True)"
  by (simp_all add: mem_engine_def)

interpretation mem: sqlite_engine mem_engine mem_view mem_saved_view
proof unfold_locales
  show "finite {k. mem_view db t k \<noteq> None}" for db t
    by (simp only: mem_view_def finite_mem_tables)
  show "mem_saved_view (snd (sql_exec mem_engine c db)) = mem_saved_view db" if "is_update c" for c db
    using that by (cases c) (auto simp: mem_saved_view_def mem_set_def Let_def split: option.splits)
  show "\<exists>ks. distinct ks \<and> set ks = keys_between (mem_view db) t b e \<and> delivers a (map (\<lambda>k. [SqlBlob k]) ks)"
    if "sql_select mem_engine (Select_Keys t b e) db = Some a" for t b e db a
    using that by (intro exI [of _ "mem_keys (mem_rows db) t b e"])
      (auto simp: set_mem_keys mem_view_def delivers_def distinct_mem_keys)
  show "delivers a (map (row_of (mem_view db) wv t) (range_keys (mem_view db) t b e asc first))"
    if "sql_select mem_engine (Select_Range wv t b e asc first) db = Some a" for wv t b e asc first db a
    using that by (auto simp: delivers_def range_keys_def mem_view_def mem_keys_sorted Let_def)
qed (auto simp: mem_view_def mem_saved_view_def mem_set_def mem_tables_put mem_tables_remove
      mem_tables_filter fun_eq_iff Let_def delivers_def
      intro!: mem_add_added exI split: option.splits if_splits)

end
