(* ===== verification/Sqlite_Properties.thy ===== *)
theory Sqlite_Properties
  imports Mem_Engine
begin

section \<open>Properties of the SQLite backend\<close>

text \<open>
  The theorems about \<open>sqlite_write\<close> and the reading operations, for every engine that obeys
  the laws of \<open>sqlite_engine\<close>, and their evaluation on the engine of \<open>Mem_Engine\<close>.
\<close>

lemma document_set_put:
  "document_set (tbl_put R SUBSPACE_BITMAP_ID (be_u32 a @ c # be_u32 d) (Some v)) a c =
    insert d (document_set R a c)"
  by (auto simp: document_set_def tbl_put_apply)

text \<open>Keys of static classes do not depend on the identifiers assigned by the batch.\<close>

lemma property_key:
  "value_class_key (Property f) st =
    key_bytes (key_of_value (value_key_property (ws_account_id st) (ws_collection st) (ws_document_id st) f))"
  "key_subspace (key_of_value (value_key_property a c d f)) =
    value_subspace (Property f :: maybe_dynamic_id value_class) c"
  by (simp_all add: value_class_key_def key_of_value_def value_key_property_def
      value_class_serialize_def value_subspace_def)

lemmas batch_defs = batch_set_def batch_assert_value_def update_document_def batch_with_collection_def
  batch_with_account_id_def batch_new_def create_document_def batch_add_and_get_def

lemmas mem_write_defs = sqlite_write_def mem_engine_def mem_start_def exec_ok_def write_op_def write_bitmap_def
  next_document_id_def write_bitmap_key_def outcome_def mem_keys_def mem_set_def mem_tables_def
  batch_defs write_state_new_def

text \<open>Creating the first document of a collection succeeds on the engine.\<close>

lemma mem_create_document:
  "\<exists>ids. sqlite_write mem_engine h rng (create_document (batch_with_collection (batch_with_account_id batch_new a) c))
     (mem_start []) = (Inr ids, snd (sqlite_write mem_engine h rng
       (create_document (batch_with_collection (batch_with_account_id batch_new a) c)) (mem_start [])))"
  by (simp add: mem_write_defs)

subsection \<open>Properties\<close>

text \<open>C2: a write is all or nothing: when it returns an error, whichever statement failed and
  also when the commit failed, the tables are what they were.\<close>

theorem sqlite_write_atomic:
  assumes "sqlite_engine eng view saved" and "sqlite_write eng h rng ops db = (Inl e, db')"
  shows "view db' = view db"
  using sqlite_engine.write_error_unchanged [OF assms] .

theorem sqlite_write_atomic_witness:
  "mem_view (snd (sqlite_write mem_engine (\<lambda>_. 0) (\<lambda>_ _. 0)
      [AccountId 1, Collection 2, DocumentId 3, Value (Property 4) (SetValue (StaticValue [5])),
       AssertValue (Property 6) AssertSome] (mem_start []))) = mem_view (mem_start [])"
  by (rule sqlite_write_atomic [OF mem.sqlite_engine_axioms, of "\<lambda>_. 0" "\<lambda>_ _. 0"
        "[AccountId 1, Collection 2, DocumentId 3, Value (Property 4) (SetValue (StaticValue [5])),
          AssertValue (Property 6) AssertSome]" _ AssertValueFailed])
    code_simp

text \<open>C1: a write that succeeds has done to the tables what the operations of the batch say, one
  after the other, and returns the identifiers they assigned; a new document took an identifier
  that was not in use, and every assertion held when it was reached.\<close>

theorem sqlite_write_refines:
  assumes "sqlite_engine eng view saved" and "sqlite_write eng h rng ops db = (Inr ids, db')"
  shows "\<exists>st. ids = ws_result st \<and> ops_steps h ops (write_state_new, view db) (st, view db')"
  using sqlite_engine.write_success [OF assms] .

theorem sqlite_write_refines_witness:
  "\<exists>st. ops_steps (\<lambda>_. 0) (create_document (batch_with_collection (batch_with_account_id batch_new 1) 2))
      (write_state_new, mem_view (mem_start []))
      (st, mem_view (snd (sqlite_write mem_engine (\<lambda>_. 0) (\<lambda>_ _. 0)
        (create_document (batch_with_collection (batch_with_account_id batch_new 1) 2)) (mem_start []))))"
  using mem_create_document [of "\<lambda>_. 0" "\<lambda>_ _. 0" 1 2]
  by (blast dest: sqlite_write_refines [OF mem.sqlite_engine_axioms])

text \<open>C3: optimistic concurrency: when a batch that asserts the present value of a property and sets
  it succeeds, the assertion held of the value stored before, and a read that follows returns the
  value that was set.\<close>

theorem compare_and_swap:
  assumes "sqlite_engine eng view saved"
    and "sqlite_write eng h rng
      (batch_set (batch_assert_value (update_document (batch_with_collection
        (batch_with_account_id batch_new a) c) d) (Property f) expected) (Property f) (StaticValue b)) db = (Inr ids, db')"
    and "key = key_of_value (value_key_property a c d f)"
    and "sqlite_get_value eng deserialize key db' = Inr r"
  shows "(case view db (key_subspace key) (key_bytes key) of
      None \<Rightarrow> expected = AssertNone
    | Some v \<Rightarrow> \<exists>old. as_bytes v = Inr old \<and> assert_matches h expected old) \<and>
    (\<exists>x. deserialize b = Inr x \<and> r = Some x)"
proof -
  from sqlite_engine.write_success [OF assms(1,2)] obtain st where
    st: "ops_steps h [AccountId a, Collection c, DocumentId d, AssertValue (Property f) expected,
        Value (Property f) (SetValue (StaticValue b))] (write_state_new, view db) (st, view db')"
    by (auto simp: batch_defs)
  have old: "case view db (key_subspace key) (key_bytes key) of
      None \<Rightarrow> expected = AssertNone
    | Some v \<Rightarrow> \<exists>old. as_bytes v = Inr old \<and> assert_matches h expected old"
    and "view db' (key_subspace key) (key_bytes key) = Some (SqlBlob b)"
    using st unfolding ops_steps_simps op_step_simps assms(3)
    by (auto simp: property_key resolve_value_def tbl_put_apply)
  with sqlite_engine.get_value_view [OF assms(1,4)] show ?thesis by (simp add: as_bytes_def)
qed

theorem compare_and_swap_witness:
  "\<exists>old. as_bytes (SqlBlob [7, 7]) = Inr old \<and> assert_matches (\<lambda>_. 5) (AssertHash 5) old \<and>
    (\<exists>x. Inr [9, 9] = (Inr x :: bytes trc_result) \<and> Some [9, 9] = Some x)"
proof -
  let ?db = "mem_start [((SUBSPACE_PROPERTY, key_bytes (key_of_value (value_key_property 1 2 3 4))), SqlBlob [7, 7])]"
  let ?w = "sqlite_write mem_engine (\<lambda>_. 5) (\<lambda>_ _. 0)
      (batch_set (batch_assert_value (update_document (batch_with_collection
        (batch_with_account_id batch_new 1) 2) 3) (Property 4) (AssertHash 5)) (Property 4) (StaticValue [9, 9])) ?db"
  let ?k = "key_of_value (value_key_property 1 2 3 4)"
  have "fst ?w = Inr no_ids" by code_simp
  then have w: "?w = (Inr no_ids, snd ?w)" by (metis prod.collapse)
  have r: "sqlite_get_value mem_engine Inr ?k (snd ?w) = Inr (Some [9, 9 :: u8])" by code_simp
  have "mem_view ?db (key_subspace ?k) (key_bytes ?k) = Some (SqlBlob [7, 7])" by code_simp
  then show ?thesis using compare_and_swap [OF mem.sqlite_engine_axioms w refl r] by auto
qed

text \<open>C4: a document created by a batch gets an identifier that no document of the account and the
  collection had, the batch returns it, and the documents are the ones before and the new one.\<close>

theorem create_document_fresh:
  assumes "sqlite_engine eng view saved"
    and "sqlite_write eng h rng (create_document (batch_with_collection (batch_with_account_id batch_new a) c)) db =
      (Inr ids, db')"
  shows "\<exists>d. document_ids ids = [d] \<and> d \<notin> document_set (view db) a c \<and>
    document_set (view db') a c = insert d (document_set (view db) a c)"
proof -
  from sqlite_engine.write_success [OF assms] obtain st where "ids = ws_result st"
    and "ops_steps h [AccountId a, Collection c, DocumentId u32_MAX, BitmapOp DocumentIds True]
      (write_state_new, view db) (st, view db')"
    by (auto simp: batch_defs)
  then show ?thesis
    by (auto simp: ops_steps_simps op_step_simps write_state_new_def push_document_id_def no_ids_def
        document_set_put)
qed

theorem create_document_fresh_witness:
  "\<exists>d (ids :: assigned_ids). document_ids ids = [d] \<and> d \<notin> document_set (mem_view (mem_start [])) 1 2 \<and>
    document_set (mem_view (snd (sqlite_write mem_engine (\<lambda>_. 0) (\<lambda>_ _. 0)
        (create_document (batch_with_collection (batch_with_account_id batch_new 1) 2)) (mem_start [])))) 1 2 =
      insert d (document_set (mem_view (mem_start [])) 1 2)"
proof -
  obtain ids where "sqlite_write mem_engine (\<lambda>_. 0) (\<lambda>_ _. 0)
      (create_document (batch_with_collection (batch_with_account_id batch_new 1) 2)) (mem_start []) =
    (Inr ids, snd (sqlite_write mem_engine (\<lambda>_. 0) (\<lambda>_ _. 0)
      (create_document (batch_with_collection (batch_with_account_id batch_new 1) 2)) (mem_start [])))"
    using mem_create_document by blast
  from create_document_fresh [OF mem.sqlite_engine_axioms this] show ?thesis by blast
qed

text \<open>C5: a counter that is added to and read returns the sum of what it held and what was added,
  a counter that was never written counting as zero, and holds that sum afterwards.\<close>

theorem counter_add_and_get:
  assumes "sqlite_engine eng view saved"
    and "key = \<lparr>vk_account_id = a, vk_collection = c, vk_document_id = d, vk_class = Property f\<rparr>"
    and "sqlite_get_counter eng key db = Inr i" and "in_i64 (i + n)"
    and "sqlite_write eng h rng
      (batch_add_and_get (update_document (batch_with_collection
        (batch_with_account_id batch_new a) c) d) (Property f) n) db = (Inr ids, db')"
    and "sqlite_get_counter eng key db' = Inr j"
  shows "j = i + n \<and> counter_ids ids = [j]"
proof -
  from sqlite_engine.write_success [OF assms(1,5)] obtain st where
    st: "ops_steps h [AccountId a, Collection c, DocumentId d, Value (Property f) (AddAndGet n)]
      (write_state_new, view db) (st, view db')" "ids = ws_result st"
    by (auto simp: batch_defs)
  let ?k = "key_of_value (value_key_property a c d f)"
  have "added (view db (key_subspace ?k) (key_bytes ?k)) n (SqlInt (last (counter_ids ids)))"
    and "view db' (key_subspace ?k) (key_bytes ?k) = Some (SqlInt (last (counter_ids ids)))"
    and "counter_ids ids = [last (counter_ids ids)]"
    using st unfolding ops_steps_simps op_step_simps
    by (auto simp: property_key tbl_put_apply write_state_new_def push_counter_id_def no_ids_def)
  moreover have "key = value_key_property a c d f" by (simp add: assms(2) value_key_property_def)
  ultimately show ?thesis
    using sqlite_engine.get_counter_view [OF assms(1,3)] sqlite_engine.get_counter_view [OF assms(1,6)] assms(4)
    by (auto simp: added_def split: option.splits)
qed

theorem counter_add_and_get_witness: "(12 :: int) = 7 + 5 \<and> counter_ids \<lparr>document_ids = [], counter_ids = [12]\<rparr> = [12]"
proof -
  let ?db = "mem_start [((SUBSPACE_COUNTER, key_bytes (key_of_value (value_key_property 1 1 3 84))), SqlInt 7)]"
  let ?w = "sqlite_write mem_engine (\<lambda>_. 0) (\<lambda>_ _. 0)
      (batch_add_and_get (update_document (batch_with_collection
        (batch_with_account_id batch_new 1) 1) 3) (Property 84) 5) ?db"
  have w: "?w = (Inr \<lparr>document_ids = [], counter_ids = [12]\<rparr>, snd ?w)"
    by (rule prod_eqI) code_simp+
  show ?thesis
    by (rule counter_add_and_get [OF mem.sqlite_engine_axioms refl _ _ w]) code_simp+
qed

text \<open>The bitmap read for a key holds the documents that have a row for it, no other, and an
  empty bitmap is never returned.\<close>

theorem sqlite_get_bitmap_exact:
  assumes "sqlite_engine eng view saved" and "sqlite_get_bitmap eng k db = Inr r"
  shows "bitmap_ids r = bitmap_documents (view db) k \<and> r \<noteq> Some {}"
  using sqlite_engine.get_bitmap_view [OF assms] by blast

theorem sqlite_get_bitmap_exact_witness:
  "bitmap_ids (Some {3, 5}) = bitmap_documents (mem_view (mem_start
     [((SUBSPACE_BITMAP_ID, [0, 0, 0, 1, 2, 0, 0, 0, 3]), SqlNull),
      ((SUBSPACE_BITMAP_ID, [0, 0, 0, 1, 2, 0, 0, 0, 5]), SqlNull),
      ((SUBSPACE_BITMAP_ID, [0, 0, 0, 1, 3, 0, 0, 0, 6]), SqlNull)]))
     \<lparr>bk_account_id = 1, bk_collection = 2, bk_class = DocumentIds, bk_document_id = 0\<rparr> \<and>
    Some {3, 5 :: u32} \<noteq> Some {}"
  by (rule sqlite_get_bitmap_exact [OF mem.sqlite_engine_axioms]) code_simp

end
