(* ===== verification/Store_Dispatch.thy ===== *)
theory Store_Dispatch
  imports Mem_Engine
begin

section \<open>The store\<close>

text \<open>
  Models \<^verbatim>\<open>src/crates/store/src/dispatch/store.rs\<close> and
  \<^verbatim>\<open>dispatch/mod.rs\<close>: the operations of \<open>Store\<close>, which forward to the backend that
  is configured, and the ones built on top of them. Of the backends the one for SQLite is
  modelled; a store without a backend refuses every operation. The paranoid mode of the tests is
  left out.
\<close>

datatype store = SQLite | NoStore

definition store_id :: "store \<Rightarrow> bytes" where
  "store_id s = (case s of SQLite \<Rightarrow> ascii ''sqlite'' | NoStore \<Rightarrow> ascii ''none'')"

subsection \<open>Document sets\<close>

datatype doc_set = BitmapSet roaring_bitmap | VecSet "u32 list" | AnySet

definition ds_min :: "doc_set \<Rightarrow> u32" where
  "ds_min ds =
     (case ds of
        BitmapSet bm \<Rightarrow> (if bm = {} then 0 else Min bm)
      | VecSet xs \<Rightarrow> (case xs of [] \<Rightarrow> 0 | x # _ \<Rightarrow> x)
      | AnySet \<Rightarrow> 0)"

definition ds_max :: "doc_set \<Rightarrow> u32" where
  "ds_max ds =
     (case ds of
        BitmapSet bm \<Rightarrow> (if bm = {} then 0 else Max bm + 1)
      | VecSet xs \<Rightarrow> (if xs = [] then 0 else last xs + 1)
      | AnySet \<Rightarrow> u32_MAX)"

text \<open>\<open>slice::binary_search\<close>: the loop halves the part of the slice that may hold the
  item.\<close>

function search_base :: "u32 list \<Rightarrow> u32 \<Rightarrow> nat \<Rightarrow> nat \<Rightarrow> nat" where
  "search_base xs x base n =
     (if 1 < n then
        let half = n div 2; mid = base + half
        in search_base xs x (if x < xs ! mid then base else mid) (n - half)
      else base)"
  by pat_completeness auto
termination
  by (relation "measure (\<lambda>(xs, x, base, n). n)") auto

declare search_base.simps [simp del]

definition binary_search :: "u32 list \<Rightarrow> u32 \<Rightarrow> bool" where
  "binary_search xs x = (xs \<noteq> [] \<and> xs ! search_base xs x 0 (length xs) = x)"

definition ds_contains :: "doc_set \<Rightarrow> u32 \<Rightarrow> bool" where
  "ds_contains ds i =
     (case ds of
        BitmapSet bm \<Rightarrow> i \<in> bm
      | VecSet xs \<Rightarrow> binary_search xs i
      | AnySet \<Rightarrow> True)"

definition ds_len :: "doc_set \<Rightarrow> nat" where
  "ds_len ds = (case ds of BitmapSet bm \<Rightarrow> card bm | VecSet xs \<Rightarrow> length xs | AnySet \<Rightarrow> 0)"

definition ds_iterate :: "doc_set \<Rightarrow> u32 list" where
  "ds_iterate ds =
     (case ds of BitmapSet bm \<Rightarrow> sorted_list_of_set bm | VecSet xs \<Rightarrow> xs | AnySet \<Rightarrow> [])"

subsection \<open>Operations that are forwarded\<close>

definition store_get_value ::
    "'db sql_engine \<Rightarrow> store \<Rightarrow> (bytes \<Rightarrow> 'a trc_result) \<Rightarrow> key \<Rightarrow> 'db \<Rightarrow> 'a option trc_result" where
  "store_get_value eng s deserialize k db =
     (case s of SQLite \<Rightarrow> sqlite_get_value eng deserialize k db | NoStore \<Rightarrow> Inl NotConfigured)"

definition store_get_bitmap ::
    "'db sql_engine \<Rightarrow> store \<Rightarrow> u32 bitmap_key \<Rightarrow> 'db \<Rightarrow> roaring_bitmap option trc_result" where
  "store_get_bitmap eng s k db =
     (case s of SQLite \<Rightarrow> sqlite_get_bitmap eng k db | NoStore \<Rightarrow> Inl NotConfigured)"

definition store_iterate ::
    "'db sql_engine \<Rightarrow> store \<Rightarrow> iterate_params \<Rightarrow> 's callback \<Rightarrow> 's \<Rightarrow> 'db \<Rightarrow> 's trc_result" where
  "store_iterate eng s p cb st db =
     (case s of SQLite \<Rightarrow> sqlite_iterate eng p cb st db | NoStore \<Rightarrow> Inl NotConfigured)"

definition store_get_counter :: "'db sql_engine \<Rightarrow> store \<Rightarrow> u32 value_key \<Rightarrow> 'db \<Rightarrow> i64 trc_result" where
  "store_get_counter eng s k db =
     (case s of SQLite \<Rightarrow> sqlite_get_counter eng k db | NoStore \<Rightarrow> Inl NotConfigured)"

text \<open>What a write needs besides the engine: the hash of values and the random numbers.\<close>

record write_env =
  we_hash :: "bytes \<Rightarrow> u64"
  we_rng :: "nat \<Rightarrow> nat \<Rightarrow> nat"

definition store_write ::
    "'db sql_engine \<Rightarrow> write_env \<Rightarrow> store \<Rightarrow> batch \<Rightarrow> 'db \<Rightarrow> assigned_ids trc_result \<times> 'db" where
  "store_write eng env s ops db =
     (case s of
        SQLite \<Rightarrow> sqlite_write eng (we_hash env) (we_rng env) ops db
      | NoStore \<Rightarrow> (Inl NotConfigured, db))"

definition store_delete_range :: "'db sql_engine \<Rightarrow> store \<Rightarrow> key \<Rightarrow> key \<Rightarrow> 'db \<Rightarrow> unit trc_result \<times> 'db" where
  "store_delete_range eng s from to db =
     (case s of SQLite \<Rightarrow> sqlite_delete_range eng from to db | NoStore \<Rightarrow> (Inl NotConfigured, db))"

definition store_get_blob ::
    "'db sql_engine \<Rightarrow> store \<Rightarrow> bytes \<Rightarrow> nat \<Rightarrow> nat \<Rightarrow> 'db \<Rightarrow> bytes option trc_result" where
  "store_get_blob eng s k range_start range_end db =
     (case s of
        SQLite \<Rightarrow> sqlite_get_blob eng k range_start range_end db
      | NoStore \<Rightarrow> Inl NotConfigured)"

definition store_put_blob :: "'db sql_engine \<Rightarrow> store \<Rightarrow> bytes \<Rightarrow> bytes \<Rightarrow> 'db \<Rightarrow> unit trc_result \<times> 'db" where
  "store_put_blob eng s k data db =
     (case s of SQLite \<Rightarrow> sqlite_put_blob eng k data db | NoStore \<Rightarrow> (Inl NotConfigured, db))"

definition store_delete_blob :: "'db sql_engine \<Rightarrow> store \<Rightarrow> bytes \<Rightarrow> 'db \<Rightarrow> bool trc_result \<times> 'db" where
  "store_delete_blob eng s k db =
     (case s of SQLite \<Rightarrow> sqlite_delete_blob eng k db | NoStore \<Rightarrow> (Inl NotConfigured, db))"

subsection \<open>Intersection of bitmaps\<close>

fun bitmaps_intersection ::
    "'db sql_engine \<Rightarrow> store \<Rightarrow> u32 bitmap_key list \<Rightarrow> roaring_bitmap option \<Rightarrow> 'db \<Rightarrow>
     roaring_bitmap option trc_result" where
  "bitmaps_intersection eng s [] result db = Inr result"
| "bitmaps_intersection eng s (k # ks) result db =
     rbind (store_get_bitmap eng s k db) (\<lambda>bm.
       case bm of
         None \<Rightarrow> Inr None
       | Some bitmap \<Rightarrow>
           (case result of
              Some r \<Rightarrow>
                if r \<inter> bitmap = {} then Inr (Some {})
                else bitmaps_intersection eng s ks (Some (r \<inter> bitmap)) db
            | None \<Rightarrow> bitmaps_intersection eng s ks (Some bitmap) db))"

definition store_get_bitmaps_intersection ::
    "'db sql_engine \<Rightarrow> store \<Rightarrow> u32 bitmap_key list \<Rightarrow> 'db \<Rightarrow> roaring_bitmap option trc_result" where
  "store_get_bitmaps_intersection eng s ks db = bitmaps_intersection eng s ks None db"

subsection \<open>Purging\<close>

text \<open>A sequence of range deletions, stopped by the first error.\<close>

fun delete_ranges :: "'db sql_engine \<Rightarrow> store \<Rightarrow> (key \<times> key) list \<Rightarrow> 'db \<Rightarrow> unit trc_result \<times> 'db" where
  "delete_ranges eng s [] db = (Inr (), db)"
| "delete_ranges eng s ((from, to) # rs) db =
     (case store_delete_range eng s from to db of
        (Inl e, db') \<Rightarrow> (Inl e, db')
      | (Inr _, db') \<Rightarrow> delete_ranges eng s rs db')"

definition report_key :: "report_class \<Rightarrow> key" where
  "report_key r = key_of_value (value_key_from_class (Report r))"

definition store_purge_store :: "'db sql_engine \<Rightarrow> store \<Rightarrow> u64 \<Rightarrow> 'db \<Rightarrow> unit trc_result \<times> 'db" where
  "store_purge_store eng s now db =
     (case delete_ranges eng s
         [(report_key (ReportDmarc 0 0), report_key (ReportDmarc u64_MAX now)),
          (report_key (ReportTls 0 0), report_key (ReportTls u64_MAX now)),
          (report_key (ReportArf 0 0), report_key (ReportArf u64_MAX now))] db of
        (Inl e, db') \<Rightarrow> (Inl e, db')
      | (Inr _, db') \<Rightarrow>
          (case s of SQLite \<Rightarrow> sqlite_purge_store eng db' | NoStore \<Rightarrow> (Inl NotConfigured, db')))"

definition purge_account_ranges :: "u32 \<Rightarrow> (key \<times> key) list" where
  "purge_account_ranges account_id =
     map (\<lambda>subspace.
         (key_of_any \<lparr>any_subspace = subspace, any_key = be_u32 account_id\<rparr>,
          key_of_any \<lparr>any_subspace = subspace, any_key = be_u32 (account_id + 1)\<rparr>))
       [SUBSPACE_BITMAP_ID, SUBSPACE_BITMAP_TAG, SUBSPACE_BITMAP_TEXT, SUBSPACE_LOGS, SUBSPACE_INDEXES] @
     map (\<lambda>(from_class, to_class).
         (key_of_value \<lparr>vk_account_id = account_id, vk_collection = 0, vk_document_id = 0,
            vk_class = from_class\<rparr>,
          key_of_value \<lparr>vk_account_id = account_id + 1, vk_collection = 0, vk_document_id = 0,
            vk_class = to_class\<rparr>))
       [(Acl account_id, Acl (account_id + 1)),
        (Property 0, Property 0),
        (FtsIndex \<lparr>bh_hash = replicate 8 0, bh_len = 0\<rparr>,
         FtsIndex \<lparr>bh_hash = replicate 8 u8_MAX, bh_len = u8_MAX\<rparr>)] @
     [(key_of_value (value_key_property account_id 1 0 84),
       key_of_value (value_key_property account_id 1 u32_MAX 84))]"

definition store_purge_account :: "'db sql_engine \<Rightarrow> store \<Rightarrow> u32 \<Rightarrow> 'db \<Rightarrow> unit trc_result \<times> 'db" where
  "store_purge_account eng s account_id db = delete_ranges eng s (purge_account_ranges account_id) db"

subsection \<open>Deleting the keys of documents\<close>

definition documents_range :: "u8 \<Rightarrow> u32 \<Rightarrow> u8 \<Rightarrow> nat option \<Rightarrow> iterate_params" where
  "documents_range subspace account_id collection collection_offset =
     (let (from_key, to_key) =
        (if collection_offset \<noteq> None
         then (be_u32 account_id @ [collection], be_u32 account_id @ [collection + 1])
         else (be_u32 account_id, be_u32 (account_id + 1)))
      in no_values (iterate_params_new
           (key_of_any \<lparr>any_subspace = subspace, any_key = from_key\<rparr>)
           (key_of_any \<lparr>any_subspace = subspace, any_key = to_key\<rparr>)))"

definition collect_document_key :: "u8 \<Rightarrow> nat option \<Rightarrow> doc_set \<Rightarrow> bytes list callback" where
  "collect_document_key collection collection_offset doc_ids k v delete_keys =
     (if (case collection_offset of
            None \<Rightarrow> True
          | Some offset \<Rightarrow>
              nth_opt k (usize_sub (usize_sub (length k) U32_LEN) offset) = Some collection)
      then rbind (deserialize_be_u32 k (usize_sub (length k) U32_LEN)) (\<lambda>document_id.
             Inr (True, if ds_contains doc_ids document_id then delete_keys @ [k] else delete_keys))
      else Inr (True, delete_keys))"

definition clear_op :: "u8 \<Rightarrow> bytes \<Rightarrow> operation" where
  "clear_op subspace k = Value (Any \<lparr>any_subspace = subspace, any_key = k\<rparr>) ClearValue"

fun clear_keys ::
    "'db sql_engine \<Rightarrow> write_env \<Rightarrow> store \<Rightarrow> u8 \<Rightarrow> bytes list \<Rightarrow> batch \<Rightarrow> 'db \<Rightarrow> unit trc_result \<times> 'db" where
  "clear_keys eng env s subspace [] ops db =
     (if \<not> batch_is_empty ops then
        (case store_write eng env s ops db of
           (Inl e, db') \<Rightarrow> (Inl e, db')
         | (Inr _, db') \<Rightarrow> (Inr (), db'))
      else (Inr (), db))"
| "clear_keys eng env s subspace (k # ks) ops db =
     (if 1000 \<le> length ops then
        (case store_write eng env s ops db of
           (Inl e, db') \<Rightarrow> (Inl e, db')
         | (Inr _, db') \<Rightarrow> clear_keys eng env s subspace ks [clear_op subspace k] db')
      else clear_keys eng env s subspace ks (ops @ [clear_op subspace k]) db)"

definition store_delete_documents ::
    "'db sql_engine \<Rightarrow> write_env \<Rightarrow> store \<Rightarrow> u8 \<Rightarrow> u32 \<Rightarrow> u8 \<Rightarrow> nat option \<Rightarrow> doc_set \<Rightarrow> 'db \<Rightarrow>
     unit trc_result \<times> 'db" where
  "store_delete_documents eng env s subspace account_id collection collection_offset doc_ids db =
     (case store_iterate eng s (documents_range subspace account_id collection collection_offset)
         (collect_document_key collection collection_offset doc_ids) [] db of
        Inl e \<Rightarrow> (Inl e, db)
      | Inr delete_keys \<Rightarrow> clear_keys eng env s subspace delete_keys [] db)"

subsection \<open>What the operations do\<close>

text \<open>In a sorted vector the search finds exactly the items.\<close>

lemma search_base_spec:
  "\<lbrakk>sorted xs; 0 < n; base + n \<le> length xs; x \<in> set (take n (drop base xs))\<rbrakk> \<Longrightarrow>
   xs ! search_base xs x base n = x"
proof (induction xs x base n rule: search_base.induct)
  case (1 xs x base n)
  show ?case
  proof (cases "1 < n")
    case False
    with 1(3) have "n = 1" by simp
    then show ?thesis using 1(4,5) by (simp add: search_base.simps take_Suc hd_drop_conv_nth)
  next
    case True
    let ?m = "base + n div 2"
    have m: "n div 2 < n" "0 < n div 2" using True by auto
    from 1(5) obtain i where i: "i < n" "x = xs ! (base + i)" using 1(4) by (auto simp: in_set_conv_nth)
    show ?thesis
    proof (cases "x < xs ! ?m")
      case True
      have "i < n div 2"
      proof (rule ccontr)
        assume "\<not> i < n div 2"
        then have "xs ! ?m \<le> xs ! (base + i)" using 1(2,4) i(1) by (intro sorted_nth_mono) auto
        with True i(2) show False by simp
      qed
      then have "x \<in> set (take (n - n div 2) (drop base xs))"
        using i 1(4) by (auto simp: in_set_conv_nth intro!: exI [of _ i])
      then show ?thesis using 1(1) [OF \<open>1 < n\<close> refl refl] 1(2,4) True m
        by (simp add: search_base.simps [of xs x base n] Let_def \<open>1 < n\<close> [unfolded One_nat_def])
    next
      case False
      have "x \<in> set (take (n - n div 2) (drop ?m xs))"
      proof (cases "n div 2 \<le> i")
        case True
        then show ?thesis
          using i 1(4) by (auto simp: in_set_conv_nth intro!: exI [of _ "i - n div 2"])
      next
        case 2: False
        then have "xs ! (base + i) \<le> xs ! ?m" using 1(2,4) m by (intro sorted_nth_mono) auto
        with False i(2) have "x = xs ! ?m" by simp
        then show ?thesis using 1(4) m by (auto simp: in_set_conv_nth intro!: exI [of _ 0])
      qed
      then show ?thesis using 1(1) [OF \<open>1 < n\<close> refl refl] 1(2,4) False m
        by (simp add: search_base.simps [of xs x base n] Let_def \<open>1 < n\<close> [unfolded One_nat_def])
    qed
  qed
qed

lemma search_base_less: "0 < n \<Longrightarrow> base + n \<le> length xs \<Longrightarrow> search_base xs x base n < length xs"
proof (induction xs x base n rule: search_base.induct)
  case (1 xs x base n)
  then show ?case by (subst search_base.simps) (auto simp: Let_def)
qed

lemma binary_search_iff: "sorted xs \<Longrightarrow> binary_search xs x \<longleftrightarrow> x \<in> set xs"
  using search_base_spec [of xs "length xs" 0 x] nth_mem [OF search_base_less [of "length xs" 0 xs x]]
  by (cases "xs = []") (auto simp: binary_search_def)

text \<open>A range deletion on the tables.\<close>

definition in_range :: "key \<times> key \<Rightarrow> u8 \<Rightarrow> bytes \<Rightarrow> bool" where
  "in_range r t k \<longleftrightarrow> t = key_subspace (fst r) \<and> key_bytes (fst r) \<le> k \<and> k < key_bytes (snd r)"

lemma account_range:
  assumes "a \<noteq> u32_MAX" and "4 \<le> length k"
  shows "be_u32 a \<le> k \<and> k < be_u32 (a + 1) \<longleftrightarrow> prefix (be_u32 a) k"
proof -
  define b where "b = from_be_u32 (take 4 k)"
  then have k: "k = be_u32 b @ drop 4 k" using assms(2) by (simp add: be_from_be_u32)
  have "be_u32 a @ [] \<le> be_u32 b @ drop 4 k \<longleftrightarrow> a \<le> b" by (simp only: be_append_le) auto
  moreover have "be_u32 b @ drop 4 k < be_u32 (a + 1) @ [] \<longleftrightarrow> b < a + 1"
    by (simp only: be_append_less) auto
  moreover have "b < a + 1 \<longleftrightarrow> b \<le> a"
    using assms(1) by (simp add: word_less_nat_alt word_le_nat_alt unat_Suc_u32 less_Suc_eq_le)
  moreover have "prefix (be_u32 a) (be_u32 b @ drop 4 k) \<longleftrightarrow> a = b"
    by (auto simp: prefix_def)
  ultimately show ?thesis by (subst (1 2 3) k) auto
qed

text \<open>The keys that \<open>delete_documents\<close> removes.\<close>

definition doc_selected :: "u8 \<Rightarrow> nat option \<Rightarrow> doc_set \<Rightarrow> bytes \<Rightarrow> bool" where
  "doc_selected collection collection_offset doc_ids k \<longleftrightarrow>
     (case collection_offset of
        None \<Rightarrow> True
      | Some offset \<Rightarrow> nth_opt k (usize_sub (usize_sub (length k) U32_LEN) offset) = Some collection) \<and>
     (case deserialize_be_u32 k (usize_sub (length k) U32_LEN) of
        Inr d \<Rightarrow> ds_contains doc_ids d | Inl _ \<Rightarrow> False)"

lemma collect_document_key_Inr:
  "collect_document_key c off doc_ids k v ks = Inr (go_on, ks') \<Longrightarrow>
    go_on \<and> ks' = ks @ filter (doc_selected c off doc_ids) [k]"
  by (auto simp: collect_document_key_def doc_selected_def rbind_Inr_iff split: if_splits option.splits)

lemma collect_document_keys:
  "run_callback (collect_document_key c off doc_ids) kvs ks = Inr ks' \<Longrightarrow>
    ks' = ks @ filter (doc_selected c off doc_ids) (map fst kvs)"
proof (induction kvs arbitrary: ks)
  case (Cons kv kvs)
  obtain k v where kv: "kv = (k, v)" by (cases kv)
  with Cons.prems obtain go_on ks1 where c: "collect_document_key c off doc_ids k v ks = Inr (go_on, ks1)"
    and r: "(if go_on then run_callback (collect_document_key c off doc_ids) kvs ks1 else Inr ks1) = Inr ks'"
    by (auto simp: rbind_Inr_iff)
  from Cons.IH [of ks1] r collect_document_key_Inr [OF c] kv show ?case by simp
qed simp

text \<open>A callback that collects one item of each row.\<close>

lemma run_callback_collect:
  assumes "\<And>k v s. cb k v s = rbind (f k v) (\<lambda>xs. Inr (True, s @ xs))"
  shows "run_callback cb kvs s = Inr s' \<Longrightarrow>
    \<exists>xss. list_all2 (\<lambda>(k, v) xs. f k v = Inr xs) kvs xss \<and> s' = s @ concat xss"
proof (induction kvs arbitrary: s)
  case (Cons kv kvs)
  obtain k v where kv: "kv = (k, v)" by (cases kv)
  with Cons.prems obtain xs where f: "f k v = Inr xs" and r: "run_callback cb kvs (s @ xs) = Inr s'"
    by (auto simp: assms [of k v s] rbind_Inr_iff)
  from Cons.IH [OF r] obtain xss where "list_all2 (\<lambda>(k, v) xs. f k v = Inr xs) kvs xss" "s' = s @ xs @ concat xss"
    by auto
  then show ?case using f kv by (intro exI [of _ "xs # xss"]) simp
qed simp

lemma list_all2_concat:
  assumes "list_all2 (\<lambda>(k, v) xs. f k v = Inr xs) kvs xss"
  shows "x \<in> set (concat xss) \<longleftrightarrow> (\<exists>k v xs. (k, v) \<in> set kvs \<and> f k v = Inr xs \<and> x \<in> set xs)"
  using assms by (induction rule: list_all2_induct) auto

lemma list_all2_ok:
  assumes "list_all2 (\<lambda>(k, v) xs. f k v = Inr xs) kvs xss" and "(k, v) \<in> set kvs"
  shows "\<exists>xs. f k v = Inr xs"
  using assms by (induction rule: list_all2_induct) auto

text \<open>Tables without some rows.\<close>

definition without :: "tables \<Rightarrow> (u8 \<times> bytes) set \<Rightarrow> tables" where
  "without R P = (\<lambda>t k. if (t, k) \<in> P then None else R t k)"

lemma without_simps [simp]:
  "without R {} = R"
  "without (without R P) Q = without R (P \<union> Q)"
  by (auto simp: without_def fun_eq_iff)

lemma without_present: "without R P = without R {(t, k). (t, k) \<in> P \<and> R t k \<noteq> None}"
  by (auto simp: without_def fun_eq_iff)

lemma tbl_put_None: "tbl_put R t k None = without R {(t, k)}"
  by (auto simp: without_def fun_eq_iff tbl_put_apply)

context sqlite_engine
begin

lemma store_iterate_run:
  "store_iterate eng s p cb st db = Inr st' \<Longrightarrow> run_callback cb (entries (view db) p) st = Inr st'"
  using iterate_run by (auto simp: store_iterate_def split: store.splits)

lemma store_write_view:
  "store_write eng env s ops db = (Inr ids, db') \<Longrightarrow>
    \<exists>st. ids = ws_result st \<and> ops_steps (we_hash env) ops (write_state_new, view db) (st, view db')"
  "store_write eng env s ops db = (Inl e, db') \<Longrightarrow> view db' = view db"
  using write_success write_error_unchanged by (auto simp: store_write_def split: store.splits)

lemma store_get_bitmap_view:
  "store_get_bitmap eng s k db = Inr r \<Longrightarrow> bitmap_ids r = bitmap_documents (view db) k \<and> r \<noteq> Some {}"
  using get_bitmap_view by (auto simp: store_get_bitmap_def split: store.splits)

lemma store_delete_range_view:
  "store_delete_range eng s from to db = (Inr u, db') \<Longrightarrow>
    view db' t k = (if in_range (from, to) t k then None else view db t k)"
  using delete_range_view by (auto simp: store_delete_range_def in_range_def split: store.splits)

lemma delete_ranges_view:
  "delete_ranges eng s rs db = (Inr u, db') \<Longrightarrow>
    view db' t k = (if \<exists>r \<in> set rs. in_range r t k then None else view db t k)"
proof (induction rs arbitrary: db)
  case (Cons r rs)
  obtain a b where r: "r = (a, b)" by (cases r)
  with Cons.prems obtain db1 where db1: "store_delete_range eng s a b db = (Inr (), db1)"
    and rest: "delete_ranges eng s rs db1 = (Inr u, db')"
    by (auto split: prod.splits sum.splits)
  show ?case using Cons.IH [OF rest] store_delete_range_view [OF db1] r by auto
qed simp

lemma bitmaps_intersection_exact:
  "bitmaps_intersection eng s ks result db = Inr r \<Longrightarrow> ks \<noteq> [] \<or> result \<noteq> None \<Longrightarrow>
    bitmap_ids r = (case result of None \<Rightarrow> UNIV | Some bm \<Rightarrow> bm) \<inter> (\<Inter>k \<in> set ks. bitmap_documents (view db) k)"
proof (induction ks arbitrary: result)
  case Nil
  then show ?case by (auto simp: bitmap_ids_def)
next
  case (Cons k ks)
  then obtain bm where bm: "store_get_bitmap eng s k db = Inr bm" by (auto simp: rbind_Inr_iff)
  note v = store_get_bitmap_view [OF bm]
  show ?case
  proof (cases bm)
    case None
    then show ?thesis using Cons.prems(1) bm v by (auto simp: bitmap_ids_def)
  next
    case (Some b)
    then show ?thesis
      using Cons.prems(1) bm v Cons.IH [of "Some b"] Cons.IH [of "Some (the result \<inter> b)"]
      by (auto simp: bitmap_ids_def split: option.splits if_splits)
  qed
qed

lemma clear_ops_view:
  "ops_steps h (map (clear_op subspace) ks) (st, R) (st', R') \<Longrightarrow>
    R' t k = (if t = subspace \<and> k \<in> set ks then None else R t k)"
proof (induction ks arbitrary: R)
  case (Cons k' ks)
  then have "ops_steps h (map (clear_op subspace) ks)
      (st, tbl_put R subspace k' None) (st', R')"
    by (auto simp: clear_op_def [of _ k'] value_class_key_def value_class_serialize_def value_subspace_def
        elim!: ops_steps_consE op_step_valueE)
  from Cons.IH [OF this] show ?case by (auto simp: tbl_put_apply)
qed (auto elim: ops_steps_nilE)

lemma clear_keys_view:
  "clear_keys eng env s subspace ks (map (clear_op subspace) ps) db = (Inr u, db') \<Longrightarrow>
    view db' t k = (if t = subspace \<and> k \<in> set ps \<union> set ks then None else view db t k)"
proof (induction ks arbitrary: ps db)
  case Nil
  show ?case
  proof (cases "ps = []")
    case True
    then show ?thesis using Nil by (simp add: batch_is_empty_def)
  next
    case False
    then have "\<not> batch_is_empty (map (clear_op subspace) ps)"
      by (cases ps) (simp_all add: batch_is_empty_def clear_op_def)
    then obtain ids where "store_write eng env s (map (clear_op subspace) ps) db = (Inr ids, db')"
      using Nil by (auto split: prod.splits sum.splits)
    from store_write_view(1) [OF this] show ?thesis using clear_ops_view by fastforce
  qed
next
  case (Cons k' ks)
  show ?case
  proof (cases "1000 \<le> length ps")
    case True
    with Cons.prems obtain ids db1 where
      w: "store_write eng env s (map (clear_op subspace) ps) db = (Inr ids, db1)"
      and rest: "clear_keys eng env s subspace ks (map (clear_op subspace) [k']) db1 = (Inr u, db')"
      by (auto split: prod.splits sum.splits)
    from store_write_view(1) [OF w] have "view db1 t k = (if t = subspace \<and> k \<in> set ps then None else view db t k)"
      using clear_ops_view by fastforce
    then show ?thesis using Cons.IH [OF rest] by auto
  next
    case False
    with Cons.prems have "clear_keys eng env s subspace ks (map (clear_op subspace) (ps @ [k'])) db = (Inr u, db')"
      by simp
    from Cons.IH [OF this] show ?thesis by auto
  qed
qed

lemma finite_keys_between: "finite (keys_between (view db) t b e)"
  using finite_view [of db t] by (rule finite_subset [rotated]) (auto simp: keys_between_def)

lemma entries_rows:
  "\<not> ip_first p \<Longrightarrow> set (entries (view db) p) = entry (view db) (ip_values p) (key_subspace (ip_begin p)) `
    keys_between (view db) (key_subspace (ip_begin p)) (key_bytes (ip_begin p)) (key_bytes (ip_end p))"
  by (simp add: entries_def range_keys_def Let_def finite_keys_between)

lemma entries_keys:
  "\<not> ip_first p \<Longrightarrow> set (map fst (entries (view db) p)) =
    keys_between (view db) (key_subspace (ip_begin p)) (key_bytes (ip_begin p)) (key_bytes (ip_end p))"
  by (simp add: entries_rows image_image entry_def)

lemma iterate_collect:
  assumes cb: "\<And>k v s. cb k v s = rbind (f k v) (\<lambda>xs. Inr (True, s @ xs))" and "\<not> ip_first p"
    and "store_iterate eng s p cb [] db = Inr items"
  defines "t \<equiv> key_subspace (ip_begin p)"
  defines "K \<equiv> keys_between (view db) t (key_bytes (ip_begin p)) (key_bytes (ip_end p))"
  shows "x \<in> set items \<longleftrightarrow>
      (\<exists>k \<in> K. \<exists>xs. f k (snd (entry (view db) (ip_values p) t k)) = Inr xs \<and> x \<in> set xs)"
    and "k \<in> K \<Longrightarrow> \<exists>xs. f k (snd (entry (view db) (ip_values p) t k)) = Inr xs"
proof -
  from run_callback_collect [OF cb store_iterate_run [OF assms(3)]] obtain xss where
    xss: "list_all2 (\<lambda>(k, v) xs. f k v = Inr xs) (entries (view db) p) xss" "items = concat xss" by auto
  note rows = entries_rows [OF assms(2), of db, folded t_def, folded K_def]
  have rows: "(k, v) \<in> set (entries (view db) p) \<longleftrightarrow> k \<in> K \<and> v = snd (entry (view db) (ip_values p) t k)" for k v
    unfolding rows by (auto simp: entry_def)
  show "x \<in> set items \<longleftrightarrow>
      (\<exists>k \<in> K. \<exists>xs. f k (snd (entry (view db) (ip_values p) t k)) = Inr xs \<and> x \<in> set xs)"
    unfolding xss(2) list_all2_concat [OF xss(1)] rows by blast
  show "k \<in> K \<Longrightarrow> \<exists>xs. f k (snd (entry (view db) (ip_values p) t k)) = Inr xs"
    using list_all2_ok [OF xss(1)] rows by blast
qed

lemma delete_documents_view:
  assumes "store_delete_documents eng env s t account_id c off doc_ids db = (Inr u, db')"
    and "p = documents_range t account_id c off"
  shows "view db' t' k = (if t' = t \<and> key_bytes (ip_begin p) \<le> k \<and> k \<le> key_bytes (ip_end p) \<and>
      doc_selected c off doc_ids k then None else view db t' k)"
proof -
  from assms obtain ks where it: "store_iterate eng s p (collect_document_key c off doc_ids) [] db = Inr ks"
    and cl: "clear_keys eng env s t ks (map (clear_op t) []) db = (Inr u, db')"
    by (auto simp: store_delete_documents_def split: sum.splits)
  have p: "\<not> ip_first p" "key_subspace (ip_begin p) = t"
    by (auto simp: assms(2) documents_range_def no_values_def iterate_params_new_def key_of_any_def)
  have "set ks = {k \<in> keys_between (view db) t (key_bytes (ip_begin p)) (key_bytes (ip_end p)).
      doc_selected c off doc_ids k}"
    using collect_document_keys [OF store_iterate_run [OF it]] entries_keys [OF p(1), of db] p(2) by auto
  then show ?thesis using clear_keys_view [OF cl, of t' k] by (auto simp: keys_between_def)
qed

end

text \<open>An ascending scan lists its keys in order.\<close>

lemma scan_keys:
  assumes "sqlite_engine eng view saved" and "\<not> ip_first p" and "ip_ascending p"
  shows "sorted_wrt (<) (map fst (entries (view db) p))"
proof -
  let ?K = "keys_between (view db) (key_subspace (ip_begin p)) (key_bytes (ip_begin p)) (key_bytes (ip_end p))"
  have "map fst (entries (view db) p) = sorted_list_of_set ?K"
    using assms(2,3) by (simp add: entries_def range_keys_def entry_def comp_def)
  then show ?thesis by simp
qed

subsection \<open>Properties\<close>

text \<open>C10: the intersection of the bitmaps of some keys holds the documents that every one of the
  keys has, although the loop stops as soon as nothing is left or a key has no document.\<close>

theorem bitmaps_intersection_sound:
  assumes "sqlite_engine eng view saved" and "ks \<noteq> []"
    and "store_get_bitmaps_intersection eng s ks db = Inr r"
  shows "bitmap_ids r = (\<Inter>k \<in> set ks. bitmap_documents (view db) k)"
  using sqlite_engine.bitmaps_intersection_exact [OF assms(1), of s ks None db r] assms(2,3)
  by (simp add: store_get_bitmaps_intersection_def)

theorem bitmaps_intersection_sound_witness:
  "bitmap_ids (Some {5}) = (\<Inter>k \<in> set
      [\<lparr>bk_account_id = 1, bk_collection = 2, bk_class = DocumentIds, bk_document_id = 0\<rparr>,
       \<lparr>bk_account_id = 1, bk_collection = 2, bk_class = Tag 7 (TagId 1), bk_document_id = 0\<rparr>].
    bitmap_documents (mem_view (mem_start
     [((SUBSPACE_BITMAP_ID, [0, 0, 0, 1, 2, 0, 0, 0, 3]), SqlNull),
      ((SUBSPACE_BITMAP_ID, [0, 0, 0, 1, 2, 0, 0, 0, 5]), SqlNull),
      ((SUBSPACE_BITMAP_TAG, [0, 0, 0, 1, 2, 7, 1, 0, 0, 0, 5]), SqlNull)])) k)"
  by (rule bitmaps_intersection_sound [OF mem.sqlite_engine_axioms, of _ SQLite]; code_simp)

lemma u32_less_Suc: "a \<noteq> u32_MAX \<Longrightarrow> (b :: u32) < a + 1 \<longleftrightarrow> b \<le> a"
  by (simp add: word_less_nat_alt word_le_nat_alt unat_Suc_u32 less_Suc_eq_le)

lemmas purge_range_defs = purge_account_ranges_def in_range_def key_of_any_def serialize_any_key_def
  key_of_value_def value_key_property_def value_class_serialize_def value_subspace_def

text \<open>C13: purging an account removes every row of the account from the tables of bitmaps, logs,
  indexes and properties, and no row of another account from them.\<close>

theorem purge_account_exact:
  assumes "sqlite_engine eng view saved" and "store_purge_account eng s a db = (Inr u, db')"
    and "a \<noteq> u32_MAX"
  shows "(t \<in> {SUBSPACE_BITMAP_ID, SUBSPACE_BITMAP_TAG, SUBSPACE_BITMAP_TEXT, SUBSPACE_LOGS, SUBSPACE_INDEXES} \<longrightarrow>
      4 \<le> length k \<longrightarrow> view db' t k = (if prefix (be_u32 a) k then None else view db t k)) \<and>
    (pk = key_of_value (value_key_property b c d f) \<longrightarrow> key_subspace pk = SUBSPACE_PROPERTY \<longrightarrow>
      view db' SUBSPACE_PROPERTY (key_bytes pk) =
        (if a = b then None else view db SUBSPACE_PROPERTY (key_bytes pk)))"
proof -
  note v = sqlite_engine.delete_ranges_view [OF assms(1) assms(2) [unfolded store_purge_account_def]]
  show ?thesis
  proof (intro conjI impI)
    assume t: "t \<in> {SUBSPACE_BITMAP_ID, SUBSPACE_BITMAP_TAG, SUBSPACE_BITMAP_TEXT, SUBSPACE_LOGS, SUBSPACE_INDEXES}"
      and "4 \<le> length k"
    then have "(\<exists>r \<in> set (purge_account_ranges a). in_range r t k) \<longleftrightarrow> prefix (be_u32 a) k"
      using account_range [OF assms(3), of k] by (auto simp: purge_range_defs subspace_defs)
    then show "view db' t k = (if prefix (be_u32 a) k then None else view db t k)" using v by simp
  next
    assume pk: "pk = key_of_value (value_key_property b c d f)" "key_subspace pk = SUBSPACE_PROPERTY"
    then have "(\<exists>r \<in> set (purge_account_ranges a). in_range r SUBSPACE_PROPERTY (key_bytes pk)) \<longleftrightarrow> a = b"
      using u32_less_Suc [OF assms(3), of b] by (auto simp: purge_range_defs subspace_defs word_gt_0)
    then show "view db' SUBSPACE_PROPERTY (key_bytes pk) =
        (if a = b then None else view db SUBSPACE_PROPERTY (key_bytes pk))" using v by simp
  qed
qed

lemma mem_purge_account:
  "store_purge_account mem_engine SQLite a db = (Inr (), snd (store_purge_account mem_engine SQLite a db))"
  by (simp add: store_purge_account_def purge_account_ranges_def store_delete_range_def
      sqlite_delete_range_def exec_ok_def mem_engine_def mem_set_def)

theorem purge_account_exact_witness:
  "mem_view (snd (store_purge_account mem_engine SQLite 1 (mem_start
      [((SUBSPACE_LOGS, [0, 0, 0, 1, 2]), SqlNull), ((SUBSPACE_LOGS, [0, 0, 0, 2, 2]), SqlNull)])))
    SUBSPACE_LOGS [0, 0, 0, 1, 2] = None"
proof -
  have "prefix (be_u32 1) [0, 0, 0, 1, 2]" by code_simp
  then show ?thesis
    using purge_account_exact [OF mem.sqlite_engine_axioms mem_purge_account, of 1 SUBSPACE_LOGS "[0, 0, 0, 1, 2]"]
    by simp
qed

text \<open>C17: purging an account also removes rows that are not the account's: entries of the full-text
  index of the next account (all whose hash begins with a byte below 255), and grants that accounts
  up to the purged one made to the next account. Grants made to the account by accounts below it
  are kept.\<close>

theorem purge_account_overreach:
  assumes "sqlite_engine eng view saved" and "store_purge_account eng s a db = (Inr u, db')"
    and "a \<noteq> u32_MAX" and "wf_hash h" and "0 < bh_len h" and "hd (bh_hash h) < 255" and "b \<le> a" and "b' < a"
  shows "view db' SUBSPACE_FTS_INDEX (key_bytes (key_of_value \<lparr>vk_account_id = a + 1, vk_collection = c,
      vk_document_id = d, vk_class = FtsIndex h\<rparr>)) = None \<and>
    view db' SUBSPACE_ACL (key_bytes (key_of_value \<lparr>vk_account_id = b, vk_collection = c,
      vk_document_id = d, vk_class = Acl (a + 1)\<rparr>)) = None \<and>
    (let k = key_bytes (key_of_value \<lparr>vk_account_id = b', vk_collection = c, vk_document_id = d,
       vk_class = Acl a\<rparr>) in view db' SUBSPACE_ACL k = view db SUBSPACE_ACL k)"
proof -
  note v = sqlite_engine.delete_ranges_view [OF assms(1) assms(2) [unfolded store_purge_account_def]]
  obtain x ys where h: "bh_hash h = x # ys" using assms(4) by (cases "bh_hash h") (auto simp: wf_hash_def)
  have "0 < unat (bh_len h)" using assms(5) by (simp add: word_less_nat_alt)
  then have "\<exists>xs. hash_prefix h = x # xs"
    by (cases "unat (bh_len h)") (simp_all add: hash_prefix_wf [OF assms(4)] h)
  then obtain xs where x: "hash_prefix h = x # xs" "x < 255" using assms(6) h by auto
  have a: "a < a + 1" "b < a + 1" "\<not> a + 1 \<le> a" "b' < a + 1"
    using u32_less_Suc [OF assms(3)] assms(7,8) by auto
  have ends: "hash_prefix \<lparr>bh_hash = replicate 8 0, bh_len = 0\<rparr> = []"
    "hash_prefix \<lparr>bh_hash = replicate 8 u8_MAX, bh_len = u8_MAX\<rparr> = 255 # replicate 8 255"
    by code_simp+
  have fts: "\<exists>r \<in> set (purge_account_ranges a). in_range r SUBSPACE_FTS_INDEX
      (key_bytes (key_of_value \<lparr>vk_account_id = a + 1, vk_collection = c,
        vk_document_id = d, vk_class = FtsIndex h\<rparr>))"
    using a x by (auto simp: purge_range_defs subspace_defs ends)
  have acl: "\<exists>r \<in> set (purge_account_ranges a). in_range r SUBSPACE_ACL
      (key_bytes (key_of_value \<lparr>vk_account_id = b, vk_collection = c,
        vk_document_id = d, vk_class = Acl (a + 1)\<rparr>))"
    using a by (auto simp: purge_range_defs subspace_defs)
  have "\<not> (\<exists>r \<in> set (purge_account_ranges a). in_range r SUBSPACE_ACL
      (key_bytes (key_of_value \<lparr>vk_account_id = b', vk_collection = c,
        vk_document_id = d, vk_class = Acl a\<rparr>)))"
    using assms(8) by (auto simp: purge_range_defs subspace_defs)
  with v fts acl show ?thesis by (auto simp: Let_def)
qed

theorem purge_account_overreach_witness:
  "mem_view (snd (store_purge_account mem_engine SQLite 1 (mem_start
      [((SUBSPACE_FTS_INDEX, key_bytes (key_of_value \<lparr>vk_account_id = 1 + 1, vk_collection = 0,
          vk_document_id = 9, vk_class = FtsIndex \<lparr>bh_hash = [65, 0, 0, 0, 0, 0, 0, 0], bh_len = 1\<rparr>\<rparr>)), SqlBlob [])])))
    SUBSPACE_FTS_INDEX (key_bytes (key_of_value \<lparr>vk_account_id = 1 + 1, vk_collection = 0,
          vk_document_id = 9, vk_class = FtsIndex \<lparr>bh_hash = [65, 0, 0, 0, 0, 0, 0, 0], bh_len = 1\<rparr>\<rparr>)) = None"
proof -
  have "wf_hash \<lparr>bh_hash = [65, 0, 0, 0, 0, 0, 0, 0], bh_len = 1\<rparr>" by code_simp
  from purge_account_overreach [OF mem.sqlite_engine_axioms mem_purge_account _ this, of 1 1 0 _ 0 9]
  show ?thesis by simp
qed

text \<open>Purging the store removes the reports received whose expiry is past, of each of the three
  kinds, and the counters and quotas that are zero, and nothing else.\<close>

theorem purge_store_exact:
  assumes "sqlite_engine eng view saved" and "store_purge_store eng s now db = (Inr u, db')"
    and "kind \<in> {ReportDmarc, ReportTls, ReportArf}"
  shows "(let k = key_bytes (report_key (kind i expires)) in
      view db' SUBSPACE_REPORT_IN k = (if expires < now \<or> expires = now \<and> i < u64_MAX then None
        else view db SUBSPACE_REPORT_IN k)) \<and>
    (t \<in> {SUBSPACE_QUOTA, SUBSPACE_COUNTER} \<longrightarrow>
      view db' t k = (if view db t k = Some (SqlInt 0) then None else view db t k)) \<and>
    (t \<notin> {SUBSPACE_REPORT_IN, SUBSPACE_QUOTA, SUBSPACE_COUNTER} \<longrightarrow> view db' t k = view db t k)"
proof -
  let ?rs = "[(report_key (ReportDmarc 0 0), report_key (ReportDmarc u64_MAX now)),
          (report_key (ReportTls 0 0), report_key (ReportTls u64_MAX now)),
          (report_key (ReportArf 0 0), report_key (ReportArf u64_MAX now))]"
  from assms(2) obtain db1 where d: "delete_ranges eng s ?rs db = (Inr (), db1)"
    and p: "sqlite_purge_store eng db1 = (Inr u, db')"
    by (auto simp: store_purge_store_def split: prod.splits sum.splits store.splits)
  define D where "D t k \<longleftrightarrow> (\<exists>r \<in> set ?rs. in_range r t k)" for t k
  note v1 = sqlite_engine.delete_ranges_view [OF assms(1) d, folded D_def]
  note v2 = sqlite_engine.purge_store_view [OF assms(1) p]
  have r: "D SUBSPACE_REPORT_IN (key_bytes (report_key (kind i expires))) \<longleftrightarrow>
      expires < now \<or> expires = now \<and> i < u64_MAX"
    using assms(3) by (elim insertE) (simp_all add: D_def report_key_def value_key_from_class_def in_range_def
        key_of_value_def value_class_serialize_def value_subspace_def word_gt_0)
  have o: "\<not> D t k" if "t \<noteq> SUBSPACE_REPORT_IN" for t k
    using that by (auto simp: D_def report_key_def value_key_from_class_def in_range_def key_of_value_def value_subspace_def)
  have "SUBSPACE_REPORT_IN \<notin> {SUBSPACE_QUOTA, SUBSPACE_COUNTER}" by (simp add: subspace_defs)
  then show ?thesis unfolding Let_def by (auto simp: v1 v2 r o)
qed

theorem purge_store_exact_witness:
  "mem_view (snd (store_purge_store mem_engine SQLite 100 (mem_start
      [((SUBSPACE_REPORT_IN, key_bytes (report_key (ReportTls 7 99))), SqlBlob [])])))
    SUBSPACE_REPORT_IN (key_bytes (report_key (ReportTls 7 99))) = None"
proof -
  let ?w = "store_purge_store mem_engine SQLite 100 (mem_start
      [((SUBSPACE_REPORT_IN, key_bytes (report_key (ReportTls 7 99))), SqlBlob [])])"
  have "fst ?w = Inr ()" by code_simp
  then have "?w = (Inr (), snd ?w)" by (metis prod.collapse)
  from purge_store_exact [OF mem.sqlite_engine_axioms this, of ReportTls 7 99] show ?thesis by (simp add: Let_def)
qed

end
