(* ===== verification/Change_Log.thy ===== *)
theory Change_Log
  imports Store_Dispatch Vec_Map
begin

section \<open>The change log\<close>

text \<open>
  Models \<^verbatim>\<open>src/crates/store/src/write/log.rs\<close>, which records the changes of a batch by
  collection, and \<^verbatim>\<open>src/crates/store/src/query/log.rs\<close>, which reads a range of the log
  and condenses it. A hash set is a finite set; the order in which it is iterated, which the
  standard library leaves open, is an argument \<open>iter\<close>.
\<close>

subsection \<open>Recording changes\<close>

record changes =
  ch_inserts :: "u64 set"
  ch_updates :: "u64 set"
  ch_deletes :: "u64 set"
  ch_child_updates :: "u64 set"

definition changes_default :: changes where
  "changes_default = \<lparr>ch_inserts = {}, ch_updates = {}, ch_deletes = {}, ch_child_updates = {}\<rparr>"

record change_log_builder =
  cl_change_id :: u64
  cl_changes :: "(u8, changes) vec_map"

definition change_log_new :: change_log_builder where
  "change_log_new = \<lparr>cl_change_id = u64_MAX, cl_changes = vm_new\<rparr>"

definition change_log_with_change_id :: "u64 \<Rightarrow> change_log_builder" where
  "change_log_with_change_id change_id = \<lparr>cl_change_id = change_id, cl_changes = vm_new\<rparr>"

definition log_insert :: "change_log_builder \<Rightarrow> u8 \<Rightarrow> u64 \<Rightarrow> change_log_builder" where
  "log_insert l collection jmap_id =
     l\<lparr>cl_changes := vm_get_mut_or_insert (cl_changes l) collection changes_default
         (\<lambda>c. c\<lparr>ch_inserts := insert jmap_id (ch_inserts c)\<rparr>)\<rparr>"

definition log_update :: "change_log_builder \<Rightarrow> u8 \<Rightarrow> u64 \<Rightarrow> change_log_builder" where
  "log_update l collection jmap_id =
     l\<lparr>cl_changes := vm_get_mut_or_insert (cl_changes l) collection changes_default
         (\<lambda>c. c\<lparr>ch_updates := insert jmap_id (ch_updates c)\<rparr>)\<rparr>"

definition log_child_update :: "change_log_builder \<Rightarrow> u8 \<Rightarrow> u64 \<Rightarrow> change_log_builder" where
  "log_child_update l collection jmap_id =
     l\<lparr>cl_changes := vm_get_mut_or_insert (cl_changes l) collection changes_default
         (\<lambda>c. c\<lparr>ch_child_updates := insert jmap_id (ch_child_updates c)\<rparr>)\<rparr>"

definition log_delete :: "change_log_builder \<Rightarrow> u8 \<Rightarrow> u64 \<Rightarrow> change_log_builder" where
  "log_delete l collection jmap_id =
     l\<lparr>cl_changes := vm_get_mut_or_insert (cl_changes l) collection changes_default
         (\<lambda>c. c\<lparr>ch_deletes := insert jmap_id (ch_deletes c)\<rparr>)\<rparr>"

definition log_move :: "change_log_builder \<Rightarrow> u8 \<Rightarrow> u64 \<Rightarrow> u64 \<Rightarrow> change_log_builder" where
  "log_move l collection old_jmap_id new_jmap_id =
     l\<lparr>cl_changes := vm_get_mut_or_insert (cl_changes l) collection changes_default
         (\<lambda>c. c\<lparr>ch_deletes := insert old_jmap_id (ch_deletes c),
                ch_inserts := insert new_jmap_id (ch_inserts c)\<rparr>)\<rparr>"

text \<open>The loop over the deletions of \<open>merge\<close>: a deletion cancels an insertion that was
  recorded before.\<close>

fun merge_deletes :: "u64 list \<Rightarrow> changes \<Rightarrow> changes" where
  "merge_deletes [] this = this"
| "merge_deletes (i # is) this =
     merge_deletes is
       ((if i \<in> ch_inserts this then this\<lparr>ch_inserts := ch_inserts this - {i}\<rparr>
         else this\<lparr>ch_deletes := insert i (ch_deletes this)\<rparr>)
        \<lparr>ch_updates := ch_updates this - {i}, ch_child_updates := ch_child_updates this - {i}\<rparr>)"

definition merge_changes :: "(u64 set \<Rightarrow> u64 list) \<Rightarrow> changes \<Rightarrow> changes \<Rightarrow> changes" where
  "merge_changes iter other this =
     (let this' = merge_deletes (iter (ch_deletes other)) this
      in this'\<lparr>ch_inserts := ch_inserts this' \<union> ch_inserts other,
              ch_updates := ch_updates this' \<union> ch_updates other,
              ch_child_updates := ch_child_updates this' \<union> ch_child_updates other\<rparr>)"

definition log_merge ::
    "(u64 set \<Rightarrow> u64 list) \<Rightarrow> change_log_builder \<Rightarrow> change_log_builder \<Rightarrow> change_log_builder" where
  "log_merge iter l other =
     l\<lparr>cl_changes := fold (\<lambda>(collection, c) m. vm_get_mut_or_insert m collection changes_default (merge_changes iter c))
         (vm_into_iter (cl_changes other)) (cl_changes l)\<rparr>"

definition log_is_empty :: "change_log_builder \<Rightarrow> bool" where
  "log_is_empty l = vm_is_empty (cl_changes l)"

definition push_len_leb128 :: "nat \<Rightarrow> bytes" where
  "push_len_leb128 n = leb128 (of_nat n :: u64)"

definition serialize_changes :: "(u64 set \<Rightarrow> u64 list) \<Rightarrow> changes \<Rightarrow> bytes" where
  "serialize_changes iter c =
     push_len_leb128 (card (ch_inserts c)) @ push_len_leb128 (card (ch_updates c)) @
     push_len_leb128 (card (ch_child_updates c)) @ push_len_leb128 (card (ch_deletes c)) @
     concat (map leb128 (iter (ch_inserts c))) @ concat (map leb128 (iter (ch_updates c))) @
     concat (map leb128 (iter (ch_child_updates c))) @ concat (map leb128 (iter (ch_deletes c)))"

definition build_change_log :: "(u64 set \<Rightarrow> u64 list) \<Rightarrow> change_log_builder \<Rightarrow> batch \<Rightarrow> batch" where
  "build_change_log iter l ops =
     fold (\<lambda>(collection, c) ops. ops @ [Collection collection, Log (StaticValue (serialize_changes iter c))])
       (vm_into_iter (cl_changes l)) (batch_with_change_id ops (cl_change_id l))"

definition changes_insert :: "u64 list \<Rightarrow> changes" where
  "changes_insert ids = changes_default\<lparr>ch_inserts := set ids\<rparr>"
definition changes_update :: "u64 list \<Rightarrow> changes" where
  "changes_update ids = changes_default\<lparr>ch_updates := set ids\<rparr>"
definition changes_child_update :: "u64 list \<Rightarrow> changes" where
  "changes_child_update ids = changes_default\<lparr>ch_child_updates := set ids\<rparr>"
definition changes_delete :: "u64 list \<Rightarrow> changes" where
  "changes_delete ids = changes_default\<lparr>ch_deletes := set ids\<rparr>"

definition log_insert_with_id :: "(u64 set \<Rightarrow> u64 list) \<Rightarrow> assigned_ids \<Rightarrow> bytes trc_result" where
  "log_insert_with_id iter ids =
     rbind (last_document_id ids) (\<lambda>i. Inr (serialize_changes iter (changes_insert [ucast i])))"

subsection \<open>Reading changes\<close>

datatype change = Insert u64 | Update u64 | ChildUpdate u64 | Delete u64

fun unwrap_id :: "change \<Rightarrow> u64" where
  "unwrap_id (Insert i) = i"
| "unwrap_id (Update i) = i"
| "unwrap_id (ChildUpdate i) = i"
| "unwrap_id (Delete i) = i"

record change_list =
  cs_changes :: "change list"
  cs_from_change_id :: u64
  cs_to_change_id :: u64

definition change_list_default :: change_list where
  "change_list_default = \<lparr>cs_changes = [], cs_from_change_id = 0, cs_to_change_id = 0\<rparr>"

datatype log_query = All | Since u64 | SinceInclusive u64 | RangeInclusive u64 u64

abbreviation next_u64 :: "bytes \<Rightarrow> (u64 \<times> bytes) option" where
  "next_u64 \<equiv> next_leb128 shifts_u64"

fun read_inserts :: "nat \<Rightarrow> bytes \<Rightarrow> change list \<Rightarrow> (bytes \<times> change list) option" where
  "read_inserts 0 it cs = Some (it, cs)"
| "read_inserts (Suc n) it cs =
     (case next_u64 it of
        None \<Rightarrow> None
      | Some (i, it') \<Rightarrow> read_inserts n it' (cs @ [Insert i]))"

text \<open>The inner loop over the changes collected so far: an update of an item that is already
  listed as inserted is dropped; a listed update is moved to the end.\<close>

datatype update_scan = Already_Inserted | Moved bool "change list"

fun scan_update :: "u64 \<Rightarrow> bool \<Rightarrow> change list \<Rightarrow> update_scan" where
  "scan_update i is_child [] = Moved is_child []"
| "scan_update i is_child (c # cs) =
     (if c = Insert i then Already_Inserted
      else if c = Update i then Moved False cs
      else if c = ChildUpdate i then Moved is_child cs
      else case scan_update i is_child cs of
             Already_Inserted \<Rightarrow> Already_Inserted
           | Moved is_child' cs' \<Rightarrow> Moved is_child' (c # cs'))"

definition push_update :: "u64 \<Rightarrow> bool \<Rightarrow> change list \<Rightarrow> change list" where
  "push_update i is_child cs =
     (case scan_update i is_child cs of
        Already_Inserted \<Rightarrow> cs
      | Moved is_child' cs' \<Rightarrow> cs' @ [if \<not> is_child' then Update i else ChildUpdate i])"

text \<open>The loop over \<open>change_pos\<close>, with the number of rounds that are left.\<close>

fun read_updates :: "nat \<Rightarrow> nat \<Rightarrow> nat \<Rightarrow> bytes \<Rightarrow> change list \<Rightarrow> (bytes \<times> change list) option" where
  "read_updates 0 change_pos total_updates it cs = Some (it, cs)"
| "read_updates (Suc n) change_pos total_updates it cs =
     (case next_u64 it of
        None \<Rightarrow> None
      | Some (i, it') \<Rightarrow>
          read_updates n (Suc change_pos) total_updates it' (push_update i (total_updates \<le> change_pos) cs))"

datatype delete_scan = Cancelled "change list" | Remaining "change list"

fun scan_delete :: "u64 \<Rightarrow> change list \<Rightarrow> delete_scan" where
  "scan_delete i [] = Remaining []"
| "scan_delete i (c # cs) =
     (if c = Insert i then Cancelled cs
      else if c = Update i \<or> c = ChildUpdate i then Remaining cs
      else case scan_delete i cs of
             Cancelled cs' \<Rightarrow> Cancelled (c # cs')
           | Remaining cs' \<Rightarrow> Remaining (c # cs'))"

definition push_delete :: "u64 \<Rightarrow> change list \<Rightarrow> change list" where
  "push_delete i cs =
     (case scan_delete i cs of Cancelled cs' \<Rightarrow> cs' | Remaining cs' \<Rightarrow> cs' @ [Delete i])"

fun read_deletes :: "nat \<Rightarrow> bytes \<Rightarrow> change list \<Rightarrow> (bytes \<times> change list) option" where
  "read_deletes 0 it cs = Some (it, cs)"
| "read_deletes (Suc n) it cs =
     (case next_u64 it of
        None \<Rightarrow> None
      | Some (i, it') \<Rightarrow> read_deletes n it' (push_delete i cs))"

definition deserialize_changes :: "bytes \<Rightarrow> change list \<Rightarrow> change list option" where
  "deserialize_changes bs cs =
     (case next_u64 bs of None \<Rightarrow> None | Some (total_inserts, it1) \<Rightarrow>
     (case next_u64 it1 of None \<Rightarrow> None | Some (total_updates, it2) \<Rightarrow>
     (case next_u64 it2 of None \<Rightarrow> None | Some (total_child_updates, it3) \<Rightarrow>
     (case next_u64 it3 of None \<Rightarrow> None | Some (total_deletes, it4) \<Rightarrow>
     (case read_inserts (unat total_inserts) it4 cs of None \<Rightarrow> None | Some (it5, cs1) \<Rightarrow>
     (case read_updates (unat (total_updates + total_child_updates)) 0 (unat total_updates) it5 cs1 of
        None \<Rightarrow> None | Some (it6, cs2) \<Rightarrow>
     (case read_deletes (unat total_deletes) it6 cs2 of None \<Rightarrow> None | Some (it7, cs3) \<Rightarrow> Some cs3)))))))"

definition query_bounds :: "log_query \<Rightarrow> bool \<times> u64 \<times> u64" where
  "query_bounds q =
     (case q of
        All \<Rightarrow> (True, 0, u64_MAX)
      | Since change_id \<Rightarrow> (False, change_id, u64_MAX)
      | SinceInclusive change_id \<Rightarrow> (True, change_id, u64_MAX)
      | RangeInclusive from_change_id to_change_id \<Rightarrow> (True, from_change_id, to_change_id))"

definition log_range :: "u32 \<Rightarrow> u8 \<Rightarrow> u64 \<Rightarrow> u64 \<Rightarrow> iterate_params" where
  "log_range account_id collection from_change_id to_change_id =
     iterate_params_new
       (key_of_log \<lparr>lk_account_id = account_id, lk_collection = collection, lk_change_id = from_change_id\<rparr>)
       (key_of_log \<lparr>lk_account_id = account_id, lk_collection = collection, lk_change_id = to_change_id\<rparr>)"

definition collect_changes :: "bool \<Rightarrow> u64 \<Rightarrow> change_list callback" where
  "collect_changes is_inclusive from_change_id k v l =
     rbind (deserialize_be_u64 k (usize_sub (length k) U64_LEN)) (\<lambda>change_id.
       if is_inclusive \<or> change_id \<noteq> from_change_id then
         (let l' = (if cs_changes l = [] then l\<lparr>cs_from_change_id := change_id\<rparr> else l)
                   \<lparr>cs_to_change_id := change_id\<rparr>
          in rbind (ok_or DataCorruption (deserialize_changes v (cs_changes l'))) (\<lambda>cs.
               Inr (True, l'\<lparr>cs_changes := cs\<rparr>)))
       else Inr (True, l))"

definition store_changes ::
    "'db sql_engine \<Rightarrow> store \<Rightarrow> u32 \<Rightarrow> u8 \<Rightarrow> log_query \<Rightarrow> 'db \<Rightarrow> change_list trc_result" where
  "store_changes eng s account_id collection q db =
     (let (is_inclusive, from_change_id, to_change_id) = query_bounds q
      in rbind (store_iterate eng s (ascending (log_range account_id collection from_change_id to_change_id))
             (collect_changes is_inclusive from_change_id) change_list_default db) (\<lambda>l.
           Inr (if cs_changes l = [] then
                  l\<lparr>cs_from_change_id := from_change_id,
                    cs_to_change_id := if to_change_id \<noteq> u64_MAX then to_change_id else from_change_id\<rparr>
                else l)))"

definition last_change_callback :: "u64 option callback" where
  "last_change_callback k v last_change_id =
     rbind (deserialize_be_u64 k (usize_sub (length k) U64_LEN)) (\<lambda>i. Inr (False, Some i))"

definition store_get_last_change_id ::
    "'db sql_engine \<Rightarrow> store \<Rightarrow> u32 \<Rightarrow> u8 \<Rightarrow> 'db \<Rightarrow> u64 option trc_result" where
  "store_get_last_change_id eng s account_id collection db =
     store_iterate eng s (only_first (no_values (descending (log_range account_id collection 0 u64_MAX))))
       last_change_callback None db"

subsection \<open>What was recorded is read\<close>

definition iterates :: "(u64 set \<Rightarrow> u64 list) \<Rightarrow> bool" where
  "iterates iter \<longleftrightarrow> (\<forall>S. set (iter S) = S \<and> distinct (iter S))"

lemma length_iter: "iterates iter \<Longrightarrow> length (iter S) = card S"
  by (metis iterates_def distinct_card)

text \<open>Counts of a record that fit the machine.\<close>

definition changes_fit :: "changes \<Rightarrow> bool" where
  "changes_fit c \<longleftrightarrow> card (ch_inserts c) < 2 ^ 64 \<and> card (ch_deletes c) < 2 ^ 64 \<and>
     card (ch_updates c) + card (ch_child_updates c) < 2 ^ 64"

lemma read_inserts_items:
  "read_inserts (length is) (concat (map leb128 is) @ rest) cs = Some (rest, cs @ map Insert is)"
  by (induction "is" arbitrary: cs) simp_all

lemma read_deletes_items:
  "read_deletes (length is) (concat (map leb128 is) @ rest) cs = Some (rest, fold push_delete is cs)"
  by (induction "is" arbitrary: cs) simp_all

lemma read_updates_children:
  "u \<le> p \<Longrightarrow> read_updates (length is) p u (concat (map leb128 is) @ rest) cs =
     Some (rest, fold (\<lambda>i. push_update i True) is cs)"
  by (induction "is" arbitrary: cs p) simp_all

lemma read_updates_items:
  "p + length us = u \<Longrightarrow>
   read_updates (length us + length is) p u (concat (map leb128 us) @ concat (map leb128 is) @ rest) cs =
     Some (rest, fold (\<lambda>i. push_update i True) is (fold (\<lambda>i. push_update i False) us cs))"
  by (induction us arbitrary: cs p) (simp_all add: read_updates_children)

text \<open>Reading a record back does to the list of changes what its items say.\<close>

definition apply_changes :: "(u64 set \<Rightarrow> u64 list) \<Rightarrow> changes \<Rightarrow> change list \<Rightarrow> change list" where
  "apply_changes iter c cs =
     fold push_delete (iter (ch_deletes c))
       (fold (\<lambda>i. push_update i True) (iter (ch_child_updates c))
         (fold (\<lambda>i. push_update i False) (iter (ch_updates c)) (cs @ map Insert (iter (ch_inserts c)))))"

lemma deserialize_serialize_changes:
  assumes "iterates iter" and "changes_fit c"
  shows "deserialize_changes (serialize_changes iter c) cs = Some (apply_changes iter c cs)"
proof -
  have fit: "unat (of_nat (card (ch_inserts c)) :: u64) = length (iter (ch_inserts c))"
    "unat (of_nat (card (ch_updates c)) :: u64) = length (iter (ch_updates c))"
    "unat (of_nat (card (ch_updates c)) + of_nat (card (ch_child_updates c)) :: u64) =
      length (iter (ch_updates c)) + length (iter (ch_child_updates c))"
    "unat (of_nat (card (ch_deletes c)) :: u64) = length (iter (ch_deletes c))"
    using assms by (simp_all add: changes_fit_def length_iter unat_of_nat flip: of_nat_add)
  show ?thesis
    using read_deletes_items [of "iter (ch_deletes c)" "[]"]
    by (simp add: deserialize_changes_def serialize_changes_def push_len_leb128_def fit
        read_inserts_items read_updates_items apply_changes_def)
qed

subsection \<open>The net effect of a part of the log\<close>

text \<open>The items of a collection are \<open>S0\<close> before and \<open>S\<close> after a part of the log, which
  updated the items \<open>U\<close> and children of the items \<open>C\<close>. The list of changes is right when it
  names each item once: as inserted if it is new, as deleted if it is gone, as updated if it was
  updated and stayed, as updated in its children only otherwise.\<close>

definition net_changes :: "u64 set \<Rightarrow> u64 set \<Rightarrow> u64 set \<Rightarrow> u64 set \<Rightarrow> change list \<Rightarrow> bool" where
  "net_changes S0 S U C cs \<longleftrightarrow>
     distinct (map unwrap_id cs) \<and>
     {i. Insert i \<in> set cs} = S - S0 \<and>
     {i. Delete i \<in> set cs} = S0 - S \<and>
     {i. Update i \<in> set cs} = U \<inter> S0 \<inter> S \<and>
     {i. ChildUpdate i \<in> set cs} = (C - U) \<inter> S0 \<inter> S"

lemma in_ids: "c \<in> set cs \<Longrightarrow> unwrap_id c \<in> unwrap_id ` set cs" by simp

lemma filter_other_ids:
  "i \<notin> unwrap_id ` set cs \<Longrightarrow> filter (\<lambda>c. c \<noteq> Update i \<and> c \<noteq> ChildUpdate i) cs = cs"
  "i \<notin> unwrap_id ` set cs \<Longrightarrow> filter (\<lambda>c. c \<noteq> Insert i) cs = cs"
  by (force simp: filter_id_conv)+

lemma scan_update_distinct:
  "distinct (map unwrap_id cs) \<Longrightarrow> scan_update i b cs =
    (if Insert i \<in> set cs then Already_Inserted
     else Moved (b \<and> Update i \<notin> set cs) (filter (\<lambda>c. c \<noteq> Update i \<and> c \<noteq> ChildUpdate i) cs))"
proof (induction cs)
  case (Cons c cs)
  then have "unwrap_id c \<notin> unwrap_id ` set cs" by simp
  with Cons in_ids [of "Insert i" cs] in_ids [of "Update i" cs] show ?case
    by (auto simp: filter_other_ids)
qed simp

lemma scan_delete_distinct:
  "distinct (map unwrap_id cs) \<Longrightarrow> scan_delete i cs =
    (if Insert i \<in> set cs then Cancelled (filter (\<lambda>c. c \<noteq> Insert i) cs)
     else Remaining (filter (\<lambda>c. c \<noteq> Update i \<and> c \<noteq> ChildUpdate i) cs))"
proof (induction cs)
  case (Cons c cs)
  then have "unwrap_id c \<notin> unwrap_id ` set cs" by simp
  with Cons in_ids [of "Insert i" cs] show ?case by (auto simp: filter_other_ids)
qed simp

lemma net_changes_ids:
  assumes "net_changes S0 S U C cs"
  shows "unwrap_id ` set cs \<subseteq> S0 \<union> S"
proof
  fix i assume "i \<in> unwrap_id ` set cs"
  then obtain c where "c \<in> set cs" "unwrap_id c = i" by auto
  then show "i \<in> S0 \<union> S" using assms by (cases c rule: change.exhaust) (auto simp: net_changes_def set_eq_iff)
qed

lemma distinct_filter_ids: "distinct (map unwrap_id cs) \<Longrightarrow> distinct (map unwrap_id (filter P cs))"
  by (rule distinct_map_filter)

lemma net_insert:
  "net_changes S0 S U C cs \<Longrightarrow> i \<notin> S0 \<Longrightarrow> i \<notin> S \<Longrightarrow> net_changes S0 (insert i S) U C (cs @ [Insert i])"
  using net_changes_ids [of S0 S U C cs] by (auto simp: net_changes_def)

text \<open>An item that exists is listed, if at all, as inserted or updated.\<close>

lemma net_other_ids:
  assumes "net_changes S0 S U C cs" and "i \<in> S" and "Insert i \<notin> set cs"
  shows "i \<notin> unwrap_id ` set (filter (\<lambda>c. c \<noteq> Update i \<and> c \<noteq> ChildUpdate i) cs)"
proof
  assume "i \<in> unwrap_id ` set (filter (\<lambda>c. c \<noteq> Update i \<and> c \<noteq> ChildUpdate i) cs)"
  then obtain c where c: "c \<in> set cs" "unwrap_id c = i" "c \<noteq> Update i" "c \<noteq> ChildUpdate i" by auto
  with assms(3) have "c = Delete i" by (cases c rule: change.exhaust) auto
  with c(1) assms(1,2) show False by (auto simp: net_changes_def)
qed

lemma net_update:
  assumes "net_changes S0 S U C cs" and "i \<in> S"
  shows "net_changes S0 S (if b then U else insert i U) (if b then insert i C else C) (push_update i b cs)"
proof (cases "Insert i \<in> set cs")
  case True
  then show ?thesis
    using assms by (auto simp: net_changes_def push_update_def scan_update_distinct)
next
  case False
  let ?cs = "filter (\<lambda>c. c \<noteq> Update i \<and> c \<noteq> ChildUpdate i) cs"
  have "i \<in> S0" using assms False by (auto simp: net_changes_def)
  have p: "push_update i b cs = ?cs @ [if b \<and> Update i \<notin> set cs then ChildUpdate i else Update i]"
    using assms(1) False by (auto simp: net_changes_def push_update_def scan_update_distinct)
  have d: "distinct (map unwrap_id (push_update i b cs))"
    using net_other_ids [OF assms False] assms(1) unfolding p
    by (auto simp: net_changes_def distinct_filter_ids)
  have u: "Update i \<in> set cs \<longleftrightarrow> i \<in> U"
    using assms \<open>i \<in> S0\<close> by (auto simp: net_changes_def)
  show ?thesis
    using assms \<open>i \<in> S0\<close> d unfolding net_changes_def p by (auto simp: u)
qed

lemma net_delete:
  assumes "net_changes S0 S U C cs" and "i \<in> S"
  shows "net_changes S0 (S - {i}) U C (push_delete i cs)"
proof (cases "Insert i \<in> set cs")
  case True
  then have "push_delete i cs = filter (\<lambda>c. c \<noteq> Insert i) cs" and "i \<notin> S0"
    using assms(1) by (auto simp: net_changes_def push_delete_def scan_delete_distinct)
  then show ?thesis using assms by (auto simp: net_changes_def distinct_filter_ids)
next
  case False
  then have p: "push_delete i cs = filter (\<lambda>c. c \<noteq> Update i \<and> c \<noteq> ChildUpdate i) cs @ [Delete i]"
    and "i \<in> S0"
    using assms by (auto simp: net_changes_def push_delete_def scan_delete_distinct)
  have "distinct (map unwrap_id (push_delete i cs))"
    using net_other_ids [OF assms False] assms(1) unfolding p
    by (auto simp: net_changes_def distinct_filter_ids)
  then show ?thesis using assms \<open>i \<in> S0\<close> unfolding net_changes_def p by auto
qed

text \<open>A record fits the items: it inserts items that are new, and updates and deletes items that
  exist or that it inserts.\<close>

definition changes_valid :: "u64 set \<Rightarrow> u64 set \<Rightarrow> changes \<Rightarrow> bool" where
  "changes_valid S0 S c \<longleftrightarrow>
     ch_inserts c \<inter> (S0 \<union> S) = {} \<and>
     ch_updates c \<union> ch_child_updates c \<union> ch_deletes c \<subseteq> S \<union> ch_inserts c"

definition changes_effect :: "changes \<Rightarrow> u64 set \<Rightarrow> u64 set" where
  "changes_effect c S = (S \<union> ch_inserts c) - ch_deletes c"

lemma net_inserts:
  "net_changes S0 S U C cs \<Longrightarrow> set is \<inter> (S0 \<union> S) = {} \<Longrightarrow> distinct is \<Longrightarrow>
    net_changes S0 (S \<union> set is) U C (cs @ map Insert is)"
proof (induction "is" arbitrary: S cs)
  case (Cons i "is")
  from Cons.IH [OF net_insert [OF Cons.prems(1), of i]] Cons.prems(2,3) show ?case by auto
qed simp

lemma net_updates:
  "net_changes S0 S U C cs \<Longrightarrow> set is \<subseteq> S \<Longrightarrow>
    net_changes S0 S (U \<union> set is) C (fold (\<lambda>i. push_update i False) is cs)"
proof (induction "is" arbitrary: U cs)
  case (Cons i "is")
  from Cons.IH [OF net_update [OF Cons.prems(1), of i False, simplified]] Cons.prems(2) show ?case by auto
qed simp

lemma net_child_updates:
  "net_changes S0 S U C cs \<Longrightarrow> set is \<subseteq> S \<Longrightarrow>
    net_changes S0 S U (C \<union> set is) (fold (\<lambda>i. push_update i True) is cs)"
proof (induction "is" arbitrary: C cs)
  case (Cons i "is")
  from Cons.IH [OF net_update [OF Cons.prems(1), of i True, simplified]] Cons.prems(2) show ?case by auto
qed simp

lemma net_deletes:
  "net_changes S0 S U C cs \<Longrightarrow> set is \<subseteq> S \<Longrightarrow> distinct is \<Longrightarrow>
    net_changes S0 (S - set is) U C (fold push_delete is cs)"
proof (induction "is" arbitrary: S cs)
  case (Cons i "is")
  have "S - {i} - set is = S - set (i # is)" by auto
  with Cons.IH [OF net_delete [OF Cons.prems(1), of i]] Cons.prems(2,3) show ?case by auto
qed simp

lemma net_apply_changes:
  assumes "iterates iter" and "net_changes S0 S U C cs" and "changes_valid S0 S c"
  shows "net_changes S0 (changes_effect c S) (U \<union> ch_updates c) (C \<union> ch_child_updates c)
    (apply_changes iter c cs)"
proof -
  have it: "set (iter X) = X" "distinct (iter X)" for X using assms(1) by (auto simp: iterates_def)
  note v = assms(3) [unfolded changes_valid_def]
  have "net_changes S0 (S \<union> ch_inserts c) U C (cs @ map Insert (iter (ch_inserts c)))"
    using net_inserts [OF assms(2), of "iter (ch_inserts c)"] v it by auto
  note 2 = net_updates [OF this, of "iter (ch_updates c)", unfolded it]
  note 3 = net_child_updates [OF 2, of "iter (ch_child_updates c)", unfolded it]
  note 4 = net_deletes [OF 3, of "iter (ch_deletes c)", unfolded it]
  show ?thesis unfolding apply_changes_def changes_effect_def by (rule 4) (use v it in auto)
qed

subsection \<open>Reading a range of the log\<close>

abbreviation log_row_key :: "u32 \<Rightarrow> u8 \<Rightarrow> u64 \<Rightarrow> bytes" where
  "log_row_key account_id collection change_id \<equiv>
     key_bytes (key_of_log \<lparr>lk_account_id = account_id, lk_collection = collection, lk_change_id = change_id\<rparr>)"

fun valid_log :: "u64 set \<Rightarrow> u64 set \<Rightarrow> changes list \<Rightarrow> bool" where
  "valid_log S0 S [] = True"
| "valid_log S0 S (c # cs) = (changes_fit c \<and> changes_valid S0 S c \<and> valid_log S0 (changes_effect c S) cs)"

lemma log_row_change_id:
  "deserialize_be_u64 (log_row_key a c i) (usize_sub (length (log_row_key a c i)) 8) = Inr i"
  using deserialize_be_end(2) [of 5 "be_u32 a @ [c]" i] by (simp add: key_of_log_def serialize_log_key_def)

lemma collect_changes_row:
  assumes "iterates iter" and "changes_fit c" and "incl \<or> i \<noteq> f"
  shows "\<exists>l'. collect_changes incl f (log_row_key a col i) (serialize_changes iter c) l = Inr (True, l') \<and>
    cs_changes l' = apply_changes iter c (cs_changes l) \<and> cs_to_change_id l' = i"
  using assms by (auto simp: collect_changes_def log_row_change_id deserialize_serialize_changes Let_def)

lemma collect_changes_run:
  assumes "iterates iter"
  shows "\<lbrakk>net_changes S0 S U C (cs_changes l); valid_log S0 S (map snd (filter (\<lambda>(i, c). incl \<or> i \<noteq> f) log))\<rbrakk> \<Longrightarrow>
    \<exists>l'. run_callback (collect_changes incl f)
        (map (\<lambda>(i, c). (log_row_key a col i, serialize_changes iter c)) log) l = Inr l' \<and>
      net_changes S0 (fold changes_effect (map snd (filter (\<lambda>(i, c). incl \<or> i \<noteq> f) log)) S)
        (U \<union> \<Union> (set (map (ch_updates \<circ> snd) (filter (\<lambda>(i, c). incl \<or> i \<noteq> f) log))))
        (C \<union> \<Union> (set (map (ch_child_updates \<circ> snd) (filter (\<lambda>(i, c). incl \<or> i \<noteq> f) log)))) (cs_changes l')"
proof (induction log arbitrary: S U C l)
  case (Cons e log)
  obtain i c where e: "e = (i, c)" by (cases e)
  show ?case
  proof (cases "incl \<or> i \<noteq> f")
    case True
    with Cons.prems(2) e have v: "changes_fit c" "changes_valid S0 S c"
      and rest: "valid_log S0 (changes_effect c S) (map snd (filter (\<lambda>(i, c). incl \<or> i \<noteq> f) log))" by simp_all
    from collect_changes_row [OF assms v(1) True, of a col l] obtain l1 where
      l1: "collect_changes incl f (log_row_key a col i) (serialize_changes iter c) l = Inr (True, l1)"
      "cs_changes l1 = apply_changes iter c (cs_changes l)" by blast
    note Cons.IH [OF net_apply_changes [OF assms Cons.prems(1) v(2), folded l1(2)] rest]
    then show ?thesis using l1 True e by (simp add: Un_assoc)
  next
    case False
    then have "collect_changes incl f (log_row_key a col i) (serialize_changes iter c) l = Inr (True, l)"
      by (simp add: collect_changes_def log_row_change_id)
    then show ?thesis using Cons.IH [OF Cons.prems(1)] Cons.prems(2) e False by simp
  qed
qed simp

text \<open>C7: the changes read from a range of the log are its net effect. If the rows of the range
  hold recorded changes and the records fit the items \<open>S0\<close> that existed before, then the answer
  names every item at most once: as inserted the items that are new, as deleted those that are
  gone, as updated those that stayed and were updated, with child updates apart.\<close>

theorem store_changes_net:
  assumes "sqlite_engine eng view saved" and "iterates iter"
    and "query_bounds q = (incl, f, t)"
    and "entries (view db) (ascending (log_range a col f t)) =
      map (\<lambda>(i, c). (log_row_key a col i, serialize_changes iter c)) log"
    and "read = map snd (filter (\<lambda>(i, c). incl \<or> i \<noteq> f) log)"
    and "valid_log S0 S0 read"
    and "store_changes eng s a col q db = Inr l"
  shows "net_changes S0 (fold changes_effect read S0) (\<Union> (set (map ch_updates read)))
    (\<Union> (set (map ch_child_updates read))) (cs_changes l)"
proof -
  from assms(3,7) obtain l1 where
    it: "store_iterate eng s (ascending (log_range a col f t)) (collect_changes incl f) change_list_default db = Inr l1"
    and l: "cs_changes l = cs_changes l1"
    by (auto simp: store_changes_def rbind_Inr_iff)
  have "net_changes S0 S0 {} {} (cs_changes change_list_default)"
    by (simp add: net_changes_def change_list_default_def)
  from collect_changes_run [OF assms(2) this assms(6) [unfolded assms(5)], of a col]
    sqlite_engine.store_iterate_run [OF assms(1) it]
  show ?thesis unfolding assms(4) by (simp add: l assms(5) comp_def)
qed

theorem store_changes_net_witness:
  "net_changes {1, 2} {1, 10} {1, 10} {} [Insert 10, Update 1, Delete 2]"
proof -
  let ?c1 = "\<lparr>ch_inserts = {10}, ch_updates = {}, ch_deletes = {}, ch_child_updates = {}\<rparr>"
  let ?c2 = "\<lparr>ch_inserts = {}, ch_updates = {1, 10}, ch_deletes = {2}, ch_child_updates = {}\<rparr>"
  let ?db = "mem_start
     [((SUBSPACE_LOGS, log_row_key 1 2 5), SqlBlob (serialize_changes sorted_list_of_set ?c1)),
      ((SUBSPACE_LOGS, log_row_key 1 2 6), SqlBlob (serialize_changes sorted_list_of_set ?c2))]"
  have it: "iterates sorted_list_of_set" by (simp add: iterates_def)
  have "entries (mem_view ?db) (ascending (log_range 1 2 0 u64_MAX)) =
      map (\<lambda>(i, c). (log_row_key 1 2 i, serialize_changes sorted_list_of_set c)) [(5, ?c1), (6, ?c2)]"
    unfolding entries_def mem_range_keys by code_simp
  moreover have "valid_log {1, 2} {1, 2} [?c1, ?c2]"
    by (auto simp: changes_fit_def changes_valid_def changes_effect_def)
  moreover have "store_changes mem_engine SQLite 1 2 All ?db =
      Inr \<lparr>cs_changes = [Insert 10, Update 1, Delete 2], cs_from_change_id = 5, cs_to_change_id = 6\<rparr>"
    by code_simp
  moreover have "query_bounds All = (True, 0, u64_MAX)" by (simp add: query_bounds_def)
  ultimately have "net_changes {1, 2} (fold changes_effect [?c1, ?c2] {1, 2}) (\<Union> (set (map ch_updates [?c1, ?c2])))
    (\<Union> (set (map ch_child_updates [?c1, ?c2]))) [Insert 10, Update 1, Delete 2]"
    using store_changes_net [OF mem.sqlite_engine_axioms it, where log = "[(5, ?c1), (6, ?c2)]"] by fastforce
  moreover have "fold changes_effect [?c1, ?c2] {1, 2} = {1, 10}" by (auto simp: changes_effect_def)
  ultimately show ?thesis by simp
qed

subsection \<open>The last change\<close>

lemma take_1_rev_sorted: "finite K \<Longrightarrow> take 1 (rev (sorted_list_of_set K)) = (if K = {} then [] else [Max K])"
proof -
  assume K: "finite K"
  show ?thesis
  proof (cases "K = {}")
    case False
    let ?xs = "sorted_list_of_set K"
    have ne: "?xs \<noteq> []" using K False by simp
    then have "take 1 (rev ?xs) = [last ?xs]" by (simp add: take_Suc hd_rev)
    moreover have "last ?xs = Max K"
    proof (rule Max_eqI [symmetric, OF K])
      show "last ?xs \<in> K" using last_in_set [OF ne] K by simp
      fix y assume "y \<in> K"
      have e: "butlast ?xs @ [last ?xs] = ?xs" using ne by simp
      have "y \<in> set (butlast ?xs @ [last ?xs])" unfolding e using K \<open>y \<in> K\<close> by simp
      moreover have "sorted (butlast ?xs @ [last ?xs])" unfolding e by simp
      ultimately show "y \<le> last ?xs" by (auto simp: sorted_append)
    qed
    ultimately show ?thesis using False by simp
  qed simp
qed

lemma log_key_between:
  assumes "length k = 13" and "log_row_key a c 0 \<le> k" and "k \<le> log_row_key a c u64_MAX"
  shows "\<exists>i. k = log_row_key a c i"
proof -
  let ?P = "be_u32 a @ [c]"
  define p z where "p = take 5 k" and "z = drop 5 k"
  then have k: "k = p @ z" "length p = length ?P" "length z = 8" using assms(1) by simp_all
  then have "p = ?P"
    using assms(2,3) le_append_same_length [OF k(2), of z "be_u64 u64_MAX"]
      le_append_same_length [OF k(2) [symmetric], of "be_u64 0" z]
    by (auto simp: key_of_log_def serialize_log_key_def)
  moreover have "z = be_u64 (from_be_u64 z)" using k(3) by (simp add: be_from_be_u64)
  ultimately show ?thesis using k(1) by (metis append_assoc key.select_convs(2) key_of_log_def
      log_key.select_convs serialize_log_key_def with_subspace_0 append_Nil)
qed

text \<open>The last change of a collection is the largest change identifier that the log has for
  it, and there is none exactly when the log has no row for the collection.\<close>

theorem last_change_id_max:
  assumes "sqlite_engine eng view saved" and "\<And>k. view db SUBSPACE_LOGS k \<noteq> None \<Longrightarrow> length k = 13"
    and "store_get_last_change_id eng s a c db = Inr r"
  shows "case r of
      None \<Rightarrow> \<forall>i. view db SUBSPACE_LOGS (log_row_key a c i) = None
    | Some m \<Rightarrow> view db SUBSPACE_LOGS (log_row_key a c m) \<noteq> None \<and>
        (\<forall>i. view db SUBSPACE_LOGS (log_row_key a c i) \<noteq> None \<longrightarrow> i \<le> m)"
proof -
  let ?K = "keys_between (view db) SUBSPACE_LOGS (log_row_key a c 0) (log_row_key a c u64_MAX)"
  have fin: "finite ?K"
    using sqlite_engine.finite_view [OF assms(1), of db SUBSPACE_LOGS]
    by (rule finite_subset [rotated]) (auto simp: keys_between_def)
  have in_K: "log_row_key a c i \<in> ?K \<longleftrightarrow> view db SUBSPACE_LOGS (log_row_key a c i) \<noteq> None" for i
    by (auto simp: keys_between_def key_of_log_def serialize_log_key_def)
  have run: "run_callback last_change_callback (if ?K = {} then [] else [(Max ?K, [])]) None = Inr r"
    using sqlite_engine.store_iterate_run [OF assms(1) assms(3) [unfolded store_get_last_change_id_def]]
      take_1_rev_sorted [OF fin]
    by (simp add: entries_def range_keys_def only_first_def no_values_def descending_def log_range_def
        iterate_params_new_def key_of_log_def entry_def split: if_splits)
  show ?thesis
  proof (cases "?K = {}")
    case True
    then show ?thesis using run in_K by auto
  next
    case False
    then have "Max ?K \<in> ?K" using fin by simp
    then obtain m where m: "Max ?K = log_row_key a c m"
      using log_key_between [of "Max ?K" a c] assms(2) by (auto simp: keys_between_def)
    then have "r = Some m" using run False log_row_change_id [of a c m] by (auto simp: last_change_callback_def)
    moreover have "i \<le> m" if "view db SUBSPACE_LOGS (log_row_key a c i) \<noteq> None" for i
      using Max_ge [OF fin] that in_K m by (force simp: key_of_log_def serialize_log_key_def)
    ultimately show ?thesis using \<open>Max ?K \<in> ?K\<close> m in_K by auto
  qed
qed

theorem last_change_id_max_witness:
  "{i. mem_view (mem_start [((SUBSPACE_LOGS, log_row_key 1 2 5), SqlBlob []), ((SUBSPACE_LOGS, log_row_key 1 2 6), SqlBlob [])])
    SUBSPACE_LOGS (log_row_key 1 2 i) \<noteq> None} \<subseteq> {..6}"
proof -
  let ?db = "mem_start [((SUBSPACE_LOGS, log_row_key 1 2 5), SqlBlob []), ((SUBSPACE_LOGS, log_row_key 1 2 6), SqlBlob [])]"
  have "length k = 13" if "mem_view ?db SUBSPACE_LOGS k \<noteq> None" for k
    using that by (auto simp: mem_view_def mem_tables_def mem_start_def key_of_log_def serialize_log_key_def split: if_splits)
  moreover have "store_get_last_change_id mem_engine SQLite 1 2 ?db = Inr (Some 6)" by code_simp
  ultimately show ?thesis using last_change_id_max [OF mem.sqlite_engine_axioms] by fastforce
qed

subsection \<open>Merging records\<close>

lemma merge_deletes_eq:
  "distinct is \<Longrightarrow> merge_deletes is this =
     this\<lparr>ch_inserts := ch_inserts this - set is,
          ch_updates := ch_updates this - set is,
          ch_deletes := ch_deletes this \<union> (set is - ch_inserts this),
          ch_child_updates := ch_child_updates this - set is\<rparr>"
proof (induction "is" arbitrary: this)
  case (Cons i "is")
  then show ?case by (cases "this") (auto simp: changes.splits)
qed simp



end
