(* ===== verification/Acl_Store.thy ===== *)
theory Acl_Store
  imports Store_Dispatch Store_Values
begin

section \<open>Access control entries in the store\<close>

text \<open>
  Models \<^verbatim>\<open>src/crates/store/src/query/acl.rs\<close>: the rows of the table of grants are
  keyed by the account that receives the grant, then the account, collection and document that
  it gives access to; the value is the set of permissions.
\<close>

subsection \<open>Grants\<close>

datatype acl_query = SharedWith u32 u32 u8 | HasAccess u32

record acl_item =
  to_account_id :: u32
  to_collection :: u8
  to_document_id :: u32
  permissions :: u64

definition deserialize_acl_item :: "bytes \<Rightarrow> acl_item trc_result" where
  "deserialize_acl_item bs =
     rbind (deserialize_be_u32 bs U32_LEN) (\<lambda>account.
     rbind (ok_or DataCorruption (nth_opt bs (U32_LEN * 2))) (\<lambda>collection.
     rbind (deserialize_be_u32 bs (U32_LEN * 2 + 1)) (\<lambda>document.
     Inr \<lparr>to_account_id = account, to_collection = collection, to_document_id = document,
          permissions = 0\<rparr>)))"

definition with_permissions :: "acl_item \<Rightarrow> u64 \<Rightarrow> acl_item" where
  "with_permissions item p = item\<lparr>permissions := p\<rparr>"

definition acl_key :: "u32 \<Rightarrow> u32 \<Rightarrow> u8 \<Rightarrow> u32 \<Rightarrow> key" where
  "acl_key grant_account_id account_id collection document_id =
     key_of_value \<lparr>vk_account_id = account_id, vk_collection = collection,
       vk_document_id = document_id, vk_class = Acl grant_account_id\<rparr>"

fun acl_range :: "acl_query \<Rightarrow> iterate_params" where
  "acl_range (SharedWith grant_account_id account_id collection) =
     ascending (iterate_params_new
       (acl_key grant_account_id account_id collection 0)
       (acl_key grant_account_id account_id collection u32_MAX))"
| "acl_range (HasAccess grant_account_id) =
     ascending (iterate_params_new
       (acl_key grant_account_id 0 0 0)
       (acl_key grant_account_id u32_MAX u8_MAX u32_MAX))"

definition collect_acl_item :: "acl_item list callback" where
  "collect_acl_item k v results =
     rbind (deserialize_acl_item k) (\<lambda>item.
     rbind (deserialize_u64 v) (\<lambda>p. Inr (True, results @ [with_permissions item p])))"

definition store_acl_query ::
    "'db sql_engine \<Rightarrow> store \<Rightarrow> acl_query \<Rightarrow> 'db \<Rightarrow> acl_item list trc_result" where
  "store_acl_query eng s q db = store_iterate eng s (acl_range q) collect_acl_item [] db"

subsection \<open>Revocation\<close>

definition collect_grant :: "u32 \<Rightarrow> (u32 \<times> acl_item) list callback" where
  "collect_grant account_id k v delete_keys =
     rbind (deserialize_be_u32 k U32_LEN) (\<lambda>account.
       if account_id = account then
         rbind (deserialize_be_u32 k 0) (\<lambda>grant_account_id.
         rbind (deserialize_acl_item k) (\<lambda>item.
           Inr (True, delete_keys @ [(grant_account_id, item)])))
       else Inr (True, delete_keys))"

text \<open>One round of the loop that clears rows of an account, document by document: a collection is
  named when it changes.\<close>

definition push_clear ::
    "u8 \<Rightarrow> u32 \<Rightarrow> maybe_dynamic_id value_class \<Rightarrow> batch \<times> u8 \<Rightarrow> batch \<times> u8" where
  "push_clear collection document_id c b =
     (let (ops, last_collection) = b;
          ops' = (if collection \<noteq> last_collection then batch_with_collection ops collection else ops)
      in (update_document ops' document_id @ [Value c ClearValue], collection))"

fun clear_documents ::
    "'db sql_engine \<Rightarrow> write_env \<Rightarrow> store \<Rightarrow> u32 \<Rightarrow> (u8 \<times> u32 \<times> maybe_dynamic_id value_class) list \<Rightarrow>
     batch \<times> u8 \<Rightarrow> 'db \<Rightarrow> unit trc_result \<times> 'db" where
  "clear_documents eng env s account_id [] b db =
     (if \<not> batch_is_empty (fst b) then
        (case store_write eng env s (fst b) db of
           (Inl e, db') \<Rightarrow> (Inl e, db')
         | (Inr _, db') \<Rightarrow> (Inr (), db'))
      else (Inr (), db))"
| "clear_documents eng env s account_id ((collection, document_id, c) # ks) b db =
     (if 1000 \<le> length (fst b) then
        (case store_write eng env s (fst b) db of
           (Inl e, db') \<Rightarrow> (Inl e, db')
         | (Inr _, db') \<Rightarrow>
             clear_documents eng env s account_id ks
               (push_clear collection document_id c (batch_with_account_id batch_new account_id, u8_MAX)) db')
      else clear_documents eng env s account_id ks (push_clear collection document_id c b) db)"

definition store_acl_revoke_all ::
    "'db sql_engine \<Rightarrow> write_env \<Rightarrow> store \<Rightarrow> u32 \<Rightarrow> 'db \<Rightarrow> unit trc_result \<times> 'db" where
  "store_acl_revoke_all eng env s account_id db =
     (case store_iterate eng s
         (no_values (ascending (iterate_params_new (acl_key 0 0 0 0) (acl_key u32_MAX u32_MAX u8_MAX u32_MAX))))
         (collect_grant account_id) [] db of
        Inl e \<Rightarrow> (Inl e, db)
      | Inr delete_keys \<Rightarrow>
          clear_documents eng env s account_id
            (map (\<lambda>(g, item). (to_collection item, to_document_id item, Acl g)) delete_keys)
            (batch_with_account_id batch_new account_id, u8_MAX) db)"

subsection \<open>What the clearing loop does\<close>

definition static_class :: "maybe_dynamic_id value_class \<Rightarrow> bool" where
  "static_class c \<longleftrightarrow> (case c of Acl _ \<Rightarrow> True | Blob _ \<Rightarrow> True | _ \<Rightarrow> False)"

definition class_row :: "u32 \<Rightarrow> u8 \<times> u32 \<times> maybe_dynamic_id value_class \<Rightarrow> u8 \<times> bytes" where
  "class_row account_id i =
     (case i of (collection, document_id, c) \<Rightarrow>
        (value_subspace c collection, serialize_value_class (\<lambda>_. 0) c account_id collection document_id))"

lemma static_class_key:
  "static_class c \<Longrightarrow> (value_subspace c (ws_collection st), value_class_key c st) =
     class_row (ws_account_id st) (ws_collection st, ws_document_id st, c)"
  by (auto simp: static_class_def class_row_def value_class_key_def value_class_serialize_def
      split: value_class.splits)

text \<open>The operations of a batch leave the account and collection they name last and clear a set
  of rows.\<close>

definition clears :: "(bytes \<Rightarrow> u64) \<Rightarrow> batch \<Rightarrow> u32 \<Rightarrow> u8 \<Rightarrow> (u8 \<times> bytes) set \<Rightarrow> bool" where
  "clears h ops a c P \<longleftrightarrow>
     (\<forall>R st R'. ops_steps h ops (write_state_new, R) (st, R') \<longrightarrow>
        ws_account_id st = a \<and> ws_collection st = c \<and> R' = without R P) \<and>
     (batch_is_empty ops \<longrightarrow> P = {})"

lemma clears_start: "clears h (batch_with_account_id batch_new a) a u8_MAX {}"
  by (auto simp: clears_def batch_with_account_id_def batch_new_def ops_steps_simps op_step_simps
      write_state_new_def)

lemma clears_push:
  assumes "clears h ops a lc P" and "static_class c"
  shows "clears h (fst (push_clear co d c (ops, lc))) a co (insert (class_row a (co, d, c)) P)"
    and "snd (push_clear co d c (ops, lc)) = co"
proof -
  have "ws_account_id st = a \<and> ws_collection st = co \<and> R' = without R (insert (class_row a (co, d, c)) P)"
    if steps: "ops_steps h (fst (push_clear co d c (ops, lc))) (write_state_new, R) (st, R')" for R st R'
  proof -
    let ?pre = "if co \<noteq> lc then [Collection co] else []"
    have "fst (push_clear co d c (ops, lc)) = ops @ ?pre @ [DocumentId d, Value c ClearValue]"
      by (simp add: push_clear_def batch_with_collection_def update_document_def)
    with steps obtain st1 R1 where s1: "ops_steps h ops (write_state_new, R) (st1, R1)"
      and s2: "ops_steps h (?pre @ [DocumentId d, Value c ClearValue]) (st1, R1) (st, R')"
      by (auto simp: ops_steps_append)
    from s1 assms(1) have st1: "ws_account_id st1 = a" "ws_collection st1 = lc" "R1 = without R P"
      by (auto simp: clears_def)
    define st2 where "st2 = st1\<lparr>ws_collection := co, ws_document_id := d\<rparr>"
    have "st = st2 \<and> R' = tbl_put R1 (value_subspace c (ws_collection st2)) (value_class_key c st2) None"
      using s2 st1(2) by (auto simp: ops_steps_simps op_step_simps st2_def split: if_splits)
    then show ?thesis
      using static_class_key [OF assms(2), of st2] st1 by (auto simp: st2_def tbl_put_None)
  qed
  moreover have "\<not> batch_is_empty (fst (push_clear co d c (ops, lc)))"
    by (auto simp: push_clear_def batch_with_collection_def update_document_def batch_is_empty_def)
  ultimately show "clears h (fst (push_clear co d c (ops, lc))) a co (insert (class_row a (co, d, c)) P)"
    by (auto simp: clears_def)
  show "snd (push_clear co d c (ops, lc)) = co" by (simp add: push_clear_def)
qed

context sqlite_engine
begin

lemma clears_write:
  assumes "clears (we_hash env) ops a c P" and "store_write eng env s ops db = (Inr ids, db')"
  shows "view db' = without (view db) P"
  using store_write_view(1) [OF assms(2)] assms(1) by (auto simp: clears_def)

lemma clear_documents_view:
  "\<lbrakk>clears (we_hash env) (fst b) a (snd b) P; \<forall>(co, d, c) \<in> set ks. static_class c;
    clear_documents eng env s a ks b db = (Inr u, db')\<rbrakk> \<Longrightarrow>
   view db' = without (view db) (P \<union> class_row a ` set ks)"
proof (induction ks arbitrary: b P db)
  case Nil
  then show ?case
    using clears_write [OF Nil(1)] by (cases "batch_is_empty (fst b)")
      (auto simp: clears_def split: prod.splits sum.splits)
next
  case (Cons i ks)
  obtain co d c where i: "i = (co, d, c)" by (cases i)
  with Cons.prems(2) have c: "static_class c" and ks: "\<forall>(co, d, c) \<in> set ks. static_class c" by auto
  show ?case
  proof (cases "1000 \<le> length (fst b)")
    case True
    with Cons.prems(3) i obtain ids db1 where
      w: "store_write eng env s (fst b) db = (Inr ids, db1)"
      and rest: "clear_documents eng env s a ks (push_clear co d c (batch_with_account_id batch_new a, u8_MAX)) db1 =
        (Inr u, db')"
      by (auto split: prod.splits sum.splits)
    have "view db' = without (view db1) (insert (class_row a (co, d, c)) {} \<union> class_row a ` set ks)"
      by (rule Cons.IH [OF _ ks rest])
        (use clears_push [OF clears_start [of "we_hash env" a] c, of co d] in simp)
    then show ?thesis using clears_write [OF Cons.prems(1) w] i by (simp add: Un_commute Un_left_commute)
  next
    case False
    with Cons.prems(3) i have rest: "clear_documents eng env s a ks (push_clear co d c b) db = (Inr u, db')"
      by simp
    have "view db' = without (view db) (insert (class_row a (co, d, c)) P \<union> class_row a ` set ks)"
      by (rule Cons.IH [OF _ ks rest])
        (use clears_push [of "we_hash env" "fst b" a "snd b" P c co d] Cons.prems(1) c in simp)
    then show ?thesis using i by simp
  qed
qed

end

subsection \<open>Keys of grants\<close>

lemma acl_key_bytes: "key_bytes (acl_key g a c d) = be_u32 g @ be_u32 a @ [c] @ be_u32 d"
  by (simp add: acl_key_def key_of_value_def value_class_serialize_def)

lemma acl_key_subspace: "key_subspace (acl_key g a c d) = SUBSPACE_ACL"
  by (simp add: acl_key_def key_of_value_def value_subspace_def)

lemma acl_key_split:
  assumes "length k = 13"
  shows "\<exists>g a c d. k = key_bytes (acl_key g a c d)"
proof -
  have "drop 8 k = [k ! 8] @ drop 9 k" using assms Cons_nth_drop_Suc [of 8 k] by simp
  then have "k = take 4 k @ take 4 (drop 4 k) @ [k ! 8] @ drop 9 k"
    using append_take_drop_id [of 4 k] append_take_drop_id [of 4 "drop 4 k"] by simp
  also have "\<dots> = be_u32 (from_be_u32 (take 4 k)) @ be_u32 (from_be_u32 (take 4 (drop 4 k))) @ [k ! 8] @
      be_u32 (from_be_u32 (drop 9 k))"
    using assms by (simp add: be_from_be_u32)
  finally show ?thesis unfolding acl_key_bytes by blast
qed

lemma deserialize_acl_key:
  "deserialize_acl_item (key_bytes (acl_key g a c d)) =
     Inr \<lparr>to_account_id = a, to_collection = c, to_document_id = d, permissions = 0\<rparr>"
proof -
  let ?k = "be_u32 g @ be_u32 a @ [c] @ be_u32 d"
  have "deserialize_be_u32 ?k 4 = Inr a" using deserialize_be_mid(1) [of 4 "be_u32 g"] by simp
  moreover have "deserialize_be_u32 ?k 9 = Inr d"
    using deserialize_be_end(1) [of 9 "be_u32 g @ be_u32 a @ [c]"] by simp
  moreover have "nth_opt ?k 8 = Some c" by (simp add: nth_opt_def nth_append)
  ultimately show ?thesis by (simp add: acl_key_bytes deserialize_acl_item_def)
qed

fun acl_matches :: "acl_query \<Rightarrow> u32 \<Rightarrow> u32 \<Rightarrow> u8 \<Rightarrow> bool" where
  "acl_matches (SharedWith g' a' c') g a c \<longleftrightarrow> g = g' \<and> a = a' \<and> c = c'"
| "acl_matches (HasAccess g') g a c \<longleftrightarrow> g = g'"

lemma acl_in_range:
  "key_bytes (ip_begin (acl_range q)) \<le> key_bytes (acl_key g a c d) \<and>
   key_bytes (acl_key g a c d) \<le> key_bytes (ip_end (acl_range q)) \<longleftrightarrow> acl_matches q g a c"
  using word_order.not_eq_extremum [of d]
  by (cases q) (auto simp: acl_key_bytes ascending_def iterate_params_new_def le_less word_gt_0 not_less)

lemma acl_all_in_range:
  "key_bytes (acl_key 0 0 0 0) \<le> key_bytes (acl_key g a c d) \<and>
   key_bytes (acl_key g a c d) \<le> key_bytes (acl_key u32_MAX u32_MAX u8_MAX u32_MAX)"
  using word_order.not_eq_extremum [of d] by (auto simp: acl_key_bytes le_less word_gt_0 not_less)

subsection \<open>Properties\<close>

text \<open>C11: a query returns exactly the grants that the table holds for it, with their permissions:
  all that an account received, or those it received on a collection of another account.\<close>

theorem acl_query_exact:
  assumes "sqlite_engine eng view saved" and "\<And>k. view db SUBSPACE_ACL k \<noteq> None \<Longrightarrow> length k = 13"
    and "store_acl_query eng s q db = Inr items"
  shows "item \<in> set items \<longleftrightarrow> (\<exists>g v b. acl_matches q g (to_account_id item) (to_collection item) \<and>
    view db SUBSPACE_ACL (key_bytes (acl_key g (to_account_id item) (to_collection item) (to_document_id item))) = Some v \<and>
    as_bytes v = Inr b \<and> deserialize_u64 b = Inr (permissions item))"
proof -
  define f where "f k v = rbind (deserialize_acl_item k) (\<lambda>item.
     rbind (deserialize_u64 v) (\<lambda>p. Inr [with_permissions item p]))" for k v
  have cb: "collect_acl_item k v s = rbind (f k v) (\<lambda>xs. Inr (True, s @ xs))" for k v s
    by (simp add: collect_acl_item_def f_def rbind_def split: sum.splits)
  let ?p = "acl_range q"
  let ?K = "keys_between (view db) SUBSPACE_ACL (key_bytes (ip_begin ?p)) (key_bytes (ip_end ?p))"
  have p: "\<not> ip_first ?p" "ip_values ?p" "key_subspace (ip_begin ?p) = SUBSPACE_ACL"
    by (cases q; simp add: ascending_def iterate_params_new_def acl_key_subspace)+
  have f: "(\<exists>xs. f (key_bytes (acl_key g a c d)) v = Inr xs \<and> i \<in> set xs) \<longleftrightarrow>
      to_account_id i = a \<and> to_collection i = c \<and> to_document_id i = d \<and> deserialize_u64 v = Inr (permissions i)"
    for g a c d v i
    by (cases "deserialize_u64 v") (auto simp: f_def deserialize_acl_key with_permissions_def)
  have K: "k \<in> ?K \<longleftrightarrow> (\<exists>g a c d v. k = key_bytes (acl_key g a c d) \<and> acl_matches q g a c \<and>
      view db SUBSPACE_ACL k = Some v)" for k
    using acl_key_split [OF assms(2), of k] acl_in_range [of q] by (fastforce simp: keys_between_def)
  have cell: "deserialize_u64 (cell_bytes v) = Inr x \<longleftrightarrow> (\<exists>b. as_bytes v = Inr b \<and> deserialize_u64 b = Inr x)" for v x
    by (auto simp: cell_bytes_def deserialize_u64_def split: sum.splits)
  have "item \<in> set items \<longleftrightarrow> (\<exists>k \<in> ?K. \<exists>xs. f k (cell_bytes (the (view db SUBSPACE_ACL k))) = Inr xs \<and> item \<in> set xs)"
    using sqlite_engine.iterate_collect(1) [OF assms(1) cb p(1) assms(3) [unfolded store_acl_query_def]] p
    by (simp add: entry_def)
  also have "\<dots> \<longleftrightarrow> (\<exists>g a c d v. acl_matches q g a c \<and> view db SUBSPACE_ACL (key_bytes (acl_key g a c d)) = Some v \<and>
      (\<exists>xs. f (key_bytes (acl_key g a c d)) (cell_bytes v) = Inr xs \<and> item \<in> set xs))"
    unfolding Bex_def K by fastforce
  finally show ?thesis unfolding f cell by blast
qed

theorem acl_query_exact_witness:
  "\<exists>g v b. acl_matches (HasAccess 7) g 1 0 \<and>
    mem_view (mem_start [((SUBSPACE_ACL, [0, 0, 0, 7, 0, 0, 0, 1, 0, 0, 0, 0, 9]), SqlBlob [0, 0, 0, 0, 0, 0, 0, 3])])
      SUBSPACE_ACL (key_bytes (acl_key g 1 0 9)) = Some v \<and> as_bytes v = Inr b \<and> deserialize_u64 b = Inr 3"
proof -
  let ?db = "mem_start [((SUBSPACE_ACL, [0, 0, 0, 7, 0, 0, 0, 1, 0, 0, 0, 0, 9]), SqlBlob [0, 0, 0, 0, 0, 0, 0, 3])]"
  let ?item = "\<lparr>to_account_id = 1, to_collection = 0, to_document_id = 9, permissions = 3\<rparr>"
  have "length k = 13" if "mem_view ?db SUBSPACE_ACL k \<noteq> None" for k
    using that by (auto simp: mem_view_def mem_tables_def mem_start_def split: if_splits)
  moreover have "store_acl_query mem_engine SQLite (HasAccess 7) ?db = Inr [?item]" by code_simp
  ultimately show ?thesis
    using acl_query_exact [OF mem.sqlite_engine_axioms, of ?db SQLite "HasAccess 7" "[?item]" ?item] by simp
qed

text \<open>The grants on an account that a scan of the whole table collects.\<close>

definition grant_of :: "u32 \<Rightarrow> bytes \<Rightarrow> bytes \<Rightarrow> (u32 \<times> acl_item) list trc_result" where
  "grant_of a k v =
     rbind (deserialize_be_u32 k U32_LEN) (\<lambda>account.
       if a = account then rbind (deserialize_be_u32 k 0) (\<lambda>g. rbind (deserialize_acl_item k) (\<lambda>item. Inr [(g, item)]))
       else Inr [])"

lemma collect_grant_of: "collect_grant a k v s = rbind (grant_of a k v) (\<lambda>xs. Inr (True, s @ xs))"
  by (simp add: collect_grant_def grant_of_def rbind_def split: sum.splits)

lemma grant_of_key:
  "grant_of a (key_bytes (acl_key g b c d)) v = Inr (if a = b then
      [(g, \<lparr>to_account_id = b, to_collection = c, to_document_id = d, permissions = 0\<rparr>)] else [])"
proof -
  have "deserialize_be_u32 (key_bytes (acl_key g b c d)) 4 = Inr b"
    using deserialize_be_mid(1) [of 4 "be_u32 g"] by (simp add: acl_key_bytes)
  moreover have "deserialize_be_u32 (key_bytes (acl_key g b c d)) 0 = Inr g"
    using deserialize_be_mid(1) [of 0 "[]"] by (simp add: acl_key_bytes)
  ultimately show ?thesis by (simp add: grant_of_def deserialize_acl_key)
qed

lemma grants_collected:
  assumes "sqlite_engine eng view saved" and "\<And>k. view db SUBSPACE_ACL k \<noteq> None \<Longrightarrow> length k = 13"
    and "store_iterate eng s
      (no_values (ascending (iterate_params_new (acl_key 0 0 0 0) (acl_key u32_MAX u32_MAX u8_MAX u32_MAX))))
      (collect_grant a) [] db = Inr ks"
  shows "x \<in> set ks \<longleftrightarrow> (\<exists>g c d. view db SUBSPACE_ACL (key_bytes (acl_key g a c d)) \<noteq> None \<and>
      x = (g, \<lparr>to_account_id = a, to_collection = c, to_document_id = d, permissions = 0\<rparr>))"
proof -
  let ?K = "keys_between (view db) SUBSPACE_ACL (key_bytes (acl_key 0 0 0 0))
      (key_bytes (acl_key u32_MAX u32_MAX u8_MAX u32_MAX))"
  have K: "k \<in> ?K \<longleftrightarrow> (\<exists>g b c d. k = key_bytes (acl_key g b c d) \<and> view db SUBSPACE_ACL k \<noteq> None)" for k
    using acl_key_split [OF assms(2), of k] acl_all_in_range by (fastforce simp: keys_between_def)
  have "x \<in> set ks \<longleftrightarrow> (\<exists>k \<in> ?K. \<exists>xs. grant_of a k [] = Inr xs \<and> x \<in> set xs)"
    using sqlite_engine.iterate_collect(1) [OF assms(1) collect_grant_of _ assms(3), of x]
    by (simp add: no_values_def ascending_def iterate_params_new_def acl_key_subspace entry_def)
  also have "\<dots> \<longleftrightarrow> (\<exists>g b c d. view db SUBSPACE_ACL (key_bytes (acl_key g b c d)) \<noteq> None \<and>
      (\<exists>xs. grant_of a (key_bytes (acl_key g b c d)) [] = Inr xs \<and> x \<in> set xs))"
    unfolding Bex_def K by blast
  finally show ?thesis unfolding grant_of_key by auto
qed

lemma class_row_acl:
  "class_row a (c, d, Acl g) = (SUBSPACE_ACL, key_bytes (acl_key g a c d))"
  by (simp add: class_row_def value_subspace_def acl_key_bytes)

text \<open>C12: revoking all access to an account removes every grant on its documents, whoever received
  it, and no other row; the work is done in batches, and an account with the highest collection
  number is served too.\<close>

theorem acl_revoke_all_exact:
  assumes "sqlite_engine eng view saved" and "\<And>k. view db SUBSPACE_ACL k \<noteq> None \<Longrightarrow> length k = 13"
    and "store_acl_revoke_all eng env s a db = (Inr u, db')"
  shows "view db' = without (view db) {(SUBSPACE_ACL, key_bytes (acl_key g a c d)) | g c d. True}"
proof -
  from assms(3) obtain ks where it: "store_iterate eng s
      (no_values (ascending (iterate_params_new (acl_key 0 0 0 0) (acl_key u32_MAX u32_MAX u8_MAX u32_MAX))))
      (collect_grant a) [] db = Inr ks"
    and cl: "clear_documents eng env s a (map (\<lambda>(g, item). (to_collection item, to_document_id item, Acl g)) ks)
      (batch_with_account_id batch_new a, u8_MAX) db = (Inr u, db')"
    by (auto simp: store_acl_revoke_all_def split: sum.splits)
  have ks: "set ks = (\<lambda>(g, c, d). (g, \<lparr>to_account_id = a, to_collection = c, to_document_id = d, permissions = 0\<rparr>)) `
      {(g, c, d). view db SUBSPACE_ACL (key_bytes (acl_key g a c d)) \<noteq> None}" (is "_ = _ ` ?G")
    using grants_collected [OF assms(1,2) it] by (auto simp only: set_eq_iff image_iff split_def mem_Collect_eq) force+
  have "clears (we_hash env) (fst (batch_with_account_id batch_new a, u8_MAX)) a
      (snd (batch_with_account_id batch_new a, u8_MAX)) {}" by (simp add: clears_start)
  from sqlite_engine.clear_documents_view [OF assms(1) this _ cl]
  have "view db' = without (view db)
      (class_row a ` set (map (\<lambda>(g, item). (to_collection item, to_document_id item, Acl g)) ks))"
    by (simp add: static_class_def split_def)
  also have "class_row a ` set (map (\<lambda>(g, item). (to_collection item, to_document_id item, Acl g)) ks) =
      (\<lambda>(g, c, d). (SUBSPACE_ACL, key_bytes (acl_key g a c d))) ` ?G"
    unfolding set_map ks image_image by (simp add: split_def class_row_acl)
  also have "\<dots> = {(t, k). (t, k) \<in> {(SUBSPACE_ACL, key_bytes (acl_key g a c d)) | g c d. True} \<and> view db t k \<noteq> None}"
    by force
  finally show ?thesis by (simp only: without_present [symmetric])
qed

theorem acl_revoke_all_exact_witness:
  "mem_view (snd (store_acl_revoke_all mem_engine \<lparr>we_hash = (\<lambda>_. 0), we_rng = (\<lambda>_ _. 0)\<rparr> SQLite 1
      (mem_start [((SUBSPACE_ACL, [0, 0, 0, 7, 0, 0, 0, 1, 255, 0, 0, 0, 9]), SqlBlob [3])]))) =
    without (mem_view (mem_start [((SUBSPACE_ACL, [0, 0, 0, 7, 0, 0, 0, 1, 255, 0, 0, 0, 9]), SqlBlob [3])]))
      {(SUBSPACE_ACL, key_bytes (acl_key g 1 c d)) | g c d. True}"
proof -
  let ?db = "mem_start [((SUBSPACE_ACL, [0, 0, 0, 7, 0, 0, 0, 1, 255, 0, 0, 0, 9]), SqlBlob [3])]"
  let ?w = "store_acl_revoke_all mem_engine \<lparr>we_hash = (\<lambda>_. 0), we_rng = (\<lambda>_ _. 0)\<rparr> SQLite 1 ?db"
  have "length k = 13" if "mem_view ?db SUBSPACE_ACL k \<noteq> None" for k
    using that by (auto simp: mem_view_def mem_tables_def mem_start_def split: if_splits)
  moreover have "fst ?w = Inr ()" by code_simp
  then have "?w = (Inr (), snd ?w)" by (metis prod.collapse)
  ultimately show ?thesis by (rule acl_revoke_all_exact [OF mem.sqlite_engine_axioms])
qed

end
