(* ===== verification/Blob_Store.thy ===== *)
theory Blob_Store
  imports Acl_Store
begin

section \<open>Blobs\<close>

text \<open>
  Models \<^verbatim>\<open>src/crates/store/src/dispatch/blob.rs\<close>, the blob store with its optional
  compression, and \<^verbatim>\<open>src/crates/store/src/write/blob.rs\<close>, the links and reservations
  that keep blobs alive and the purge that removes the rest. The blob store is the one that keeps
  its blobs in the data store. The LZ4 codec is third-party code: \<open>compress\<close> and
  \<open>decompress\<close> are arguments.
\<close>

subsection \<open>The blob store\<close>

datatype compression_algo = NoCompression | Lz4

datatype blob_backend = BlobInStore store

record blob_store =
  bs_backend :: blob_backend
  bs_compression :: compression_algo

record lz4_codec =
  lz4_compress :: "bytes \<Rightarrow> bytes"
  lz4_decompress :: "bytes \<Rightarrow> bytes option"

definition MAGIC_MARKER :: u8 where "MAGIC_MARKER = 0xa0"

definition compression_marker :: "compression_algo \<Rightarrow> u8" where
  "compression_marker c = (case c of Lz4 \<Rightarrow> or MAGIC_MARKER 1 | NoCompression \<Rightarrow> 0)"

definition parse_compression :: "bytes \<Rightarrow> compression_algo option" where
  "parse_compression v =
     (if v = ascii ''lz4'' then Some Lz4
      else if v \<in> {ascii ''none'', ascii ''false'', ascii ''disable'', ascii ''disabled''} then Some NoCompression
      else None)"

definition with_compression :: "blob_store \<Rightarrow> compression_algo \<Rightarrow> blob_store" where
  "with_compression bs c = bs\<lparr>bs_compression := c\<rparr>"

definition backend_get_blob ::
    "'db sql_engine \<Rightarrow> blob_backend \<Rightarrow> bytes \<Rightarrow> nat \<Rightarrow> nat \<Rightarrow> 'db \<Rightarrow> bytes option trc_result" where
  "backend_get_blob eng b k range_start range_end db =
     (case b of BlobInStore s \<Rightarrow>
        (case s of
           SQLite \<Rightarrow> sqlite_get_blob eng k range_start range_end db
         | NoStore \<Rightarrow> Inl NotConfigured))"

definition blob_get ::
    "'db sql_engine \<Rightarrow> lz4_codec \<Rightarrow> blob_store \<Rightarrow> bytes \<Rightarrow> nat \<Rightarrow> nat \<Rightarrow> 'db \<Rightarrow> bytes option trc_result" where
  "blob_get eng codec bs k range_start range_end db =
     (case bs_compression bs of
        NoCompression \<Rightarrow> backend_get_blob eng (bs_backend bs) k range_start range_end db
      | Lz4 \<Rightarrow>
          rbind (backend_get_blob eng (bs_backend bs) k 0 usize_MAX db) (\<lambda>result.
            case result of
              None \<Rightarrow> Inr None
            | Some data \<Rightarrow>
                rbind (if (case data of [] \<Rightarrow> 0 | _ \<Rightarrow> last data) = compression_marker Lz4
                       then ok_or DecompressError (lz4_decompress codec (butlast data))
                       else Inr data) (\<lambda>decompressed.
                  Inr (Some
                    (if length decompressed < range_end then decompressed
                     else (case get_range decompressed range_start range_end of
                             None \<Rightarrow> [] | Some r \<Rightarrow> r))))))"

definition blob_put ::
    "'db sql_engine \<Rightarrow> lz4_codec \<Rightarrow> blob_store \<Rightarrow> bytes \<Rightarrow> bytes \<Rightarrow> 'db \<Rightarrow> unit trc_result \<times> 'db" where
  "blob_put eng codec bs k data db =
     (let data' = (case bs_compression bs of
           NoCompression \<Rightarrow> data
         | Lz4 \<Rightarrow> lz4_compress codec data @ [compression_marker Lz4])
      in case bs_backend bs of BlobInStore s \<Rightarrow>
           (case s of SQLite \<Rightarrow> sqlite_put_blob eng k data' db | NoStore \<Rightarrow> (Inl NotConfigured, db)))"

definition blob_delete :: "'db sql_engine \<Rightarrow> blob_store \<Rightarrow> bytes \<Rightarrow> 'db \<Rightarrow> bool trc_result \<times> 'db" where
  "blob_delete eng bs k db =
     (case bs_backend bs of BlobInStore s \<Rightarrow>
        (case s of SQLite \<Rightarrow> sqlite_delete_blob eng k db | NoStore \<Rightarrow> (Inl NotConfigured, db)))"

subsection \<open>Links and reservations\<close>

record blob_quota =
  bq_bytes :: nat
  bq_count :: nat

datatype blob_class = Reserved u32 u64 | Linked u32 u8 u32

definition hash_default :: blob_hash where "hash_default = replicate 32 0"
definition hash_new_max :: blob_hash where "hash_new_max = replicate 32 u8_MAX"

definition blob_key :: "u32 \<Rightarrow> u8 \<Rightarrow> u32 \<Rightarrow> blob_op \<Rightarrow> key" where
  "blob_key account_id collection document_id op =
     key_of_value \<lparr>vk_account_id = account_id, vk_collection = collection,
       vk_document_id = document_id, vk_class = Blob op\<rparr>"

definition store_blob_exists :: "'db sql_engine \<Rightarrow> store \<Rightarrow> blob_hash \<Rightarrow> 'db \<Rightarrow> bool trc_result" where
  "store_blob_exists eng s h db =
     rbind (store_get_value eng s deserialize_unit (blob_key 0 0 0 (Commit h)) db) (\<lambda>v. Inr (v \<noteq> None))"

definition count_reservation :: "u64 \<Rightarrow> blob_quota callback" where
  "count_reservation now k v quota =
     rbind (deserialize_be_u64 k (usize_sub (length k) U64_LEN)) (\<lambda>until.
       if now < until \<and> length v = U32_LEN then
         rbind (deserialize_u32 v) (\<lambda>n.
           Inr (True, if 0 < n then
               quota\<lparr>bq_bytes := bq_bytes quota + unat n, bq_count := bq_count quota + 1\<rparr>
             else quota))
       else Inr (True, quota))"

definition store_blob_quota :: "'db sql_engine \<Rightarrow> store \<Rightarrow> u64 \<Rightarrow> u32 \<Rightarrow> 'db \<Rightarrow> blob_quota trc_result" where
  "store_blob_quota eng s now account_id db =
     store_iterate eng s
       (ascending (iterate_params_new (blob_key account_id 0 0 (Reserve hash_default 0))
          (blob_key (account_id + 1) 0 0 (Reserve hash_default 0))))
       (count_reservation now) \<lparr>bq_bytes = 0, bq_count = 0\<rparr> db"

definition store_blob_has_access ::
    "'db sql_engine \<Rightarrow> store \<Rightarrow> u64 \<Rightarrow> blob_hash \<Rightarrow> blob_class \<Rightarrow> 'db \<Rightarrow> bool trc_result" where
  "store_blob_has_access eng s now h c db =
     (case (case c of
          Reserved account_id expires \<Rightarrow>
            (if now < expires then Some (blob_key account_id 0 0 (Reserve h expires)) else None)
        | Linked account_id collection document_id \<Rightarrow>
            Some (blob_key account_id collection document_id (Link h))) of
        None \<Rightarrow> Inr False
      | Some k \<Rightarrow> rbind (store_get_value eng s deserialize_unit k db) (\<lambda>v. Inr (v \<noteq> None)))"

subsection \<open>Purging blobs\<close>

type_synonym purge_keys = "(u32 \<times> blob_op) list"

definition reservation_callback :: "u64 \<Rightarrow> (purge_keys \<times> blob_hash set) callback" where
  "reservation_callback now k v st =
     (let (delete_keys, active_hashes) = st
      in rbind (ok_or DataCorruption (get_range k U32_LEN (U32_LEN + BLOB_HASH_LEN))) (\<lambda>h.
         rbind (deserialize_be_u64 k (usize_sub (length k) U64_LEN)) (\<lambda>until.
           if until \<le> now then
             rbind (deserialize_be_u32 k 0) (\<lambda>account_id.
               Inr (True, delete_keys @ [(account_id, Reserve h until)], active_hashes))
           else Inr (True, delete_keys, insert h active_hashes))))"

definition link_callback :: "blob_hash set \<Rightarrow> (purge_keys \<times> blob_hash) callback" where
  "link_callback active_hashes k v st =
     (let (delete_keys, last_hash) = st
      in rbind (ok_or DataCorruption (get_range k 0 BLOB_HASH_LEN)) (\<lambda>h.
         rbind (deserialize_be_u32 k (usize_sub (length k) U32_LEN)) (\<lambda>document_id.
           Inr (True,
             if document_id \<noteq> u32_MAX then (delete_keys, if last_hash \<noteq> h then h else last_hash)
             else if last_hash \<noteq> h \<and> h \<notin> active_hashes then (delete_keys @ [(0, Commit h)], last_hash)
             else (delete_keys, last_hash)))))"

text \<open>The blobs that are no longer referenced are deleted first.\<close>

fun delete_blobs :: "'db sql_engine \<Rightarrow> blob_store \<Rightarrow> purge_keys \<Rightarrow> 'db \<Rightarrow> unit trc_result \<times> 'db" where
  "delete_blobs eng bs [] db = (Inr (), db)"
| "delete_blobs eng bs ((_, op) # ks) db =
     (case op of
        Commit h \<Rightarrow>
          (case blob_delete eng bs h db of
             (Inl e, db') \<Rightarrow> (Inl e, db')
           | (Inr _, db') \<Rightarrow> delete_blobs eng bs ks db')
      | _ \<Rightarrow> delete_blobs eng bs ks db)"

definition is_reserve :: "blob_op \<Rightarrow> bool" where
  "is_reserve op = (case op of Reserve _ _ \<Rightarrow> True | _ \<Rightarrow> False)"

definition push_purge :: "u32 \<Rightarrow> blob_op \<Rightarrow> batch \<times> u32 \<Rightarrow> batch \<times> u32" where
  "push_purge account_id op b =
     (let (ops, last_account_id) = b;
          (ops', last_account_id') =
            (if is_reserve op \<and> account_id \<noteq> last_account_id
             then (batch_with_account_id ops account_id, account_id) else (ops, last_account_id))
      in (ops' @ [Value (Blob op) ClearValue], last_account_id'))"

fun purge_hashes ::
    "'db sql_engine \<Rightarrow> write_env \<Rightarrow> store \<Rightarrow> purge_keys \<Rightarrow> batch \<times> u32 \<Rightarrow> 'db \<Rightarrow> unit trc_result \<times> 'db" where
  "purge_hashes eng env s [] b db =
     (if \<not> batch_is_empty (fst b) then
        (case store_write eng env s (fst b) db of
           (Inl e, db') \<Rightarrow> (Inl e, db')
         | (Inr _, db') \<Rightarrow> (Inr (), db'))
      else (Inr (), db))"
| "purge_hashes eng env s ((account_id, op) # ks) b db =
     (if 1000 \<le> length (fst b) then
        (case store_write eng env s (fst b) db of
           (Inl e, db') \<Rightarrow> (Inl e, db')
         | (Inr _, db') \<Rightarrow> purge_hashes eng env s ks (push_purge account_id op (batch_new, u32_MAX)) db')
      else purge_hashes eng env s ks (push_purge account_id op b) db)"

definition reservations_range :: iterate_params where
  "reservations_range =
     no_values (ascending (iterate_params_new (blob_key 0 0 0 (Reserve hash_default 0))
       (blob_key u32_MAX 0 0 (Reserve hash_default 0))))"

definition links_range :: iterate_params where
  "links_range =
     no_values (ascending (iterate_params_new (blob_key 0 0 0 (Link hash_default))
       (blob_key u32_MAX u8_MAX u32_MAX (Link hash_new_max))))"

definition store_purge_blobs ::
    "'db sql_engine \<Rightarrow> write_env \<Rightarrow> store \<Rightarrow> blob_store \<Rightarrow> u64 \<Rightarrow> 'db \<Rightarrow> unit trc_result \<times> 'db" where
  "store_purge_blobs eng env s bs now db =
     (case store_iterate eng s reservations_range (reservation_callback now) ([], {}) db of
        Inl e \<Rightarrow> (Inl e, db)
      | Inr (delete_keys, active_hashes) \<Rightarrow>
          (case store_iterate eng s links_range (link_callback active_hashes) (delete_keys, hash_default) db of
             Inl e \<Rightarrow> (Inl e, db)
           | Inr (delete_keys, last_hash) \<Rightarrow>
               (case delete_blobs eng bs delete_keys db of
                  (Inl e, db') \<Rightarrow> (Inl e, db')
                | (Inr _, db') \<Rightarrow> purge_hashes eng env s delete_keys (batch_new, u32_MAX) db')))"

text \<open>A key that is too short to hold a collection panics; the worker reports that as an error.\<close>

definition collect_link :: "u32 \<Rightarrow> (u8 \<times> u32 \<times> blob_op) list callback" where
  "collect_link account_id k v delete_keys =
     rbind (deserialize_be_u32 k (usize_sub (length k) U32_LEN)) (\<lambda>document_id.
       if document_id \<noteq> u32_MAX then
         rbind (deserialize_be_u32 k BLOB_HASH_LEN) (\<lambda>account.
           if account = account_id then
             rbind (ok_or DataCorruption (get_range k 0 BLOB_HASH_LEN)) (\<lambda>h.
             rbind (ok_or ThreadError (nth_opt k (BLOB_HASH_LEN + U32_LEN))) (\<lambda>collection.
               Inr (True, delete_keys @ [(collection, document_id, Link h)])))
           else Inr (True, delete_keys))
       else Inr (True, delete_keys))"

definition store_blob_hash_unlink_account ::
    "'db sql_engine \<Rightarrow> write_env \<Rightarrow> store \<Rightarrow> u32 \<Rightarrow> 'db \<Rightarrow> unit trc_result \<times> 'db" where
  "store_blob_hash_unlink_account eng env s account_id db =
     (case store_iterate eng s links_range (collect_link account_id) [] db of
        Inl e \<Rightarrow> (Inl e, db)
      | Inr delete_keys \<Rightarrow>
          clear_documents eng env s account_id
            (map (\<lambda>(c, d, op). (c, d, Blob op)) delete_keys)
            (batch_with_account_id batch_new account_id, u8_MAX) db)"

subsection \<open>What a purge removes\<close>

lemma run_callback_fold:
  assumes "\<And>k v st. (k, v) \<in> set kvs \<Longrightarrow> cb k v st = Inr (True, g k st)"
  shows "run_callback cb kvs st = Inr (fold g (map fst kvs) st)"
  using assms
proof (induction kvs arbitrary: st)
  case (Cons kv kvs)
  then show ?case by (cases kv) auto
qed simp

abbreviation reserve_row :: "u32 \<Rightarrow> blob_hash \<Rightarrow> u64 \<Rightarrow> bytes" where
  "reserve_row a h until \<equiv> be_u32 a @ h @ be_u64 until"

abbreviation link_row :: "blob_hash \<Rightarrow> u32 \<Rightarrow> u8 \<Rightarrow> u32 \<Rightarrow> bytes" where
  "link_row h a c d \<equiv> h @ be_u32 a @ c # be_u32 d"

abbreviation commit_row :: "blob_hash \<Rightarrow> bytes" where
  "commit_row h \<equiv> link_row h u32_MAX 0 u32_MAX"

text \<open>The rows that the server writes: links name an account and a document below the reserved
  maximum, which marks the commit of a blob.\<close>

definition wf_reservations :: "tables \<Rightarrow> bool" where
  "wf_reservations R \<longleftrightarrow> (\<forall>k. R SUBSPACE_BLOB_RESERVE k \<noteq> None \<longrightarrow>
     (\<exists>a h u. a \<noteq> u32_MAX \<and> length h = 32 \<and> k = reserve_row a h u))"

definition wf_links :: "tables \<Rightarrow> bool" where
  "wf_links R \<longleftrightarrow> (\<forall>k. R SUBSPACE_BLOB_LINK k \<noteq> None \<longrightarrow>
     (\<exists>h a c d. length h = 32 \<and> k = link_row h a c d \<and>
        (if d = u32_MAX then a = u32_MAX \<and> c = 0 else a \<noteq> u32_MAX)))"

text \<open>Blobs that are committed, not linked and not reserved any longer.\<close>

definition unreferenced :: "tables \<Rightarrow> u64 \<Rightarrow> blob_hash set" where
  "unreferenced R now =
     {h. length h = 32 \<and> h \<noteq> hash_default \<and> R SUBSPACE_BLOB_LINK (commit_row h) \<noteq> None \<and>
       (\<forall>a c d. d \<noteq> u32_MAX \<longrightarrow> R SUBSPACE_BLOB_LINK (link_row h a c d) = None) \<and>
       (\<forall>a u. now < u \<longrightarrow> R SUBSPACE_BLOB_RESERVE (reserve_row a h u) = None)}"

definition reservation_step :: "u64 \<Rightarrow> bytes \<Rightarrow> purge_keys \<times> blob_hash set \<Rightarrow> purge_keys \<times> blob_hash set" where
  "reservation_step now k st =
     (let h = take 32 (drop 4 k); u = from_be_u64 (drop 36 k)
      in if u \<le> now then (fst st @ [(from_be_u32 (take 4 k), Reserve h u)], snd st)
         else (fst st, insert h (snd st)))"

lemma reservation_callback_row:
  assumes "length h = 32"
  shows "reservation_callback now (reserve_row a h u) v st =
    Inr (True, reservation_step now (reserve_row a h u) st)"
proof -
  have "get_range (reserve_row a h u) 4 36 = Some h" using get_range_mid' [of 4 "be_u32 a" 36 h] assms by simp
  moreover have "deserialize_be_u64 (reserve_row a h u) 36 = Inr u"
    using deserialize_be_end(2) [of 36 "be_u32 a @ h"] assms by simp
  moreover have "deserialize_be_u32 (reserve_row a h u) 0 = Inr a"
    using deserialize_be_mid(1) [of 0 "[]"] by simp
  ultimately show ?thesis
    using assms by (auto simp: reservation_callback_def reservation_step_def Let_def split: prod.splits)
qed

lemma reservation_step_row:
  "length h = 32 \<Longrightarrow> reservation_step now (reserve_row a h u) st =
    (if u \<le> now then (fst st @ [(a, Reserve h u)], snd st) else (fst st, insert h (snd st)))"
  by (simp add: reservation_step_def)

lemma reservation_steps:
  assumes "\<forall>k \<in> set ks. \<exists>a h u. length h = 32 \<and> k = reserve_row a h u"
  shows "set (fst (fold (reservation_step now) ks (dk, act))) =
      set dk \<union> {(a, Reserve h u) | a h u. length h = 32 \<and> reserve_row a h u \<in> set ks \<and> u \<le> now} \<and>
    snd (fold (reservation_step now) ks (dk, act)) =
      act \<union> {h. length h = 32 \<and> (\<exists>a u. reserve_row a h u \<in> set ks \<and> now < u)}"
  using assms
proof (induction ks arbitrary: dk act)
  case (Cons k ks)
  from Cons.prems obtain a h u where k: "length h = 32" "k = reserve_row a h u" by auto
  from Cons.prems have ks: "\<forall>k \<in> set ks. \<exists>a h u. length h = 32 \<and> k = reserve_row a h u" by simp
  show ?case
  proof (cases "u \<le> now")
    case True
    with Cons.IH [OF ks, of "dk @ [(a, Reserve h u)]" act] k show ?thesis
      by (auto simp: reservation_step_row)
  next
    case False
    with Cons.IH [OF ks, of dk "insert h act"] k show ?thesis
      by (auto simp: reservation_step_row not_le)
  qed
qed simp

definition link_step :: "blob_hash set \<Rightarrow> bytes \<Rightarrow> purge_keys \<times> blob_hash \<Rightarrow> purge_keys \<times> blob_hash" where
  "link_step act k st =
     (let h = take 32 k
      in if drop 37 k \<noteq> be_u32 u32_MAX then (fst st, h)
         else if snd st \<noteq> h \<and> h \<notin> act then (fst st @ [(0, Commit h)], snd st) else st)"

lemma link_callback_row:
  assumes "length h = 32"
  shows "link_callback act (link_row h a c d) v st = Inr (True, link_step act (link_row h a c d) st)"
proof -
  have "get_range (link_row h a c d) 0 32 = Some h" using get_range_mid' [of 0 "[]" 32 h] assms by simp
  moreover have "deserialize_be_u32 (link_row h a c d) 37 = Inr d"
    using deserialize_be_end(1) [of 37 "h @ be_u32 a @ [c]"] assms by simp
  ultimately show ?thesis
    using assms by (auto simp: link_callback_def link_step_def Let_def split: prod.splits)
qed

text \<open>In the order of keys the links of a blob precede the row that marks its commit, so the last
  hash seen tells whether the blob is linked.\<close>

definition is_commit :: "bytes \<Rightarrow> bool" where
  "is_commit k \<longleftrightarrow> drop 37 k = be_u32 u32_MAX"

definition linked_in :: "bytes list \<Rightarrow> blob_hash \<Rightarrow> bool" where
  "linked_in ks h \<longleftrightarrow> (\<exists>k \<in> set ks. \<not> is_commit k \<and> take 32 k = h)"

lemma take_mono:
  assumes "k \<le> k'" and "n \<le> length k" and "n \<le> length (k' :: bytes)"
  shows "take n k \<le> take n k'"
  using assms le_append_same_length [of "take n k" "take n k'" "drop n k" "drop n k'"] by auto

lemma hash_default_least: "length h = 32 \<Longrightarrow> hash_default \<le> h"
  using replicate_0_least [of h] by (simp add: hash_default_def)

definition last_link :: "bytes list \<Rightarrow> blob_hash \<Rightarrow> bool" where
  "last_link ks l \<longleftrightarrow>
     (if \<exists>k \<in> set ks. \<not> is_commit k then
        \<exists>k \<in> set ks. \<not> is_commit k \<and> l = take 32 k \<and> (\<forall>k' \<in> set ks. \<not> is_commit k' \<longrightarrow> k' \<le> k)
      else l = hash_default)"

lemma last_link_commit:
  assumes "last_link ks l" and "\<forall>k' \<in> set ks. k' < k" and "\<forall>k' \<in> set (k # ks). 32 \<le> length k'"
  shows "l = take 32 k \<longleftrightarrow> linked_in ks (take 32 k) \<or> take 32 k = hash_default"
proof (cases "\<exists>k \<in> set ks. \<not> is_commit k")
  case False
  then show ?thesis using assms(1) by (auto simp: last_link_def linked_in_def)
next
  case True
  then obtain m where m: "m \<in> set ks" "\<not> is_commit m" "l = take 32 m"
    "\<forall>k' \<in> set ks. \<not> is_commit k' \<longrightarrow> k' \<le> m"
    using assms(1) by (auto simp: last_link_def)
  have le: "take 32 m \<le> take 32 k" using assms(2,3) m(1) by (intro take_mono) auto
  show ?thesis
  proof
    assume "l = take 32 k"
    then show "linked_in ks (take 32 k) \<or> take 32 k = hash_default" using m by (auto simp: linked_in_def)
  next
    assume "linked_in ks (take 32 k) \<or> take 32 k = hash_default"
    then show "l = take 32 k"
    proof
      assume "linked_in ks (take 32 k)"
      then obtain k' where k': "k' \<in> set ks" "\<not> is_commit k'" "take 32 k' = take 32 k" by (auto simp: linked_in_def)
      then have "take 32 k' \<le> take 32 m" using m(1,4) assms(3) by (intro take_mono) auto
      then show ?thesis using le k'(3) m(3) by simp
    next
      assume "take 32 k = hash_default"
      then show ?thesis using le hash_default_least [of "take 32 m"] m(1,3) assms(3) by auto
    qed
  qed
qed

definition dead_in :: "blob_hash set \<Rightarrow> bytes list \<Rightarrow> blob_hash set" where
  "dead_in act ks = {h. (\<exists>k \<in> set ks. is_commit k \<and> take 32 k = h) \<and> h \<notin> act \<and>
     h \<noteq> hash_default \<and> \<not> linked_in ks h}"

lemma dead_in_commit:
  "is_commit k \<Longrightarrow> dead_in act (ks @ [k]) = dead_in act ks \<union>
     (if take 32 k \<notin> act \<and> take 32 k \<noteq> hash_default \<and> \<not> linked_in ks (take 32 k) then {take 32 k} else {})"
  by (auto simp: dead_in_def linked_in_def)

lemma dead_in_link:
  "\<not> is_commit k \<Longrightarrow> \<forall>k' \<in> set ks. is_commit k' \<longrightarrow> take 32 k' \<noteq> take 32 k \<Longrightarrow>
    dead_in act (ks @ [k]) = dead_in act ks"
  by (auto simp: dead_in_def linked_in_def)

lemma link_steps:
  assumes "sorted_wrt (<) ks" and "\<forall>k \<in> set ks. 32 \<le> length k"
    and "\<forall>k \<in> set ks. \<forall>k' \<in> set ks. is_commit k \<and> \<not> is_commit k' \<and> take 32 k = take 32 k' \<longrightarrow> k' < k"
  shows "set (fst (fold (link_step act) ks (dk, hash_default))) =
      set dk \<union> (\<lambda>h. (0, Commit h)) ` dead_in act ks \<and>
    last_link ks (snd (fold (link_step act) ks (dk, hash_default)))"
  using assms
proof (induction ks rule: rev_induct)
  case Nil
  then show ?case by (simp add: last_link_def dead_in_def)
next
  case (snoc k ks)
  have less: "\<forall>k' \<in> set ks. k' < k" using snoc.prems(1) by (simp add: sorted_wrt_append)
  let ?st = "fold (link_step act) ks (dk, hash_default)"
  have IH: "set (fst ?st) = set dk \<union> (\<lambda>h. (0, Commit h)) ` dead_in act ks" "last_link ks (snd ?st)"
    using snoc.IH snoc.prems by (simp_all add: sorted_wrt_append)
  show ?case
  proof (cases "is_commit k")
    case True
    have l: "snd ?st = take 32 k \<longleftrightarrow> linked_in ks (take 32 k) \<or> take 32 k = hash_default"
      using last_link_commit [OF IH(2) less] snoc.prems(2) by simp
    have "link_step act k ?st = (if snd ?st \<noteq> take 32 k \<and> take 32 k \<notin> act
        then (fst ?st @ [(0, Commit (take 32 k))], snd ?st) else ?st)"
      using True by (simp add: link_step_def Let_def is_commit_def)
    moreover have "last_link (ks @ [k]) (snd ?st)" using IH(2) True by (auto simp: last_link_def)
    ultimately show ?thesis unfolding dead_in_commit [OF True] by (auto simp: IH(1) l)
  next
    case False
    have "\<forall>k' \<in> set ks. is_commit k' \<longrightarrow> take 32 k' \<noteq> take 32 k"
      using snoc.prems(3) False less by force
    moreover have "link_step act k ?st = (fst ?st, take 32 k)"
      using False by (simp add: link_step_def Let_def is_commit_def)
    moreover have "last_link (ks @ [k]) (take 32 k)"
      using False less by (auto simp: last_link_def intro: less_imp_le)
    ultimately show ?thesis by (simp add: dead_in_link [OF False] IH(1))
  qed
qed

lemma replicate_max_greatest: "h \<le> replicate (length h) (u8_MAX :: u8)"
proof (induction h)
  case (Cons x h)
  then show ?case using word_order.not_eq_extremum [of x] by auto
qed simp

lemma blob_key_bytes:
  "key_bytes (blob_key a c d (Reserve h u)) = reserve_row a h u"
  "key_bytes (blob_key a c d (Link h)) = link_row h a c d"
  "key_bytes (blob_key a c d (Commit h)) = commit_row h"
  "key_subspace (blob_key a c d (Reserve h u)) = SUBSPACE_BLOB_RESERVE"
  "key_subspace (blob_key a c d (Link h)) = SUBSPACE_BLOB_LINK"
  "key_subspace (blob_key a c d (Commit h)) = SUBSPACE_BLOB_LINK"
  by (simp_all add: blob_key_def key_of_value_def value_class_serialize_def value_subspace_def)

lemma reserve_row_in_range:
  assumes "length h = 32" and "a \<noteq> u32_MAX"
  shows "reserve_row 0 hash_default 0 \<le> reserve_row a h u \<and> reserve_row a h u \<le> reserve_row u32_MAX hash_default 0"
  using assms hash_default_least [OF assms(1)] word_order.not_eq_extremum [of a]
  by (auto simp: word_gt_0 le_less hash_default_def le_append_same_length less_append_same_length)

lemma link_tail_range:
  "be_u32 0 @ [0] @ be_u32 0 \<le> be_u32 a @ [c] @ be_u32 d"
  "be_u32 a @ [c] @ be_u32 d \<le> be_u32 u32_MAX @ [u8_MAX] @ be_u32 u32_MAX"
  using word_order.not_eq_extremum [of a] word_order.not_eq_extremum [of c] word_order.not_eq_extremum [of d]
  by (auto simp: le_less word_gt_0)

lemma link_row_in_range:
  assumes "length h = 32"
  shows "link_row hash_default 0 0 0 \<le> link_row h a c d \<and> link_row h a c d \<le> link_row hash_new_max u32_MAX u8_MAX u32_MAX"
proof -
  have "h \<le> hash_new_max" using replicate_max_greatest [of h] assms by (simp add: hash_new_max_def)
  moreover have "length hash_new_max = length h" "length hash_default = length h"
    using assms by (simp_all add: hash_new_max_def hash_default_def)
  ultimately show ?thesis
    using hash_default_least [OF assms] link_tail_range [of a c d]
    by (simp only: le_append_same_length) (auto simp: le_less)
qed

lemma link_row_parts [simp]:
  assumes "length h = 32"
  shows "take 32 (link_row h a c d) = h" and "is_commit (link_row h a c d) \<longleftrightarrow> d = u32_MAX"
  using assms by (simp_all add: is_commit_def)

lemma link_before_commit:
  "length h = 32 \<Longrightarrow> a \<noteq> u32_MAX \<Longrightarrow> link_row h a c d < commit_row h"
  using word_order.not_eq_extremum [of a] by (simp add: less_append_same_length)

lemma dead_in_unreferenced:
  assumes "wf_links R" and "set ks = {k. R SUBSPACE_BLOB_LINK k \<noteq> None}"
    and "act = {h. length h = 32 \<and> (\<exists>a u. R SUBSPACE_BLOB_RESERVE (reserve_row a h u) \<noteq> None \<and> now < u)}"
  shows "dead_in act ks = unreferenced R now"
proof -
  have wf: "\<exists>h a c d. length h = 32 \<and> k = link_row h a c d \<and>
      (if d = u32_MAX then a = u32_MAX \<and> c = 0 else a \<noteq> u32_MAX)" if "k \<in> set ks" for k
    using that assms(1) unfolding assms(2) wf_links_def by blast
  have c: "(\<exists>k \<in> set ks. is_commit k \<and> take 32 k = h) \<longleftrightarrow> length h = 32 \<and> commit_row h \<in> set ks" for h
    using wf by (metis link_row_parts)
  have l: "linked_in ks h \<longleftrightarrow> (\<exists>a c d. d \<noteq> u32_MAX \<and> link_row h a c d \<in> set ks)" if "length h = 32" for h
    unfolding linked_in_def using wf that by (metis link_row_parts)
  have "h \<in> dead_in act ks \<longleftrightarrow> h \<in> unreferenced R now" for h
  proof (cases "length h = 32")
    case True
    then show ?thesis
      unfolding dead_in_def c unreferenced_def assms(3) mem_Collect_eq l [OF True]
      unfolding assms(2) mem_Collect_eq by (simp, metis)
  qed (simp add: dead_in_def c unreferenced_def)
  then show ?thesis by blast
qed

context sqlite_engine
begin

lemma reservations_scan:
  assumes "wf_reservations (view db)"
    and "store_iterate eng s reservations_range (reservation_callback now) ([], {}) db = Inr (dk, act)"
  shows "set dk = {(a, Reserve h u) | a h u. length h = 32 \<and>
      view db SUBSPACE_BLOB_RESERVE (reserve_row a h u) \<noteq> None \<and> u \<le> now}"
    and "act = {h. length h = 32 \<and> (\<exists>a u. view db SUBSPACE_BLOB_RESERVE (reserve_row a h u) \<noteq> None \<and> now < u)}"
proof -
  let ?ks = "map fst (entries (view db) reservations_range)"
  have "set ?ks = keys_between (view db) SUBSPACE_BLOB_RESERVE (reserve_row 0 hash_default 0) (reserve_row u32_MAX hash_default 0)"
    by (subst entries_keys) (simp_all add: reservations_range_def no_values_def ascending_def
        iterate_params_new_def blob_key_bytes)
  also have "\<dots> = {k. view db SUBSPACE_BLOB_RESERVE k \<noteq> None}"
    using assms(1) reserve_row_in_range by (fastforce simp: keys_between_def wf_reservations_def)
  finally have ks: "set ?ks = {k. view db SUBSPACE_BLOB_RESERVE k \<noteq> None}" .
  have wf: "\<forall>k \<in> set ?ks. \<exists>a h u. length h = 32 \<and> k = reserve_row a h u"
    unfolding ks using assms(1) by (auto simp: wf_reservations_def)
  have "reservation_callback now k v st = Inr (True, reservation_step now k st)"
    if "(k, v) \<in> set (entries (view db) reservations_range)" for k v st
  proof -
    have "k \<in> set ?ks" using that by force
    then obtain a h u where "length h = 32" "k = reserve_row a h u" using wf by blast
    then show ?thesis using reservation_callback_row by simp
  qed
  from run_callback_fold [OF this, where st = "([], {})"] store_iterate_run [OF assms(2)]
  have "(dk, act) = fold (reservation_step now) ?ks ([], {})" by simp
  with reservation_steps [OF wf, of now "[]" "{}"] ks
  show "set dk = {(a, Reserve h u) | a h u. length h = 32 \<and>
      view db SUBSPACE_BLOB_RESERVE (reserve_row a h u) \<noteq> None \<and> u \<le> now}"
    and "act = {h. length h = 32 \<and> (\<exists>a u. view db SUBSPACE_BLOB_RESERVE (reserve_row a h u) \<noteq> None \<and> now < u)}"
    by (simp_all only: fst_conv snd_conv prod.sel mem_Collect_eq set_simps Un_empty_left) (metis fst_conv snd_conv)+
qed

lemma links_scan:
  assumes "wf_links (view db)"
    and "act = {h. length h = 32 \<and> (\<exists>a u. view db SUBSPACE_BLOB_RESERVE (reserve_row a h u) \<noteq> None \<and> now < u)}"
    and "store_iterate eng s links_range (link_callback act) (dk, hash_default) db = Inr (dk', l)"
  shows "set dk' = set dk \<union> (\<lambda>h. (0, Commit h)) ` unreferenced (view db) now"
proof -
  let ?ks = "map fst (entries (view db) links_range)"
  have "set ?ks = keys_between (view db) SUBSPACE_BLOB_LINK (link_row hash_default 0 0 0)
      (link_row hash_new_max u32_MAX u8_MAX u32_MAX)"
    by (subst entries_keys) (simp_all add: links_range_def no_values_def ascending_def
        iterate_params_new_def blob_key_bytes)
  also have "\<dots> = {k. view db SUBSPACE_BLOB_LINK k \<noteq> None}"
    using assms(1) link_row_in_range unfolding keys_between_def wf_links_def by blast
  finally have ks: "set ?ks = {k. view db SUBSPACE_BLOB_LINK k \<noteq> None}" .
  have wf: "\<exists>h a c d. length h = 32 \<and> k = link_row h a c d \<and>
      (if d = u32_MAX then a = u32_MAX \<and> c = 0 else a \<noteq> u32_MAX)" if "k \<in> set ?ks" for k
    using that assms(1) unfolding ks wf_links_def by blast
  have "link_callback act k v st = Inr (True, link_step act k st)"
    if "(k, v) \<in> set (entries (view db) links_range)" for k v st
  proof -
    have "k \<in> set ?ks" using that by force
    then show ?thesis using wf link_callback_row by blast
  qed
  from run_callback_fold [OF this, where st = "(dk, hash_default)"] store_iterate_run [OF assms(3)]
  have f: "(dk', l) = fold (link_step act) ?ks (dk, hash_default)" by simp
  have "sorted_wrt (<) ?ks"
    by (rule scan_keys [OF sqlite_engine_axioms]) (simp_all add: links_range_def no_values_def ascending_def iterate_params_new_def)
  moreover have "\<forall>k \<in> set ?ks. 32 \<le> length k" using wf by fastforce
  moreover have "k' < k" if "k \<in> set ?ks" "k' \<in> set ?ks" "is_commit k" "\<not> is_commit k'" "take 32 k = take 32 k'" for k k'
    using wf [OF that(1)] wf [OF that(2)] that(3-5) link_before_commit by (auto split: if_splits)
  ultimately have "set dk' = set dk \<union> (\<lambda>h. (0, Commit h)) ` dead_in act ?ks"
    using link_steps [of ?ks act dk] f by (metis fst_conv)
  then show ?thesis using dead_in_unreferenced [OF assms(1) ks assms(2)] by simp
qed

lemma delete_blobs_view:
  "delete_blobs eng bs ks db = (Inr u, db') \<Longrightarrow>
    view db' = without (view db) {(SUBSPACE_BLOBS, h) | h a. (a, Commit h) \<in> set ks}"
proof (induction ks arbitrary: db)
  case (Cons k ks)
  obtain a op where k: "k = (a, op)" by (cases k)
  show ?case
  proof (cases op)
    case (Commit h)
    with Cons.prems k obtain b db1 where d: "blob_delete eng bs h db = (Inr b, db1)"
      and rest: "delete_blobs eng bs ks db1 = (Inr u, db')" by (auto split: prod.splits sum.splits)
    from d have "view db1 = without (view db) {(SUBSPACE_BLOBS, h)}"
      by (auto simp: blob_delete_def sqlite_delete_blob_def exec_ok_Inr tbl_put_None dest!: delete_key
          split: blob_backend.splits store.splits if_splits prod.splits sum.splits)
    with Cons.IH [OF rest] show ?thesis
      using k Commit by simp (rule arg_cong [where f = "without (view db)"], auto)
  qed (use Cons k in auto)
qed simp

end

definition purge_row :: "u32 \<times> blob_op \<Rightarrow> u8 \<times> bytes" where
  "purge_row p = (case p of (a, op) \<Rightarrow>
     (value_subspace (Blob op :: u32 value_class) 0, serialize_blob_op op a 0 0))"

lemma clears_push_purge:
  assumes "clears h ops la u8_MAX P" and "is_reserve op \<or> (\<exists>x. op = Commit x)"
  shows "clears h (fst (push_purge a op (ops, la))) (snd (push_purge a op (ops, la))) u8_MAX
    (insert (purge_row (a, op)) P)"
proof -
  let ?pre = "if is_reserve op \<and> a \<noteq> la then [AccountId a] else []"
  let ?la = "if is_reserve op \<and> a \<noteq> la then a else la"
  have push: "push_purge a op (ops, la) = (ops @ ?pre @ [Value (Blob op) ClearValue], ?la)"
    by (simp add: push_purge_def batch_with_account_id_def)
  have "ws_account_id st = ?la \<and> ws_collection st = u8_MAX \<and> R' = without R (insert (purge_row (a, op)) P)"
    if steps: "ops_steps h (ops @ ?pre @ [Value (Blob op) ClearValue]) (write_state_new, R) (st, R')" for R st R'
  proof -
    from steps obtain st1 R1 where s1: "ops_steps h ops (write_state_new, R) (st1, R1)"
      and s2: "ops_steps h (?pre @ [Value (Blob op) ClearValue]) (st1, R1) (st, R')"
      by (auto simp: ops_steps_append)
    from s1 assms(1) have st1: "ws_account_id st1 = la" "ws_collection st1 = u8_MAX" "R1 = without R P"
      by (auto simp: clears_def)
    define st2 where "st2 = st1\<lparr>ws_account_id := ?la\<rparr>"
    have "st = st2 \<and> R' = tbl_put R1 (value_subspace (Blob op :: maybe_dynamic_id value_class) (ws_collection st2))
        (value_class_key (Blob op) st2) None"
      using s2 st1(1) by (auto simp: ops_steps_simps op_step_simps st2_def split: if_splits)
    moreover have "(value_subspace (Blob op :: maybe_dynamic_id value_class) (ws_collection st2),
        value_class_key (Blob op) st2) = purge_row (a, op)"
      using assms(2) by (auto simp: purge_row_def value_class_key_def value_class_serialize_def
          value_subspace_def is_reserve_def st2_def st1(1) split: blob_op.splits)
    ultimately show ?thesis using st1 by (auto simp: st2_def tbl_put_None)
  qed
  moreover have "\<not> batch_is_empty (ops @ ?pre @ [Value (Blob op) ClearValue])"
    by (auto simp: batch_is_empty_def)
  ultimately show ?thesis unfolding push by (auto simp: clears_def)
qed

lemma clears_new: "clears h batch_new u32_MAX u8_MAX {}"
  by (auto simp: clears_def batch_new_def ops_steps_simps write_state_new_def)

context sqlite_engine
begin

lemma purge_hashes_view:
  "\<lbrakk>clears (we_hash env) (fst b) (snd b) u8_MAX P; \<forall>(a, op) \<in> set ks. is_reserve op \<or> (\<exists>x. op = Commit x);
    purge_hashes eng env s ks b db = (Inr u, db')\<rbrakk> \<Longrightarrow>
   view db' = without (view db) (P \<union> purge_row ` set ks)"
proof (induction ks arbitrary: b P db)
  case Nil
  then show ?case
    using clears_write [OF Nil(1)] by (cases "batch_is_empty (fst b)")
      (auto simp: clears_def split: prod.splits sum.splits)
next
  case (Cons i ks)
  obtain a op where i: "i = (a, op)" by (cases i)
  with Cons.prems(2) have op: "is_reserve op \<or> (\<exists>x. op = Commit x)"
    and ks: "\<forall>(a, op) \<in> set ks. is_reserve op \<or> (\<exists>x. op = Commit x)" by auto
  show ?case
  proof (cases "1000 \<le> length (fst b)")
    case True
    with Cons.prems(3) i obtain ids db1 where
      w: "store_write eng env s (fst b) db = (Inr ids, db1)"
      and rest: "purge_hashes eng env s ks (push_purge a op (batch_new, u32_MAX)) db1 = (Inr u, db')"
      by (auto split: prod.splits sum.splits)
    from Cons.IH [OF clears_push_purge [OF clears_new op] ks rest]
    show ?thesis using clears_write [OF Cons.prems(1) w] i by (simp add: Un_commute Un_left_commute)
  next
    case False
    with Cons.prems(3) i have rest: "purge_hashes eng env s ks (push_purge a op b) db = (Inr u, db')" by simp
    have "clears (we_hash env) (fst (push_purge a op b)) (snd (push_purge a op b)) u8_MAX (insert (purge_row (a, op)) P)"
      using clears_push_purge [of "we_hash env" "fst b" "snd b" P op a] Cons.prems(1) op by simp
    from Cons.IH [OF this ks rest] show ?thesis using i by simp
  qed
qed

end

subsection \<open>Unlinking the blobs of an account\<close>

definition link_of :: "u32 \<Rightarrow> bytes \<Rightarrow> bytes \<Rightarrow> (u8 \<times> u32 \<times> blob_op) list trc_result" where
  "link_of account_id k v =
     rbind (deserialize_be_u32 k (usize_sub (length k) U32_LEN)) (\<lambda>document_id.
       if document_id \<noteq> u32_MAX then
         rbind (deserialize_be_u32 k BLOB_HASH_LEN) (\<lambda>account.
           if account = account_id then
             rbind (ok_or DataCorruption (get_range k 0 BLOB_HASH_LEN)) (\<lambda>h.
             rbind (ok_or ThreadError (nth_opt k (BLOB_HASH_LEN + U32_LEN))) (\<lambda>collection.
               Inr [(collection, document_id, Link h)]))
           else Inr [])
       else Inr [])"

lemma collect_link_of: "collect_link a k v s = rbind (link_of a k v) (\<lambda>xs. Inr (True, s @ xs))"
  by (simp add: collect_link_def link_of_def rbind_def split: sum.splits)

lemma link_of_row:
  assumes "length h = 32"
  shows "link_of a (link_row h b c d) v = Inr (if d \<noteq> u32_MAX \<and> a = b then [(c, d, Link h)] else [])"
proof -
  have "get_range (link_row h b c d) 0 32 = Some h" using get_range_mid' [of 0 "[]" 32 h] assms by simp
  moreover have "deserialize_be_u32 (link_row h b c d) 37 = Inr d"
    using deserialize_be_end(1) [of 37 "h @ be_u32 b @ [c]"] assms by simp
  moreover have "deserialize_be_u32 (link_row h b c d) 32 = Inr b"
    using deserialize_be_mid(1) [of 32 h b "c # be_u32 d"] assms by simp
  moreover have "nth_opt (link_row h b c d) 36 = Some c" using assms by (simp add: nth_opt_def nth_append)
  ultimately show ?thesis using assms by (auto simp: link_of_def)
qed

lemma class_row_link: "class_row a (c, d, Blob (Link h)) = (SUBSPACE_BLOB_LINK, link_row h a c d)"
  by (simp add: class_row_def value_subspace_def)

lemma links_collected:
  assumes "sqlite_engine eng view saved" and "wf_links (view db)"
    and "store_iterate eng s links_range (collect_link a) [] db = Inr ks"
  shows "x \<in> set ks \<longleftrightarrow> (\<exists>h c d. length h = 32 \<and> d \<noteq> u32_MAX \<and>
    view db SUBSPACE_BLOB_LINK (link_row h a c d) \<noteq> None \<and> x = (c, d, Link h))"
proof -
  let ?K = "keys_between (view db) SUBSPACE_BLOB_LINK (link_row hash_default 0 0 0)
      (link_row hash_new_max u32_MAX u8_MAX u32_MAX)"
  have K: "k \<in> ?K \<longleftrightarrow> (\<exists>h b c d. length h = 32 \<and> k = link_row h b c d \<and> view db SUBSPACE_BLOB_LINK k \<noteq> None)" for k
    using assms(2) link_row_in_range unfolding keys_between_def wf_links_def by blast
  have "x \<in> set ks \<longleftrightarrow> (\<exists>k \<in> ?K. \<exists>xs. link_of a k [] = Inr xs \<and> x \<in> set xs)"
    using sqlite_engine.iterate_collect(1) [OF assms(1) collect_link_of _ assms(3), of x]
    by (simp add: links_range_def no_values_def ascending_def iterate_params_new_def blob_key_bytes entry_def)
  also have "\<dots> \<longleftrightarrow> (\<exists>h b c d. length h = 32 \<and> view db SUBSPACE_BLOB_LINK (link_row h b c d) \<noteq> None \<and>
      (\<exists>xs. link_of a (link_row h b c d) [] = Inr xs \<and> x \<in> set xs))"
    unfolding Bex_def K by blast
  also have "\<dots> \<longleftrightarrow> (\<exists>h b c d. length h = 32 \<and> view db SUBSPACE_BLOB_LINK (link_row h b c d) \<noteq> None \<and>
      d \<noteq> u32_MAX \<and> a = b \<and> x = (c, d, Link h))"
    by (intro ex_cong1 conj_cong refl) (auto simp: link_of_row)
  finally show ?thesis by auto
qed

subsection \<open>Properties\<close>

text \<open>C6: purging blobs removes exactly the blobs that are committed but neither linked nor
  reserved any longer, with their commit markers, and the reservations that have expired: a blob
  that is linked or reserved keeps its data and its marker, and no other row is touched.\<close>

theorem purge_blobs_exact:
  assumes "sqlite_engine eng view saved" and "wf_reservations (view db)" and "wf_links (view db)"
    and "store_purge_blobs eng env s bs now db = (Inr u, db')"
  shows "view db' = without (view db)
    ({(SUBSPACE_BLOBS, h) | h. h \<in> unreferenced (view db) now} \<union>
     {(SUBSPACE_BLOB_LINK, commit_row h) | h. h \<in> unreferenced (view db) now} \<union>
     {(SUBSPACE_BLOB_RESERVE, reserve_row a h u) | a h u. length h = 32 \<and> u \<le> now})"
proof -
  from assms(4) obtain dk0 act dk l db1 where
    r: "store_iterate eng s reservations_range (reservation_callback now) ([], {}) db = Inr (dk0, act)"
    and k: "store_iterate eng s links_range (link_callback act) (dk0, hash_default) db = Inr (dk, l)"
    and d: "delete_blobs eng bs dk db = (Inr (), db1)"
    and p: "purge_hashes eng env s dk (batch_new, u32_MAX) db1 = (Inr u, db')"
    by (auto simp: store_purge_blobs_def split: sum.splits prod.splits)
  let ?D = "unreferenced (view db) now"
  let ?E = "{(a, Reserve h u) | a h u. length h = 32 \<and>
      view db SUBSPACE_BLOB_RESERVE (reserve_row a h u) \<noteq> None \<and> u \<le> now}"
  note scan = sqlite_engine.reservations_scan [OF assms(1,2) r]
  have dk: "set dk = ?E \<union> (\<lambda>h. (0, Commit h)) ` ?D"
    using sqlite_engine.links_scan [OF assms(1,3) scan(2) k] scan(1) by simp
  have "view db1 = without (view db) {(SUBSPACE_BLOBS, h) | h a. (a, Commit h) \<in> set dk}"
    by (rule sqlite_engine.delete_blobs_view [OF assms(1) d])
  moreover have "view db' = without (view db1) ({} \<union> purge_row ` set dk)"
  proof (rule sqlite_engine.purge_hashes_view [OF assms(1) _ _ p])
    show "\<forall>(a, op) \<in> set dk. is_reserve op \<or> (\<exists>x. op = Commit x)" unfolding dk by (auto simp: is_reserve_def)
  qed (simp add: clears_new)
  ultimately have "view db' = without (view db)
      ({(SUBSPACE_BLOBS, h) | h a. (a, Commit h) \<in> set dk} \<union> purge_row ` set dk)" by simp
  also have "{(SUBSPACE_BLOBS, h) | h a. (a, Commit h) \<in> set dk} = {(SUBSPACE_BLOBS, h) | h. h \<in> ?D}"
    unfolding dk by auto
  also have "purge_row ` set dk = purge_row ` ?E \<union> {(SUBSPACE_BLOB_LINK, commit_row h) | h. h \<in> ?D}"
    unfolding dk image_Un image_image by (auto simp: purge_row_def value_subspace_def)
  also have "purge_row ` ?E = {(SUBSPACE_BLOB_RESERVE, reserve_row a h u) | a h u. length h = 32 \<and>
      view db SUBSPACE_BLOB_RESERVE (reserve_row a h u) \<noteq> None \<and> u \<le> now}"
    by (auto simp: purge_row_def value_subspace_def image_iff) force+
  finally show ?thesis by (auto simp: without_def fun_eq_iff)
qed

text \<open>A store with one blob that is committed and has no link.\<close>

definition one_blob :: "blob_hash \<Rightarrow> mem_db" where
  "one_blob h = mem_start [((SUBSPACE_BLOB_LINK, commit_row h), SqlBlob []), ((SUBSPACE_BLOBS, h), SqlBlob [7])]"

lemma one_blob_view:
  "mem_view (one_blob h) t k = (if t = SUBSPACE_BLOB_LINK \<and> k = commit_row h then Some (SqlBlob [])
     else if t = SUBSPACE_BLOBS \<and> k = h then Some (SqlBlob [7]) else None)"
  by (simp add: one_blob_def mem_view_def mem_tables_def mem_start_def)

lemma one_blob_wf:
  assumes "length h = 32" and "h \<noteq> hash_default"
  shows "wf_reservations (mem_view (one_blob h))" and "wf_links (mem_view (one_blob h))"
    and "h \<in> unreferenced (mem_view (one_blob h)) now"
  using assms unfolding wf_reservations_def wf_links_def unreferenced_def one_blob_view
  by (auto simp: subspace_defs intro!: exI [of _ h] exI [of _ u32_MAX] exI [of _ 0])

theorem purge_blobs_exact_witness:
  "mem_view (snd (store_purge_blobs mem_engine \<lparr>we_hash = (\<lambda>_. 0), we_rng = (\<lambda>_ _. 0)\<rparr> SQLite
      \<lparr>bs_backend = BlobInStore SQLite, bs_compression = NoCompression\<rparr> 100 (one_blob (replicate 32 2))))
    SUBSPACE_BLOBS (replicate 32 2) = None"
proof -
  define h :: blob_hash where "h = replicate 32 2"
  let ?w = "store_purge_blobs mem_engine \<lparr>we_hash = (\<lambda>_. 0), we_rng = (\<lambda>_ _. 0)\<rparr> SQLite
      \<lparr>bs_backend = BlobInStore SQLite, bs_compression = NoCompression\<rparr> 100 (one_blob h)"
  have "length h = 32 \<and> h \<noteq> hash_default" unfolding h_def by code_simp
  note wf = one_blob_wf [OF this [THEN conjunct1] this [THEN conjunct2]]
  have "fst ?w = Inr ()" unfolding h_def by code_simp
  then have "?w = (Inr (), snd ?w)" by (metis prod.collapse)
  from purge_blobs_exact [OF mem.sqlite_engine_axioms wf(1,2) this] wf(3) [of 100]
  show ?thesis unfolding h_def [symmetric] by (simp add: without_def)
qed

lemma get_blob_view:
  assumes "sqlite_engine eng view saved" and "sqlite_get_blob eng k a b db = Inr r"
    and "view db SUBSPACE_BLOBS k = Some (SqlBlob data)"
  shows "r = Some (if a = 0 \<and> b = usize_MAX then data
    else case get_range data a (min (length data) b) of None \<Rightarrow> [] | Some r \<Rightarrow> r)"
proof -
  let ?f = "\<lambda>row. rbind (column row 0) (\<lambda>v. rbind (as_bytes v) (\<lambda>bs.
           Inr (if a = 0 \<and> b = usize_MAX then bs
                else (case get_range bs a (min (length bs) b) of None \<Rightarrow> [] | Some r \<Rightarrow> r))))"
  have "query_row_optional eng (Select_Value SUBSPACE_BLOBS k) ?f db = Inr r"
    using assms(2) by (simp add: sqlite_get_blob_def split: if_splits)
  from sqlite_engine.query_value [OF assms(1) this] assms(3) show ?thesis
    by (auto simp: column_def nth_opt_def as_bytes_def)
qed

lemma put_blob_view:
  assumes "sqlite_engine eng view saved" and "blob_put eng codec bs k data db = (Inr u, db')"
  shows "view db' SUBSPACE_BLOBS k = Some (SqlBlob (case bs_compression bs of
      NoCompression \<Rightarrow> data | Lz4 \<Rightarrow> lz4_compress codec data @ [compression_marker Lz4]))"
  using assms(2)
  by (auto simp: blob_put_def sqlite_put_blob_def exec_ok_Inr tbl_put_apply dest!: sqlite_engine.insert_or_replace [OF assms(1)]
      split: blob_backend.splits store.splits if_splits)

lemmas blob_mem_defs = blob_put_def blob_get_def backend_get_blob_def sqlite_put_blob_def sqlite_get_blob_def
  query_row_optional_def exec_ok_def mem_set_def mem_put_def mem_remove_def mem_tables_def mem_start_def
  column_def nth_opt_def as_bytes_def

definition range_or_empty :: "bytes \<Rightarrow> nat \<Rightarrow> nat \<Rightarrow> bytes" where
  "range_or_empty data a b = (case get_range data a b of None \<Rightarrow> [] | Some r \<Rightarrow> r)"

lemma get_after_put:
  assumes "sqlite_engine eng view saved" and "lz4_decompress codec (lz4_compress codec data) = Some data"
    and "blob_put eng codec bs k data db = (Inr u, db')" and "blob_get eng codec bs k a b db' = Inr r"
  shows "r = Some (case bs_compression bs of
      NoCompression \<Rightarrow> (if a = 0 \<and> b = usize_MAX then data else range_or_empty data a (min (length data) b))
    | Lz4 \<Rightarrow> (if length data < b then data else range_or_empty data a b))"
proof (cases "bs_compression bs")
  case NoCompression
  then have v: "view db' SUBSPACE_BLOBS k = Some (SqlBlob data)"
    using put_blob_view [OF assms(1,3)] by simp
  have "sqlite_get_blob eng k a b db' = Inr r"
    using assms(4) NoCompression by (auto simp: blob_get_def backend_get_blob_def split: blob_backend.splits store.splits)
  from get_blob_view [OF assms(1) this v] show ?thesis using NoCompression by (simp add: range_or_empty_def)
next
  case Lz4
  let ?z = "lz4_compress codec data @ [compression_marker Lz4]"
  from Lz4 have v: "view db' SUBSPACE_BLOBS k = Some (SqlBlob ?z)"
    using put_blob_view [OF assms(1,3)] by simp
  from assms(4) Lz4 obtain r0 where g: "sqlite_get_blob eng k 0 usize_MAX db' = Inr r0"
    and b: "bs_backend bs = BlobInStore SQLite"
    by (auto simp: blob_get_def backend_get_blob_def rbind_Inr_iff split: blob_backend.splits store.splits)
  have last: "(case ?z of [] \<Rightarrow> 0 | _ \<Rightarrow> last ?z) = compression_marker Lz4"
    by (cases "lz4_compress codec data") simp_all
  from get_blob_view [OF assms(1) g v] have "r0 = Some ?z" by simp
  then show ?thesis
    using assms(2,4) g Lz4 b last by (auto simp: blob_get_def backend_get_blob_def range_or_empty_def)
qed

text \<open>C15: a range of a blob that was stored is read back as it was, with and without compression,
  for every codec whose decompression undoes its compression.\<close>

theorem blob_roundtrip:
  assumes "sqlite_engine eng view saved" and "lz4_decompress codec (lz4_compress codec data) = Some data"
    and "a \<le> b" and "b \<le> length data" and "length data < usize_MAX"
    and "blob_put eng codec bs k data db = (Inr u, db')"
    and "blob_get eng codec bs k a b db' = Inr r"
  shows "r = Some (take (b - a) (drop a data))"
  using get_after_put [OF assms(1,2,6,7)] assms(3-5)
  by (auto simp: range_or_empty_def get_range_def split: compression_algo.splits)

theorem blob_roundtrip_witness: "Some [8] = Some (take (2 - 1) (drop 1 [7, 8, 9 :: u8]))"
proof -
  let ?codec = "\<lparr>lz4_compress = rev, lz4_decompress = Some \<circ> rev\<rparr>"
  let ?bs = "\<lparr>bs_backend = BlobInStore SQLite, bs_compression = Lz4\<rparr>"
  let ?w = "blob_put mem_engine ?codec ?bs [1] [7, 8, 9] (mem_start [])"
  have "?w = (Inr (), snd ?w)" by (simp add: blob_mem_defs)
  moreover have "blob_get mem_engine ?codec ?bs [1] 1 2 (snd ?w) = Inr (Some [8])"
    by (simp add: blob_mem_defs compression_marker_def get_range_def)
  ultimately show ?thesis
    by (intro blob_roundtrip [OF mem.sqlite_engine_axioms, where codec = ?codec and bs = ?bs])
      (simp_all add: usize_MAX_def)
qed

text \<open>When the range ends beyond the blob, a compressed blob is returned whole, whatever the
  start of the range, while the same request on an uncompressed blob returns the part from the
  start on.\<close>

theorem lz4_range_start_ignored:
  assumes "sqlite_engine eng view saved" and "lz4_decompress codec (lz4_compress codec data) = Some data"
    and "0 < a" and "a \<le> length data" and "length data < b"
    and "blob_put eng codec bs k data db = (Inr u, db')"
    and "blob_get eng codec bs k a b db' = Inr r"
  shows "r = Some (case bs_compression bs of Lz4 \<Rightarrow> data | NoCompression \<Rightarrow> drop a data)"
  using get_after_put [OF assms(1,2,6,7)] assms(3-5)
  by (auto simp: range_or_empty_def get_range_def split: compression_algo.splits)

theorem lz4_range_start_ignored_witness:
  "Some [7, 8, 9] = Some (case Lz4 of Lz4 \<Rightarrow> [7, 8, 9 :: u8] | NoCompression \<Rightarrow> drop 1 [7, 8, 9])"
proof -
  let ?codec = "\<lparr>lz4_compress = rev, lz4_decompress = Some \<circ> rev\<rparr>"
  let ?bs = "\<lparr>bs_backend = BlobInStore SQLite, bs_compression = Lz4\<rparr>"
  let ?w = "blob_put mem_engine ?codec ?bs [1] [7, 8, 9] (mem_start [])"
  have "?w = (Inr (), snd ?w)" by (simp add: blob_mem_defs)
  moreover have "blob_get mem_engine ?codec ?bs [1] 1 5 (snd ?w) = Inr (Some [7, 8, 9])"
    by (simp add: blob_mem_defs compression_marker_def)
  ultimately have "Some [7, 8, 9] = Some (case bs_compression ?bs of
      Lz4 \<Rightarrow> [7, 8, 9 :: u8] | NoCompression \<Rightarrow> drop 1 [7, 8, 9])"
    by (intro lz4_range_start_ignored [OF mem.sqlite_engine_axioms, where codec = ?codec]) simp_all
  then show ?thesis by simp
qed

text \<open>C16: unlinking the blobs of an account removes every row whose account bytes are those of the
  account, and no other row. Links by identifier keep the upper half of the identifier in these
  bytes, so the ones that happen to agree with the account are removed too.\<close>

theorem unlink_account_exact:
  assumes "sqlite_engine eng view saved" and "wf_links (view db)"
    and "store_blob_hash_unlink_account eng env s a db = (Inr u, db')"
  shows "view db' = without (view db) {(SUBSPACE_BLOB_LINK, link_row h a c d) | h c d. length h = 32 \<and> d \<noteq> u32_MAX}"
proof -
  from assms(3) obtain ks where it: "store_iterate eng s links_range (collect_link a) [] db = Inr ks"
    and cl: "clear_documents eng env s a (map (\<lambda>(c, d, op). (c, d, Blob op)) ks)
      (batch_with_account_id batch_new a, u8_MAX) db = (Inr u, db')"
    by (auto simp: store_blob_hash_unlink_account_def split: sum.splits)
  let ?G = "{(c, d, h). length h = 32 \<and> d \<noteq> u32_MAX \<and> view db SUBSPACE_BLOB_LINK (link_row h a c d) \<noteq> None}"
  have ks: "set ks = (\<lambda>(c, d, h). (c, d, Link h)) ` ?G"
    using links_collected [OF assms(1,2) it] by (auto simp only: set_eq_iff image_iff split_def mem_Collect_eq) force+
  have "clears (we_hash env) (fst (batch_with_account_id batch_new a, u8_MAX)) a
      (snd (batch_with_account_id batch_new a, u8_MAX)) {}" by (simp add: clears_start)
  from sqlite_engine.clear_documents_view [OF assms(1) this _ cl]
  have "view db' = without (view db) (class_row a ` set (map (\<lambda>(c, d, op). (c, d, Blob op)) ks))"
    by (simp add: static_class_def split_def)
  also have "class_row a ` set (map (\<lambda>(c, d, op). (c, d, Blob op)) ks) =
      (\<lambda>(c, d, h). (SUBSPACE_BLOB_LINK, link_row h a c d)) ` ?G"
    unfolding set_map ks image_image by (simp add: split_def class_row_link)
  also have "\<dots> = {(t, k). (t, k) \<in> {(SUBSPACE_BLOB_LINK, link_row h a c d) | h c d. length h = 32 \<and> d \<noteq> u32_MAX} \<and>
      view db t k \<noteq> None}"
    by force
  finally show ?thesis by (simp only: without_present [symmetric])
qed

text \<open>A link by identifier, as the message queue writes it.\<close>

definition one_link :: "blob_hash \<Rightarrow> mem_db" where
  "one_link h = mem_start [((SUBSPACE_BLOB_LINK, key_bytes (blob_key 0 0 0 (LinkId h 0x500000009))), SqlBlob [])]"

lemma one_link_view:
  "mem_view (one_link h) t k = (if t = SUBSPACE_BLOB_LINK \<and> k = link_row h 5 u8_MAX 9 then Some (SqlBlob []) else None)"
proof -
  have "(ucast (drop_bit 32 (0x500000009 :: u64)) :: u32) = 5" "(ucast (0x500000009 :: u64) :: u32) = 9"
    by code_simp+
  then have "key_bytes (blob_key 0 0 0 (LinkId h 0x500000009)) = link_row h 5 u8_MAX 9"
    by (simp add: blob_key_def key_of_value_def value_class_serialize_def)
  then show ?thesis by (simp add: one_link_def mem_view_def mem_tables_def mem_start_def)
qed

theorem unlink_account_exact_witness:
  "mem_view (snd (store_blob_hash_unlink_account mem_engine \<lparr>we_hash = (\<lambda>_. 0), we_rng = (\<lambda>_ _. 0)\<rparr> SQLite 5
      (one_link (replicate 32 2)))) SUBSPACE_BLOB_LINK (link_row (replicate 32 2) 5 u8_MAX 9) = None"
proof -
  define h :: blob_hash where "h = replicate 32 2"
  let ?w = "store_blob_hash_unlink_account mem_engine \<lparr>we_hash = (\<lambda>_. 0), we_rng = (\<lambda>_ _. 0)\<rparr> SQLite 5 (one_link h)"
  have "length h = 32" unfolding h_def by code_simp
  then have wf: "wf_links (mem_view (one_link h))"
    unfolding wf_links_def one_link_view by (auto intro!: exI [of _ h] exI [of _ 5] exI [of _ u8_MAX] exI [of _ 9])
  have "fst ?w = Inr ()" unfolding h_def by code_simp
  then have "?w = (Inr (), snd ?w)" by (metis prod.collapse)
  from unlink_account_exact [OF mem.sqlite_engine_axioms wf this] \<open>length h = 32\<close>
  show ?thesis unfolding h_def [symmetric] by (auto simp: without_def)
qed

end
