(* ===== verification/Lookup_Store.thy ===== *)
theory Lookup_Store
  imports Store_Dispatch Glob
begin

section \<open>Lookup stores\<close>

text \<open>
  Models \<^verbatim>\<open>src/crates/store/src/dispatch/lookup.rs\<close> (keys with an expiry, counters, rate
  limits), the lookups with an SQL query of \<^verbatim>\<open>backend/sqlite/lookup.rs\<close> and the
  lookups from the configuration of \<^verbatim>\<open>backend/memory/mod.rs\<close>. The clock is an argument
  of every operation that reads it. The Redis backend is not modelled.
\<close>

subsection \<open>Values\<close>

text \<open>A floating point number is its 64 bits; printing and parsing one are arguments.\<close>

datatype lvalue =
  VInteger i64 | VBool bool | VFloat u64 | VText "rchar list" | VBlob bytes | VNull

definition value_into_string :: "(u64 \<Rightarrow> rchar list) \<Rightarrow> lvalue \<Rightarrow> rchar list" where
  "value_into_string f64_to_string v =
     (case v of
        VText s \<Rightarrow> s
      | VBlob b \<Rightarrow> from_utf8_lossy b
      | VBool b \<Rightarrow> lit (if b then ''true'' else ''false'')
      | VNull \<Rightarrow> []
      | VInteger i \<Rightarrow> i64_to_string i
      | VFloat f \<Rightarrow> f64_to_string f)"

definition value_into_i64 :: "lvalue \<Rightarrow> i64" where
  "value_into_i64 v = (case v of VInteger i \<Rightarrow> i | _ \<Rightarrow> 0)"

subsection \<open>SQL queries\<close>

text \<open>A query text comes from the configuration; the engine runs it with its parameters.\<close>

record 'db adhoc_engine =
  ad_execute :: "rchar list \<Rightarrow> lvalue list \<Rightarrow> 'db \<Rightarrow> nat option \<times> 'db"
  ad_query_one :: "rchar list \<Rightarrow> lvalue list \<Rightarrow> 'db \<Rightarrow> sql_row option option"

definition from_sql :: "sql_value \<Rightarrow> lvalue" where
  "from_sql v =
     (case v of
        SqlNull \<Rightarrow> VNull
      | SqlInt i \<Rightarrow> VInteger i
      | SqlReal f \<Rightarrow> VFloat f
      | SqlText b \<Rightarrow> VText (from_utf8_lossy b)
      | SqlBlob b \<Rightarrow> VBlob b)"

definition into_row :: "sql_row option \<Rightarrow> lvalue list option" where
  "into_row r = map_option (map from_sql) r"

definition sqlite_query_exec ::
    "'db sql_engine \<Rightarrow> 'db adhoc_engine \<Rightarrow> rchar list \<Rightarrow> lvalue list \<Rightarrow> 'db \<Rightarrow> nat trc_result \<times> 'db" where
  "sqlite_query_exec eng ad q params db =
     (if \<not> sql_connect eng db then (Inl SqliteError, db)
      else case ad_execute ad q params db of
          (None, db') \<Rightarrow> (Inl SqliteError, db')
        | (Some n, db') \<Rightarrow> (Inr n, db'))"

definition sqlite_query_one ::
    "'db sql_engine \<Rightarrow> 'db adhoc_engine \<Rightarrow> rchar list \<Rightarrow> lvalue list \<Rightarrow> 'db \<Rightarrow> lvalue list option trc_result" where
  "sqlite_query_one eng ad q params db =
     (if \<not> sql_connect eng db then Inl SqliteError
      else case ad_query_one ad q params db of
          None \<Rightarrow> Inl SqliteError
        | Some r \<Rightarrow> Inr (into_row r))"

subsection \<open>Lookups from the configuration\<close>

record memory_store =
  ms_entries :: "rchar list \<rightharpoonup> lvalue"
  ms_globs :: "(glob_pattern \<times> lvalue) list"

definition memory_default :: memory_store where
  "memory_default = \<lparr>ms_entries = Map.empty, ms_globs = []\<rparr>"

fun find_glob :: "unicode \<Rightarrow> rchar list \<Rightarrow> (glob_pattern \<times> lvalue) list \<Rightarrow> lvalue option" where
  "find_glob u i [] = None"
| "find_glob u i ((pattern, v) # globs) =
     (if matches u pattern i = Some True then Some v else find_glob u i globs)"

definition memory_get :: "unicode \<Rightarrow> memory_store \<Rightarrow> rchar list \<Rightarrow> lvalue option" where
  "memory_get u m i =
     (case ms_entries m i of Some v \<Rightarrow> Some v | None \<Rightarrow> find_glob u i (ms_globs m))"

text \<open>The scan of a key: whether it has an escape and whether it is a pattern.\<close>

fun scan_key :: "rchar list \<Rightarrow> rchar \<Rightarrow> bool \<Rightarrow> bool \<Rightarrow> bool \<times> bool" where
  "scan_key [] last_ch has_escape is_glob = (has_escape, is_glob)"
| "scan_key (c # cs) last_ch has_escape is_glob =
     (if c = BACKSLASH then scan_key cs c True is_glob
      else if (c = STAR \<or> c = QUESTION) \<and> last_ch \<noteq> BACKSLASH then scan_key cs c has_escape True
      else scan_key cs c has_escape is_glob)"

record value_kind =
  has_integers :: bool
  has_floats :: bool
  has_others :: bool

fun scan_value :: "nat \<Rightarrow> bytes \<Rightarrow> nat \<Rightarrow> value_kind \<Rightarrow> value_kind" where
  "scan_value len [] pos k = k"
| "scan_value len (b # bs) pos k =
     scan_value len bs (pos + 1)
       (if b = 46 \<and> \<not> has_floats k \<and> has_integers k then k\<lparr>has_floats := True\<rparr>
        else if 48 \<le> b \<and> b \<le> 57 then k\<lparr>has_integers := True\<rparr>
        else if b = 45 \<and> pos = 0 \<and> 1 < len then k
        else k\<lparr>has_others := True\<rparr>)"

definition parse_lookup_value :: "(rchar list \<Rightarrow> u64 option) \<Rightarrow> rchar list \<Rightarrow> lvalue" where
  "parse_lookup_value parse_f64 v =
     (if v \<noteq> [] then
        let bs = utf8_encode v;
            k = scan_value (length bs) bs 0 \<lparr>has_integers = False, has_floats = False, has_others = False\<rparr>
        in if has_others k then
             if v = lit ''true'' then VInteger 1
             else if v = lit ''false'' then VInteger 0
             else VText v
           else if has_floats k then
             (case parse_f64 v of Some f \<Rightarrow> VFloat f | None \<Rightarrow> VText v)
           else (case parse_i64 v of Some i \<Rightarrow> VInteger i | None \<Rightarrow> VText v)
      else VText [])"

definition add_lookup :: "unicode \<Rightarrow> rchar list \<Rightarrow> lvalue \<Rightarrow> memory_store \<Rightarrow> memory_store" where
  "add_lookup u key v m =
     (let (has_escape, is_glob) = scan_key key 0 False False
      in if is_glob then m\<lparr>ms_globs := ms_globs m @ [(compile u key False, v)]\<rparr>
         else m\<lparr>ms_entries := (ms_entries m)
                ((if has_escape then filter (\<lambda>c. c \<noteq> BACKSLASH) key else key) \<mapsto> v)\<rparr>)"

text \<open>\<open>split_once('.')\<close>.\<close>

definition split_once :: "rchar \<Rightarrow> rchar list \<Rightarrow> (rchar list \<times> rchar list) option" where
  "split_once c s =
     (if c \<in> set s then Some (takeWhile (\<lambda>x. x \<noteq> c) s, tl (dropWhile (\<lambda>x. x \<noteq> c) s)) else None)"

fun parse_memory_stores ::
    "unicode \<Rightarrow> (rchar list \<Rightarrow> u64 option) \<Rightarrow> (rchar list \<times> rchar list) list \<Rightarrow>
     (rchar list \<rightharpoonup> memory_store) \<Rightarrow> rchar list list \<Rightarrow> (rchar list \<rightharpoonup> memory_store) \<times> rchar list list" where
  "parse_memory_stores u parse_f64 [] lookups errors = (lookups, errors)"
| "parse_memory_stores u parse_f64 ((key, v) # items) lookups errors =
     (case split_once 46 key of
        Some (i, k) \<Rightarrow>
          if i \<noteq> [] \<and> k \<noteq> [] then
            parse_memory_stores u parse_f64 items
              (lookups(i \<mapsto> add_lookup u k (parse_lookup_value parse_f64 v)
                 (case lookups i of None \<Rightarrow> memory_default | Some m \<Rightarrow> m))) errors
          else parse_memory_stores u parse_f64 items lookups (errors @ [key])
      | None \<Rightarrow> parse_memory_stores u parse_f64 items lookups (errors @ [key]))"

subsection \<open>Operations\<close>

datatype lookup_store = LStore store | LQuery lookup_store "rchar list" | LMemory memory_store

record 'db lookup_env =
  le_write :: write_env
  le_adhoc :: "'db adhoc_engine"
  le_unicode :: unicode

definition lookup_query_exec ::
    "'db sql_engine \<Rightarrow> 'db lookup_env \<Rightarrow> lookup_store \<Rightarrow> rchar list \<Rightarrow> lvalue list \<Rightarrow> 'db \<Rightarrow>
     nat trc_result \<times> 'db" where
  "lookup_query_exec eng env ls q params db =
     (case ls of
        LStore SQLite \<Rightarrow> sqlite_query_exec eng (le_adhoc env) q params db
      | _ \<Rightarrow> (Inl NotSupported, db))"

definition lookup_query_one ::
    "'db sql_engine \<Rightarrow> 'db lookup_env \<Rightarrow> lookup_store \<Rightarrow> rchar list \<Rightarrow> lvalue list \<Rightarrow> 'db \<Rightarrow>
     lvalue list option trc_result" where
  "lookup_query_one eng env ls q params db =
     (case ls of
        LStore SQLite \<Rightarrow> sqlite_query_one eng (le_adhoc env) q params db
      | _ \<Rightarrow> Inl NotSupported)"

definition no_result :: "'a trc_result \<times> 'db \<Rightarrow> unit trc_result \<times> 'db" where
  "no_result r = (case r of (Inl e, db) \<Rightarrow> (Inl e, db) | (Inr _, db) \<Rightarrow> (Inr (), db))"

definition key_set ::
    "'db sql_engine \<Rightarrow> 'db lookup_env \<Rightarrow> lookup_store \<Rightarrow> bytes \<Rightarrow> bytes \<Rightarrow> u64 option \<Rightarrow> u64 \<Rightarrow> 'db \<Rightarrow>
     unit trc_result \<times> 'db" where
  "key_set eng env ls key v expires now db =
     (case ls of
        LStore s \<Rightarrow> no_result (store_write eng (le_write env) s
          [Value (Lookup (LookupKey key)) (SetValue (StaticValue
            (be_u64 (case expires of None \<Rightarrow> u64_MAX | Some e \<Rightarrow> now + e) @ v)))] db)
      | LQuery st q \<Rightarrow> no_result (lookup_query_exec eng env st q [VText (from_utf8_or_default key)] db)
      | LMemory _ \<Rightarrow> (Inl NotSupported, db))"

definition counter_incr ::
    "'db sql_engine \<Rightarrow> 'db lookup_env \<Rightarrow> lookup_store \<Rightarrow> bytes \<Rightarrow> i64 \<Rightarrow> u64 option \<Rightarrow> bool \<Rightarrow> u64 \<Rightarrow> 'db \<Rightarrow>
     i64 trc_result \<times> 'db" where
  "counter_incr eng env ls key v expires return_value now db =
     (case ls of
        LStore s \<Rightarrow>
          (case store_write eng (le_write env) s
              ((case expires of
                  None \<Rightarrow> []
                | Some e \<Rightarrow> [Value (Lookup (LookupKey key)) (SetValue (StaticValue (be_u64 0 @ be_u64 (now + e))))]) @
               [Value (Lookup (LookupCounter key)) (if return_value then AddAndGet v else AtomicAdd v)]) db of
             (Inl e, db') \<Rightarrow> (Inl e, db')
           | (Inr r, db') \<Rightarrow> (if return_value then last_counter_id r else Inr 0, db'))
      | _ \<Rightarrow> (Inl NotSupported, db))"

definition key_delete ::
    "'db sql_engine \<Rightarrow> 'db lookup_env \<Rightarrow> lookup_store \<Rightarrow> bytes \<Rightarrow> 'db \<Rightarrow> unit trc_result \<times> 'db" where
  "key_delete eng env ls key db =
     (case ls of
        LStore s \<Rightarrow> no_result (store_write eng (le_write env) s [Value (Lookup (LookupKey key)) ClearValue] db)
      | _ \<Rightarrow> (Inl NotSupported, db))"

definition counter_delete ::
    "'db sql_engine \<Rightarrow> 'db lookup_env \<Rightarrow> lookup_store \<Rightarrow> bytes \<Rightarrow> 'db \<Rightarrow> unit trc_result \<times> 'db" where
  "counter_delete eng env ls key db =
     (case ls of
        LStore s \<Rightarrow> no_result (store_write eng (le_write env) s [Value (Lookup (LookupCounter key)) ClearValue] db)
      | _ \<Rightarrow> (Inl NotSupported, db))"

datatype 'a lookup_value = LookupSome 'a | LookupNone

definition deserialize_lookup_value ::
    "(bytes \<Rightarrow> 'a trc_result) \<Rightarrow> u64 \<Rightarrow> bytes \<Rightarrow> 'a lookup_value trc_result" where
  "deserialize_lookup_value deserialize now bs =
     rbind (deserialize_be_u64 bs 0) (\<lambda>expires.
       if now < expires then rbind (deserialize (drop U64_LEN bs)) (\<lambda>x. Inr (LookupSome x))
       else Inr LookupNone)"

definition lookup_value_option :: "'a lookup_value \<Rightarrow> 'a option" where
  "lookup_value_option v = (case v of LookupSome x \<Rightarrow> Some x | LookupNone \<Rightarrow> None)"

definition lookup_key :: "lookup_class \<Rightarrow> u32 value_key" where
  "lookup_key c = value_key_from_class (Lookup c)"

definition key_get ::
    "'db sql_engine \<Rightarrow> 'db lookup_env \<Rightarrow> (bytes \<Rightarrow> 'a trc_result) \<Rightarrow> (lvalue \<Rightarrow> 'a) \<Rightarrow> lookup_store \<Rightarrow>
     bytes \<Rightarrow> u64 \<Rightarrow> 'db \<Rightarrow> 'a option trc_result" where
  "key_get eng env deserialize from_value ls key now db =
     (case ls of
        LStore s \<Rightarrow>
          rbind (store_get_value eng s (deserialize_lookup_value deserialize now)
                  (key_of_value (lookup_key (LookupKey key))) db)
            (\<lambda>v. Inr (case v of None \<Rightarrow> None | Some v \<Rightarrow> lookup_value_option v))
      | LQuery st q \<Rightarrow>
          rbind (lookup_query_one eng env st q [VText (from_utf8_or_default key)] db)
            (\<lambda>row. Inr (case row of Some (v # _) \<Rightarrow> Some (from_value v) | _ \<Rightarrow> None))
      | LMemory m \<Rightarrow>
          Inr (map_option from_value (memory_get (le_unicode env) m (from_utf8_or_default key))))"

definition counter_get ::
    "'db sql_engine \<Rightarrow> lookup_store \<Rightarrow> bytes \<Rightarrow> 'db \<Rightarrow> i64 trc_result" where
  "counter_get eng ls key db =
     (case ls of
        LStore s \<Rightarrow> store_get_counter eng s (lookup_key (LookupCounter key)) db
      | _ \<Rightarrow> Inl NotSupported)"

definition key_exists ::
    "'db sql_engine \<Rightarrow> 'db lookup_env \<Rightarrow> lookup_store \<Rightarrow> bytes \<Rightarrow> u64 \<Rightarrow> 'db \<Rightarrow> bool trc_result" where
  "key_exists eng env ls key now db =
     (case ls of
        LStore s \<Rightarrow>
          rbind (store_get_value eng s (deserialize_lookup_value (\<lambda>_. Inr ()) now)
                  (key_of_value (lookup_key (LookupKey key))) db)
            (\<lambda>v. Inr (v = Some (LookupSome ())))
      | LQuery st q \<Rightarrow>
          rbind (lookup_query_one eng env st q [VText (from_utf8_or_default key)] db) (\<lambda>row. Inr (row \<noteq> None))
      | LMemory m \<Rightarrow> Inr (memory_get (le_unicode env) m (from_utf8_or_default key) \<noteq> None))"

subsection \<open>Rate limits\<close>

record rate =
  rate_requests :: u64
  rate_period :: u64

text \<open>Addition of \<open>i64\<close> values wraps around.\<close>

definition i64_add :: "i64 \<Rightarrow> i64 \<Rightarrow> i64" where
  "i64_add a b = (a + b + 2 ^ 63) mod 2 ^ 64 - 2 ^ 63"

text \<open>A period of zero divides by zero, which panics: \<open>None\<close>. The clock is read once here and
  once more when the counter is written.\<close>

definition is_rate_allowed ::
    "'db sql_engine \<Rightarrow> 'db lookup_env \<Rightarrow> lookup_store \<Rightarrow> bytes \<Rightarrow> rate \<Rightarrow> bool \<Rightarrow> u64 \<Rightarrow> u64 \<Rightarrow> 'db \<Rightarrow>
     (u64 option trc_result \<times> 'db) option" where
  "is_rate_allowed eng env ls key r soft_check now now' db =
     (if rate_period r = 0 then None
      else Some
        (let range_start = now div rate_period r;
             range_end = range_start * rate_period r + rate_period r;
             expires_in = range_end - now;
             bucket = key @ be_u64 range_start;
             (requests, db') =
               (if \<not> soft_check then counter_incr eng env ls bucket 1 (Some expires_in) True now' db
                else (rbind (counter_get eng ls bucket db) (\<lambda>c. Inr (i64_add c 1)), db))
         in (rbind requests (\<lambda>n. Inr (if n \<le> sint (rate_requests r) then None else Some expires_in)), db')))"

subsection \<open>Purging\<close>

definition lookup_range :: iterate_params where
  "lookup_range = iterate_params_new
     (key_of_value (lookup_key (LookupKey [0])))
     (key_of_value (lookup_key (LookupKey (replicate 10 u8_MAX))))"

definition expired_callback :: "u64 \<Rightarrow> (bytes list \<times> bytes list) callback" where
  "expired_callback current_time k v st =
     (let (expired_keys, expired_counters) = st
      in rbind (deserialize_be_u64 v 0) (\<lambda>expiry.
         if expiry = 0 then
           rbind (deserialize_be_u64 v U64_LEN) (\<lambda>until.
             Inr (True, expired_keys, if until \<le> current_time then expired_counters @ [k] else expired_counters))
         else Inr (True, if expiry \<le> current_time then expired_keys @ [k] else expired_keys, expired_counters)))"

definition clear_lookup_key :: "bytes \<Rightarrow> operation list" where
  "clear_lookup_key k = [Value (Lookup (LookupKey k)) ClearValue]"

definition clear_lookup_counter :: "bytes \<Rightarrow> operation list" where
  "clear_lookup_counter k =
     [Value (Lookup (LookupCounter k)) ClearValue, Value (Lookup (LookupKey k)) ClearValue]"

fun purge_lookups ::
    "'db sql_engine \<Rightarrow> write_env \<Rightarrow> store \<Rightarrow> (bytes \<Rightarrow> operation list) \<Rightarrow> bytes list \<Rightarrow> batch \<Rightarrow> 'db \<Rightarrow>
     unit trc_result \<times> 'db" where
  "purge_lookups eng env s f [] ops db =
     (if ops \<noteq> [] then no_result (store_write eng env s ops db) else (Inr (), db))"
| "purge_lookups eng env s f (k # ks) ops db =
     (let ops' = ops @ f k
      in if 1000 \<le> length ops' then
           (case store_write eng env s ops' db of
              (Inl e, db') \<Rightarrow> (Inl e, db')
            | (Inr _, db') \<Rightarrow> purge_lookups eng env s f ks batch_new db')
         else purge_lookups eng env s f ks ops' db)"

definition purge_lookup_store ::
    "'db sql_engine \<Rightarrow> 'db lookup_env \<Rightarrow> lookup_store \<Rightarrow> u64 \<Rightarrow> 'db \<Rightarrow> unit trc_result \<times> 'db" where
  "purge_lookup_store eng env ls current_time db =
     (case ls of
        LStore s \<Rightarrow>
          (case store_iterate eng s lookup_range (expired_callback current_time) ([], []) db of
             Inl e \<Rightarrow> (Inl e, db)
           | Inr (expired_keys, expired_counters) \<Rightarrow>
               (case (if expired_keys \<noteq> []
                      then purge_lookups eng (le_write env) s clear_lookup_key expired_keys batch_new db
                      else (Inr (), db)) of
                  (Inl e, db') \<Rightarrow> (Inl e, db')
                | (Inr _, db') \<Rightarrow>
                    (if expired_counters \<noteq> []
                     then purge_lookups eng (le_write env) s clear_lookup_counter expired_counters batch_new db'
                     else (Inr (), db'))))
      | _ \<Rightarrow> (Inr (), db))"

definition lookup_is_sql :: "lookup_store \<Rightarrow> bool" where
  "lookup_is_sql ls = (case ls of LStore SQLite \<Rightarrow> True | _ \<Rightarrow> False)"


subsection \<open>Rows of lookups\<close>

lemma lookup_key_simps [simp]:
  "key_subspace (key_of_value (lookup_key (LookupKey k))) = SUBSPACE_LOOKUP_VALUE"
  "key_subspace (key_of_value (lookup_key (LookupCounter k))) = SUBSPACE_COUNTER"
  "key_bytes (key_of_value (lookup_key (LookupKey k))) = k"
  "key_bytes (key_of_value (lookup_key (LookupCounter k))) = k"
  by (simp_all add: lookup_key_def value_key_from_class_def key_of_value_def value_subspace_def
      value_class_serialize_def)

lemma lookup_class_simps [simp]:
  "value_class_key (Lookup (LookupKey k)) st = k"
  "value_class_key (Lookup (LookupCounter k)) st = k"
  "value_subspace (Lookup (LookupKey k)) c = SUBSPACE_LOOKUP_VALUE"
  "value_subspace (Lookup (LookupCounter k)) c = SUBSPACE_COUNTER"
  by (simp_all add: value_class_key_def value_class_serialize_def value_subspace_def)

lemma no_result_Inr: "no_result r = (Inr u, db') \<longleftrightarrow> (\<exists>x. r = (Inr x, db'))"
  by (auto simp: no_result_def split: prod.splits sum.splits)

lemma expiry_first [simp]:
  "deserialize_be_u64 (be_u64 e @ v) 0 = Inr e" "deserialize_be_u64 (be_u64 e @ be_u64 f) 8 = Inr f"
  using deserialize_be_mid(2) [of 0 "[]" e v] deserialize_be_end(2) [of 8 "be_u64 e" f] by simp_all

definition expiry :: "u64 option \<Rightarrow> u64 \<Rightarrow> u64" where
  "expiry expires now = (case expires of None \<Rightarrow> u64_MAX | Some e \<Rightarrow> now + e)"

text \<open>The value of a counter in the tables.\<close>

definition count_is :: "tables \<Rightarrow> bytes \<Rightarrow> int \<Rightarrow> bool" where
  "count_is R k c \<longleftrightarrow> R SUBSPACE_COUNTER k = Some (SqlInt c) \<or> R SUBSPACE_COUNTER k = None \<and> c = 0"

context sqlite_engine
begin

lemma store_get_value_view:
  "store_get_value eng s deserialize k db = Inr r \<Longrightarrow>
   case view db (key_subspace k) (key_bytes k) of
      None \<Rightarrow> r = None
    | Some v \<Rightarrow> \<exists>b x. as_bytes v = Inr b \<and> deserialize b = Inr x \<and> r = Some x"
  using get_value_view by (cases s) (simp_all add: store_get_value_def)

lemma store_get_counter_view:
  "store_get_counter eng s k db = Inr i \<Longrightarrow>
   case view db (key_subspace (key_of_value k)) (key_bytes (key_of_value k)) of
      None \<Rightarrow> i = 0 | Some v \<Rightarrow> v = SqlInt i"
  using get_counter_view by (cases s) (simp_all add: store_get_counter_def)

lemma key_set_view:
  assumes "key_set eng env (LStore s) key v expires now db = (Inr u, db')"
  shows "view db' = tbl_put (view db) SUBSPACE_LOOKUP_VALUE key (Some (SqlBlob (be_u64 (expiry expires now) @ v)))"
proof -
  from assms obtain ids where "store_write eng (le_write env) s
      [Value (Lookup (LookupKey key)) (SetValue (StaticValue (be_u64 (expiry expires now) @ v)))] db = (Inr ids, db')"
    by (auto simp: key_set_def expiry_def no_result_Inr)
  from store_write_view(1) [OF this] show ?thesis
    by (auto simp: ops_steps_simps op_step_simps resolve_value_def write_state_new_def)
qed

lemma counter_incr_view:
  assumes "counter_incr eng env (LStore s) key n (Some e) True now db = (Inr i, db')"
  shows "added (view db SUBSPACE_COUNTER key) n (SqlInt i) \<and>
    view db' = tbl_put (tbl_put (view db) SUBSPACE_LOOKUP_VALUE key (Some (SqlBlob (be_u64 0 @ be_u64 (now + e)))))
      SUBSPACE_COUNTER key (Some (SqlInt i))"
proof -
  from assms obtain ids where w: "store_write eng (le_write env) s
      [Value (Lookup (LookupKey key)) (SetValue (StaticValue (be_u64 0 @ be_u64 (now + e)))),
       Value (Lookup (LookupCounter key)) (AddAndGet n)] db = (Inr ids, db')" and i: "last_counter_id ids = Inr i"
    by (auto simp: counter_incr_def split: prod.splits sum.splits)
  have ne: "SUBSPACE_COUNTER \<noteq> SUBSPACE_LOOKUP_VALUE" by (simp add: subspace_defs)
  from store_write_view(1) [OF w] i ne show ?thesis
    by (auto simp: ops_steps_simps op_step_simps resolve_value_def write_state_new_def last_counter_id_def
        last_opt_def push_counter_id_def no_ids_def tbl_put_apply)
qed

lemma counter_incr_count:
  assumes "counter_incr eng env (LStore s) key 1 (Some e) True now db = (Inr i, db')"
    and "count_is (view db) key c" and "0 \<le> c" and "c + 1 < 2 ^ 63"
  shows "i = c + 1 \<and> count_is (view db') key (c + 1)"
  using counter_incr_view [OF assms(1)] assms(2-)
  by (auto simp: count_is_def added_def in_i64_def tbl_put_apply)

end

text \<open>A value set with an expiry is read back until the expiry and is gone from then on; a
  value set without one is read back as long as the clock has not reached its end.\<close>

theorem key_set_get:
  assumes "sqlite_engine eng view saved"
    and "key_set eng env (LStore s) key v expires now db = (Inr u, db')"
    and "key_get eng env deserialize from_value (LStore s) key now' db' = Inr r"
  shows "if now' < expiry expires now then \<exists>x. deserialize v = Inr x \<and> r = Some x else r = None"
proof -
  from assms(3) obtain x where x: "store_get_value eng s (deserialize_lookup_value deserialize now')
      (key_of_value (lookup_key (LookupKey key))) db' = Inr x"
    and r: "r = (case x of None \<Rightarrow> None | Some v \<Rightarrow> lookup_value_option v)"
    by (auto simp: key_get_def rbind_Inr_iff)
  from sqlite_engine.store_get_value_view [OF assms(1) x] sqlite_engine.key_set_view [OF assms(1,2)] r
  show ?thesis
    by (auto simp: tbl_put_apply as_bytes_def deserialize_lookup_value_def rbind_Inr_iff U64_LEN_def
        lookup_value_option_def split: if_splits)
qed

text \<open>An environment without SQL queries and without capital letters, to evaluate on.\<close>

definition mem_lookup_env :: "mem_db lookup_env" where
  "mem_lookup_env =
     \<lparr>le_write = \<lparr>we_hash = \<lambda>_. 0, we_rng = \<lambda>_ _. 0\<rparr>,
      le_adhoc = \<lparr>ad_execute = \<lambda>_ _ db. (None, db), ad_query_one = \<lambda>_ _ _. None\<rparr>,
      le_unicode = \<lparr>is_uppercase = \<lambda>_. False, char_to_lowercase = \<lambda>c. [c], str_to_lowercase = \<lambda>s. s\<rparr>\<rparr>"

theorem key_set_get_witness:
  "(if (105 :: u64) < expiry (Some 10) 100 then \<exists>x. Inr [1 :: u8, 2] = (Inr x :: bytes trc_result) \<and> Some [1, 2] = Some x
    else Some [1 :: u8, 2] = None)"
proof -
  let ?w = "key_set mem_engine mem_lookup_env (LStore SQLite) [107] [1, 2] (Some 10) 100 (mem_start [])"
  have "fst ?w = Inr ()" by code_simp
  then have w: "?w = (Inr (), snd ?w)" by (metis prod.collapse)
  have "key_get mem_engine mem_lookup_env Inr (\<lambda>_. []) (LStore SQLite) [107] 105 (snd ?w) = Inr (Some [1 :: u8, 2])"
    by code_simp
  from key_set_get [OF mem.sqlite_engine_axioms w this] show ?thesis by simp
qed

text \<open>Several requests one after the other, with the two readings of the clock of each.\<close>

fun rate_calls ::
    "'db sql_engine \<Rightarrow> 'db lookup_env \<Rightarrow> lookup_store \<Rightarrow> bytes \<Rightarrow> rate \<Rightarrow> (u64 \<times> u64) list \<Rightarrow> 'db \<Rightarrow>
     (u64 option list \<times> 'db) option" where
  "rate_calls eng env ls key r [] db = Some ([], db)"
| "rate_calls eng env ls key r ((t, t') # ts) db =
     (case is_rate_allowed eng env ls key r False t t' db of
        Some (Inr x, db') \<Rightarrow>
          map_option (\<lambda>(xs, db''). (x # xs, db'')) (rate_calls eng env ls key r ts db')
      | _ \<Rightarrow> None)"

definition expires_in :: "rate \<Rightarrow> u64 \<Rightarrow> u64" where
  "expires_in r t = t div rate_period r * rate_period r + rate_period r - t"

lemma expires_in_bounds:
  assumes "rate_period r \<noteq> 0" and "unat t + unat (rate_period r) < 2 ^ 64"
  shows "0 < expires_in r t" and "expires_in r t \<le> rate_period r"
proof -
  let ?p = "rate_period r"
  have p: "0 < unat ?p" using assms(1) by (simp add: unat_gt_0)
  have "unat t div unat ?p * unat ?p \<le> unat t" by simp
  then have le: "unat (t div ?p) * unat ?p + unat ?p < 2 ^ 64" using assms(2) unfolding unat_div by linarith
  then have "unat (t div ?p * ?p) = unat (t div ?p) * unat ?p"
    by (intro unat_mult_lem [THEN iffD1]) simp
  with le have "unat (t div ?p * ?p + ?p) = unat t div unat ?p * unat ?p + unat ?p"
    using unat_add_lem [of "t div ?p * ?p" ?p] by (simp add: unat_div)
  moreover have "unat t < unat t div unat ?p * unat ?p + unat ?p"
    using p mod_less_divisor [OF p, of "unat t"] div_mult_mod_eq [of "unat t" "unat ?p"] by linarith
  ultimately have e: "unat (expires_in r t) = unat t div unat ?p * unat ?p + unat ?p - unat t"
    by (simp add: expires_in_def unat_sub word_le_nat_alt)
  show "0 < expires_in r t" using e \<open>unat t < _\<close> by (simp add: word_less_nat_alt)
  show "expires_in r t \<le> ?p" using e \<open>unat t div unat ?p * unat ?p \<le> unat t\<close>
    unfolding word_le_nat_alt by linarith
qed

lemma rate_period_nonzero: "is_rate_allowed eng env ls key r soft t t' db = Some y \<Longrightarrow> rate_period r \<noteq> 0"
  by (rule notI) (simp add: is_rate_allowed_def)

text \<open>What the requests of one period are answered when \<open>c\<close> were counted before.\<close>

fun rate_answers :: "rate \<Rightarrow> int \<Rightarrow> u64 list \<Rightarrow> u64 option list" where
  "rate_answers r c [] = []"
| "rate_answers r c (t # ts) =
     (if c + 1 \<le> sint (rate_requests r) then None else Some (expires_in r t)) # rate_answers r (c + 1) ts"

lemma rate_answers_allowed:
  "map (\<lambda>x. x = None) (rate_answers r c ts) = map (\<lambda>i. c + int i < sint (rate_requests r)) [0..<length ts]"
proof (induction ts arbitrary: c)
  case (Cons t ts)
  have "map (\<lambda>i. c + int i < sint (rate_requests r)) [0..<Suc (length ts)] =
      (c < sint (rate_requests r)) # map (\<lambda>i. c + 1 + int i < sint (rate_requests r)) [0..<length ts]"
    by (subst map_upt_Suc) (simp add: add.assoc)
  then show ?case using Cons by (simp del: upt_Suc)
qed simp

context sqlite_engine
begin

lemma rate_call:
  assumes "is_rate_allowed eng env (LStore s) key r False t t' db = Some (Inr x, db')"
    and "count_is (view db) (key @ be_u64 (t div rate_period r)) c" and "0 \<le> c" and "c + 1 < 2 ^ 63"
  shows "x = (if c + 1 \<le> sint (rate_requests r) then None else Some (expires_in r t)) \<and>
    count_is (view db') (key @ be_u64 (t div rate_period r)) (c + 1)"
proof -
  from assms(1) obtain i where "counter_incr eng env (LStore s) (key @ be_u64 (t div rate_period r)) 1
      (Some (expires_in r t)) True t' db = (Inr i, db')"
    and "x = (if i \<le> sint (rate_requests r) then None else Some (expires_in r t))"
    by (auto simp: is_rate_allowed_def expires_in_def rbind_Inr_iff Let_def split: if_splits prod.splits)
  with counter_incr_count [OF this(1) assms(2-)] show ?thesis by auto
qed

lemma soft_check_eq:
  "rate_period r \<noteq> 0 \<Longrightarrow> is_rate_allowed eng env ls key r True t t' db =
     Some (rbind (rbind (counter_get eng ls (key @ be_u64 (t div rate_period r)) db) (\<lambda>c. Inr (i64_add c 1)))
       (\<lambda>n. Inr (if n \<le> sint (rate_requests r) then None else Some (expires_in r t))), db)"
  unfolding is_rate_allowed_def expires_in_def Let_def by simp

lemma i64_add_1: "0 \<le> c \<Longrightarrow> c + 1 < 2 ^ 63 \<Longrightarrow> i64_add c 1 = c + 1"
  using mod_pos_pos_trivial [of "c + 1 + 2 ^ 63" "2 ^ 64"] by (simp add: i64_add_def)

lemma counter_get_count:
  "counter_get eng (LStore s) k db = Inr i \<Longrightarrow> count_is (view db) k c \<Longrightarrow> i = c"
  using store_get_counter_view [of s "lookup_key (LookupCounter k)" db i] by (auto simp: counter_get_def count_is_def)

lemma rate_soft_check:
  assumes "is_rate_allowed eng env (LStore s) key r True t t' db = Some (Inr x, db')"
    and "count_is (view db) (key @ be_u64 (t div rate_period r)) c" and "0 \<le> c" and "c + 1 < 2 ^ 63"
  shows "x = (if c + 1 \<le> sint (rate_requests r) then None else Some (expires_in r t)) \<and> db' = db"
proof -
  note p = rate_period_nonzero [OF assms(1)]
  define a where "a n = (if n \<le> sint (rate_requests r) then None else Some (expires_in r t))" for n
  note e = assms(1) [unfolded soft_check_eq [OF p], folded a_def]
  define g where "g = counter_get eng (LStore s) (key @ be_u64 (t div rate_period r)) db"
  from e have "rbind (rbind g (\<lambda>c. Inr (i64_add c 1))) (\<lambda>n. Inr (a n)) = Inr x" and db: "db = db'"
    unfolding g_def option.inject prod.inject by blast+
  then obtain i where i: "g = Inr i" and x: "x = a (i64_add i 1)" by (cases g) simp_all
  show ?thesis using x unfolding counter_get_count [OF i [unfolded g_def] assms(2)] i64_add_1 [OF assms(3,4)] a_def using db by simp
qed

lemma rate_calls_answers:
  "\<lbrakk>rate_calls eng env (LStore s) key r ts db = Some (xs, db');
    \<forall>(t, _) \<in> set ts. t div rate_period r = w; count_is (view db) (key @ be_u64 w) c; 0 \<le> c;
    c + int (length ts) < 2 ^ 63\<rbrakk> \<Longrightarrow>
   xs = rate_answers r c (map fst ts) \<and> count_is (view db') (key @ be_u64 w) (c + int (length ts))"
proof (induction ts arbitrary: xs db c)
  case (Cons p ts)
  obtain t t' where p: "p = (t, t')" by (cases p)
  with Cons.prems(1) obtain x db1 xs' where a: "is_rate_allowed eng env (LStore s) key r False t t' db = Some (Inr x, db1)"
    and b: "rate_calls eng env (LStore s) key r ts db1 = Some (xs', db')" and xs: "xs = x # xs'"
    by (auto split: option.splits prod.splits sum.splits)
  have t: "t div rate_period r = w" using Cons.prems(2) p by simp
  from rate_call [OF a, unfolded t, OF Cons.prems(3,4)] Cons.prems(5)
  have x: "x = (if c + 1 \<le> sint (rate_requests r) then None else Some (expires_in r t))"
    and c: "count_is (view db1) (key @ be_u64 w) (c + 1)" by auto
  have ts: "\<forall>(t, _) \<in> set ts. t div rate_period r = w" using Cons.prems(2) by simp
  have "c + 1 + int (length ts) = c + int (length (p # ts))" by simp
  with Cons.IH [OF b ts c] Cons.prems(4,5) show ?case by (simp add: xs x p)
qed simp

end

text \<open>C27: a rate limit of \<open>n\<close> requests per period allows exactly the first \<open>n\<close> requests of a
  period, also when \<open>c\<close> of them were counted before, and answers the others with the time that
  is left, which is positive and at most the period; a soft check answers what the next request
  would be answered and counts nothing.\<close>

theorem rate_limit_exact:
  assumes "sqlite_engine eng view saved" and "\<forall>(t, _) \<in> set ts. t div rate_period r = w"
    and "count_is (view db) (key @ be_u64 w) c" and "0 \<le> c" and "c + int (length ts) + 1 < 2 ^ 63"
    and "rate_calls eng env (LStore s) key r ts db = Some (xs, db')"
    and "is_rate_allowed eng env (LStore s) key r True t t' db' = Some (Inr x, db'')"
    and "t div rate_period r = w" and "unat t + unat (rate_period r) < 2 ^ 64"
  shows "map (\<lambda>x. x = None) xs = map (\<lambda>i. c + int i < sint (rate_requests r)) [0..<length ts] \<and>
    (x = None \<longleftrightarrow> c + int (length ts) < sint (rate_requests r)) \<and> db'' = db' \<and>
    (\<forall>e. x = Some e \<longrightarrow> 0 < e \<and> e \<le> rate_period r)"
proof -
  from sqlite_engine.rate_calls_answers [OF assms(1,6,2,3,4)] assms(5)
  have xs: "xs = rate_answers r c (map fst ts)" and c: "count_is (view db') (key @ be_u64 w) (c + int (length ts))"
    by auto
  have "map (\<lambda>x. x = None) xs = map (\<lambda>i. c + int i < sint (rate_requests r)) [0..<length ts]"
    by (simp add: xs rate_answers_allowed)
  moreover from sqlite_engine.rate_soft_check [OF assms(1,7), unfolded assms(8), OF c] assms(4,5)
  have "x = (if c + int (length ts) + 1 \<le> sint (rate_requests r) then None else Some (expires_in r t))" "db'' = db'"
    by auto
  moreover note rate_period_nonzero [OF assms(7)]
  ultimately show ?thesis using expires_in_bounds [OF _ assms(9)] by (auto split: if_splits)
qed

theorem rate_limit_exact_witness:
  "map (\<lambda>x. x = None) [None, None, Some (40 :: u64)] =
    map (\<lambda>i. 0 + int i < sint (rate_requests \<lparr>rate_requests = 2, rate_period = 60\<rparr>)) [0..<3]"
proof -
  let ?r = "\<lparr>rate_requests = 2, rate_period = 60\<rparr>" and ?db = "mem_start []"
  let ?ts = "[(120, 120), (130, 130), (140, 141)] :: (u64 \<times> u64) list"
  let ?c = "rate_calls mem_engine mem_lookup_env (LStore SQLite) [1] ?r ?ts ?db"
  let ?x = "is_rate_allowed mem_engine mem_lookup_env (LStore SQLite) [1] ?r True 150 150 (snd (the ?c))"
  have "map_option fst ?c = Some [None, None, Some 40]" by code_simp
  then have c: "?c = Some ([None, None, Some 40], snd (the ?c))" by (cases ?c) auto
  have "map_option fst ?x = Some (Inr (Some 30))" by code_simp
  then have x: "?x = Some (Inr (Some 30), snd (the ?x))" by (cases ?x) auto
  have "count_is (mem_view ?db) ([1] @ be_u64 2) 0"
    by (simp add: count_is_def mem_view_def mem_start_def mem_tables_def)
  from conjunct1 [OF rate_limit_exact [OF mem.sqlite_engine_axioms _ this _ _ c x]] show ?thesis
    by (simp add: upt_conv_Cons)
qed

subsection \<open>What a purge removes\<close>

definition expired_value :: "u64 \<Rightarrow> bytes \<Rightarrow> bool" where
  "expired_value now v \<longleftrightarrow> (\<exists>e. deserialize_be_u64 v 0 = Inr e \<and> e \<noteq> 0 \<and> e \<le> now)"

definition expired_counter :: "u64 \<Rightarrow> bytes \<Rightarrow> bool" where
  "expired_counter now v \<longleftrightarrow> deserialize_be_u64 v 0 = Inr 0 \<and> (\<exists>e. deserialize_be_u64 v 8 = Inr e \<and> e \<le> now)"

lemma expired_callback_Inr:
  "expired_callback now k v (a, b) = Inr (go_on, s) \<Longrightarrow>
    go_on \<and> s = (a @ (if expired_value now v then [k] else []), b @ (if expired_counter now v then [k] else []))"
  by (auto simp: expired_callback_def expired_value_def expired_counter_def rbind_Inr_iff U64_LEN_def split: if_splits)

lemma expired_scan:
  "run_callback (expired_callback now) kvs (a, b) = Inr (a', b') \<Longrightarrow>
    set a' = set a \<union> {k. \<exists>v. (k, v) \<in> set kvs \<and> expired_value now v} \<and>
    set b' = set b \<union> {k. \<exists>v. (k, v) \<in> set kvs \<and> expired_counter now v}"
proof (induction kvs arbitrary: a b)
  case (Cons kv kvs)
  obtain k v where kv: "kv = (k, v)" by (cases kv)
  with Cons.prems obtain go_on a1 b1 where c: "expired_callback now k v (a, b) = Inr (go_on, a1, b1)"
    and r: "(if go_on then run_callback (expired_callback now) kvs (a1, b1) else Inr (a1, b1)) = Inr (a', b')"
    by (auto simp: rbind_Inr_iff)
  note c = expired_callback_Inr [OF c]
  then have "run_callback (expired_callback now) kvs (a1, b1) = Inr (a', b')" using r by simp
  from Cons.IH [OF this] c kv show ?case by auto
qed simp

fun lookup_row :: "lookup_class \<Rightarrow> u8 \<times> bytes" where
  "lookup_row (LookupKey k) = (SUBSPACE_LOOKUP_VALUE, k)"
| "lookup_row (LookupCounter k) = (SUBSPACE_COUNTER, k)"

definition clear_lookup :: "lookup_class \<Rightarrow> operation" where
  "clear_lookup c = Value (Lookup c) ClearValue"

lemma clear_lookups_steps:
  "ops_steps h (map clear_lookup cs) (st, R) (st', R') \<Longrightarrow> R' = without R (lookup_row ` set cs)"
proof (induction cs arbitrary: R)
  case (Cons c cs)
  then obtain R1 where "ops_steps h (map clear_lookup cs) (st, R1) (st', R')" "R1 = without R {lookup_row c}"
    by (cases c) (auto simp: clear_lookup_def [of "LookupKey _"] clear_lookup_def [of "LookupCounter _"]
        ops_steps_simps op_step_simps tbl_put_None)
  from Cons.IH [OF this(1)] this(2) show ?case by simp
qed (simp add: ops_steps_simps)

context sqlite_engine
begin

lemma clear_lookups_view:
  "store_write eng env s (map clear_lookup cs) db = (Inr ids, db') \<Longrightarrow>
    view db' = without (view db) (lookup_row ` set cs)"
  using store_write_view(1) clear_lookups_steps by blast

lemma purge_lookups_view:
  assumes f: "\<And>k. f k = map clear_lookup (g k)"
  shows "purge_lookups eng env s f ks (map clear_lookup cs) db = (Inr u, db') \<Longrightarrow>
    view db' = without (view db) (lookup_row ` (set cs \<union> (\<Union>k \<in> set ks. set (g k))))"
proof (induction ks arbitrary: cs db)
  case Nil
  then show ?case using clear_lookups_view by (cases "cs = []") (auto simp: no_result_Inr)
next
  case (Cons k ks)
  have ops: "map clear_lookup cs @ f k = map clear_lookup (cs @ g k)" by (simp add: f)
  show ?case
  proof (cases "1000 \<le> length (cs @ g k)")
    case True
    with Cons.prems obtain ids db1 where w: "store_write eng env s (map clear_lookup (cs @ g k)) db = (Inr ids, db1)"
      and rest: "purge_lookups eng env s f ks (map clear_lookup []) db1 = (Inr u, db')"
      unfolding purge_lookups.simps ops Let_def
      by (auto simp: batch_new_def simp del: map_append split: prod.splits sum.splits)
    from Cons.IH [OF rest] clear_lookups_view [OF w] show ?thesis by (simp add: image_Un Un_assoc)
  next
    case False
    with Cons.prems have "purge_lookups eng env s f ks (map clear_lookup (cs @ g k)) db = (Inr u, db')"
      unfolding purge_lookups.simps ops Let_def by (simp del: map_append)
    from Cons.IH [OF this] show ?thesis by (simp add: image_Un Un_assoc)
  qed
qed

end

lemma lookup_range_simps:
  "\<not> ip_first lookup_range" "ip_values lookup_range" "key_subspace (ip_begin lookup_range) = SUBSPACE_LOOKUP_VALUE"
  "key_bytes (ip_begin lookup_range) = [0]" "key_bytes (ip_end lookup_range) = replicate 10 u8_MAX"
  by (simp_all add: lookup_range_def iterate_params_new_def)

text \<open>C28: a purge removes the values that have expired, and the counters that have expired with the
  row that holds their expiry, and nothing else. It sees the keys from the byte 0 to ten bytes
  255.\<close>

theorem purge_lookup_store_exact:
  assumes "sqlite_engine eng view saved" and "purge_lookup_store eng env (LStore s) now db = (Inr u, db')"
  shows "view db' = without (view db)
    ({(SUBSPACE_LOOKUP_VALUE, k) | k v. [0] \<le> k \<and> k \<le> replicate 10 u8_MAX \<and>
        view db SUBSPACE_LOOKUP_VALUE k = Some v \<and>
        (expired_value now (cell_bytes v) \<or> expired_counter now (cell_bytes v))} \<union>
     {(SUBSPACE_COUNTER, k) | k v. [0] \<le> k \<and> k \<le> replicate 10 u8_MAX \<and>
        view db SUBSPACE_LOOKUP_VALUE k = Some v \<and> expired_counter now (cell_bytes v)})"
proof -
  define lo hi where "lo = [0 :: u8]" and "hi = replicate 10 u8_MAX"
  from assms(2) obtain ks cs db1 where
    it: "store_iterate eng s lookup_range (expired_callback now) ([], []) db = Inr (ks, cs)"
    and p1: "purge_lookups eng (le_write env) s clear_lookup_key ks (map clear_lookup []) db = (Inr (), db1)"
    and p2: "purge_lookups eng (le_write env) s clear_lookup_counter cs (map clear_lookup []) db1 = (Inr u, db')"
    by (auto simp: purge_lookup_store_def batch_new_def split: sum.splits prod.splits if_splits)
  have rows: "(k, v) \<in> set (entries (view db) lookup_range) \<longleftrightarrow> (\<exists>c. lo \<le> k \<and> k \<le> hi \<and>
      view db SUBSPACE_LOOKUP_VALUE k = Some c \<and> v = cell_bytes c)" for k v
    unfolding sqlite_engine.entries_rows [OF assms(1) lookup_range_simps(1)] lookup_range_simps(3-) keys_between_def
    by (auto simp: entry_def lo_def hi_def lookup_range_simps(2))
  from expired_scan [OF sqlite_engine.store_iterate_run [OF assms(1) it]]
  have ks: "set ks = {k. \<exists>v. lo \<le> k \<and> k \<le> hi \<and> view db SUBSPACE_LOOKUP_VALUE k = Some v \<and> expired_value now (cell_bytes v)}"
    and cs: "set cs = {k. \<exists>v. lo \<le> k \<and> k \<le> hi \<and> view db SUBSPACE_LOOKUP_VALUE k = Some v \<and> expired_counter now (cell_bytes v)}"
    by (auto simp: rows)
  have "view db1 = without (view db) (lookup_row ` (\<Union>k \<in> set ks. {LookupKey k}))"
    using sqlite_engine.purge_lookups_view [OF assms(1) _ p1, of "\<lambda>k. [LookupKey k]"]
    by (simp add: clear_lookup_key_def clear_lookup_def)
  moreover have "view db' = without (view db1) (lookup_row ` (\<Union>k \<in> set cs. {LookupCounter k, LookupKey k}))"
    using sqlite_engine.purge_lookups_view [OF assms(1) _ p2, of "\<lambda>k. [LookupCounter k, LookupKey k]"]
    by (simp add: clear_lookup_counter_def clear_lookup_def)
  ultimately have v: "view db' = without (view db)
      (lookup_row ` (\<Union>k \<in> set ks. {LookupKey k}) \<union> lookup_row ` (\<Union>k \<in> set cs. {LookupCounter k, LookupKey k}))"
    by simp
  have "lookup_row ` (\<Union>k \<in> set ks. {LookupKey k}) \<union> lookup_row ` (\<Union>k \<in> set cs. {LookupCounter k, LookupKey k}) =
      {(SUBSPACE_LOOKUP_VALUE, k) | k. k \<in> set ks \<or> k \<in> set cs} \<union> {(SUBSPACE_COUNTER, k) | k. k \<in> set cs}"
    by (force simp: image_Un image_iff)
  also have "\<dots> = {(SUBSPACE_LOOKUP_VALUE, k) | k v. lo \<le> k \<and> k \<le> hi \<and> view db SUBSPACE_LOOKUP_VALUE k = Some v \<and>
        (expired_value now (cell_bytes v) \<or> expired_counter now (cell_bytes v))} \<union>
     {(SUBSPACE_COUNTER, k) | k v. lo \<le> k \<and> k \<le> hi \<and> view db SUBSPACE_LOOKUP_VALUE k = Some v \<and>
        expired_counter now (cell_bytes v)}"
    unfolding ks cs by blast
  finally show ?thesis unfolding v lo_def hi_def by simp
qed

theorem purge_lookup_store_exact_witness:
  "mem_view (snd (purge_lookup_store mem_engine mem_lookup_env (LStore SQLite) 50 (mem_start
      [((SUBSPACE_LOOKUP_VALUE, [65]), SqlBlob (be_u64 40 @ [1])),
       ((SUBSPACE_LOOKUP_VALUE, [66]), SqlBlob (be_u64 60 @ [2]))]))) SUBSPACE_LOOKUP_VALUE [65] = None"
proof -
  let ?db = "mem_start
      [((SUBSPACE_LOOKUP_VALUE, [65]), SqlBlob (be_u64 40 @ [1])),
       ((SUBSPACE_LOOKUP_VALUE, [66]), SqlBlob (be_u64 60 @ [2]))]"
  let ?w = "purge_lookup_store mem_engine mem_lookup_env (LStore SQLite) 50 ?db"
  have "fst ?w = Inr ()" by code_simp
  then have w: "?w = (Inr (), snd ?w)" by (metis prod.collapse)
  have v: "mem_view ?db SUBSPACE_LOOKUP_VALUE [65] = Some (SqlBlob (be_u64 40 @ [1]))"
    by (simp add: mem_view_def mem_start_def mem_tables_def)
  have e: "expired_value 50 (cell_bytes (SqlBlob (be_u64 40 @ [1])))"
    by (simp add: expired_value_def cell_bytes_def as_bytes_def)
  have "[0] \<le> [65 :: u8]" "[65 :: u8] \<le> replicate 10 u8_MAX" by code_simp+
  with v e show ?thesis
    unfolding purge_lookup_store_exact [OF mem.sqlite_engine_axioms w] by (auto simp: without_def)
qed

end
