(* ===== verification/Query_Filter.thy ===== *)
theory Query_Filter
  imports Store_Dispatch
begin

section \<open>Filters\<close>

text \<open>
  Models \<^verbatim>\<open>src/crates/store/src/query/filter.rs\<close> and the filters of
  \<^verbatim>\<open>query/mod.rs\<close>: a boolean expression over the documents of a collection, written as a
  sequence in which a group begins with its operator and ends with \<open>End\<close>, evaluated with a
  stack of bitmaps. The word tokenizer and the hash of words are arguments.
\<close>

datatype operator = LowerThan | LowerEqualThan | GreaterThan | GreaterEqualThan | EqualTo

datatype filter =
  MatchValue u8 operator bytes
| HasText u8 bytes bool
| InBitmap "u32 bitmap_class"
| DocumentSet roaring_bitmap
| FilterAnd
| FilterOr
| FilterNot
| FilterEnd

record result_set =
  rs_account_id :: u32
  rs_collection :: u8
  rs_results :: roaring_bitmap

definition result_set_new :: "u32 \<Rightarrow> u8 \<Rightarrow> roaring_bitmap \<Rightarrow> result_set" where
  "result_set_new account_id collection results =
     \<lparr>rs_account_id = account_id, rs_collection = collection, rs_results = results\<rparr>"

definition apply_mask :: "result_set \<Rightarrow> roaring_bitmap \<Rightarrow> result_set" where
  "apply_mask r bm = r\<lparr>rs_results := rs_results r \<inter> bm\<rparr>"

subsection \<open>Constructors\<close>

definition filter_cond :: "u8 \<Rightarrow> operator \<Rightarrow> bytes \<Rightarrow> filter" where
  "filter_cond field op v = MatchValue field op v"
definition filter_eq :: "u8 \<Rightarrow> bytes \<Rightarrow> filter" where
  "filter_eq field v = MatchValue field EqualTo v"
definition filter_lt :: "u8 \<Rightarrow> bytes \<Rightarrow> filter" where
  "filter_lt field v = MatchValue field LowerThan v"
definition filter_le :: "u8 \<Rightarrow> bytes \<Rightarrow> filter" where
  "filter_le field v = MatchValue field LowerEqualThan v"
definition filter_gt :: "u8 \<Rightarrow> bytes \<Rightarrow> filter" where
  "filter_gt field v = MatchValue field GreaterThan v"
definition filter_ge :: "u8 \<Rightarrow> bytes \<Rightarrow> filter" where
  "filter_ge field v = MatchValue field GreaterEqualThan v"
definition has_text :: "u8 \<Rightarrow> bytes \<Rightarrow> filter" where
  "has_text field text = HasText field text True"
definition has_text_token :: "u8 \<Rightarrow> bytes \<Rightarrow> filter" where
  "has_text_token field text = HasText field text True"
definition is_in_bitmap :: "u8 \<Rightarrow> u32 tag_value \<Rightarrow> filter" where
  "is_in_bitmap field v = InBitmap (Tag field v)"
definition is_in_set :: "roaring_bitmap \<Rightarrow> filter" where
  "is_in_set s = DocumentSet s"

definition bitmap_key_document_ids :: "u32 \<Rightarrow> u8 \<Rightarrow> u32 bitmap_key" where
  "bitmap_key_document_ids account_id collection =
     \<lparr>bk_account_id = account_id, bk_collection = collection, bk_class = DocumentIds, bk_document_id = 0\<rparr>"

definition bitmap_key_text_token :: "(bytes \<Rightarrow> bitmap_hash) \<Rightarrow> u32 \<Rightarrow> u8 \<Rightarrow> u8 \<Rightarrow> bytes \<Rightarrow> u32 bitmap_key" where
  "bitmap_key_text_token hash_new account_id collection field token =
     \<lparr>bk_account_id = account_id, bk_collection = collection, bk_class = Text field (hash_new token),
      bk_document_id = 0\<rparr>"

definition bitmap_key_tag :: "u32 \<Rightarrow> u8 \<Rightarrow> u8 \<Rightarrow> u32 tag_value \<Rightarrow> u32 bitmap_key" where
  "bitmap_key_tag account_id collection field v =
     \<lparr>bk_account_id = account_id, bk_collection = collection, bk_class = Tag field v, bk_document_id = 0\<rparr>"

subsection \<open>Ranges of an index\<close>

definition index_at :: "u32 \<Rightarrow> u8 \<Rightarrow> u8 \<Rightarrow> bytes \<Rightarrow> u32 \<Rightarrow> index_key" where
  "index_at account_id collection field key document_id =
     \<lparr>ik_account_id = account_id, ik_collection = collection, ik_document_id = document_id,
      ik_field = field, ik_key = key\<rparr>"

definition range_bounds :: "u32 \<Rightarrow> u8 \<Rightarrow> u8 \<Rightarrow> bytes \<Rightarrow> operator \<Rightarrow> index_key \<times> index_key" where
  "range_bounds account_id collection field match_value op =
     (case op of
        LowerThan \<Rightarrow>
          (index_at account_id collection field [] 0, index_at account_id collection field match_value 0)
      | LowerEqualThan \<Rightarrow>
          (index_at account_id collection field [] 0, index_at account_id collection field match_value u32_MAX)
      | GreaterThan \<Rightarrow>
          (index_at account_id collection field match_value u32_MAX,
           index_at account_id collection (field + 1) [] u32_MAX)
      | GreaterEqualThan \<Rightarrow>
          (index_at account_id collection field match_value 0,
           index_at account_id collection (field + 1) [] u32_MAX)
      | EqualTo \<Rightarrow>
          (index_at account_id collection field match_value 0,
           index_at account_id collection field match_value u32_MAX))"

fun op_matches :: "operator \<Rightarrow> bytes \<Rightarrow> bytes \<Rightarrow> bool" where
  "op_matches LowerThan v m = (v < m)"
| "op_matches LowerEqualThan v m = (v \<le> m)"
| "op_matches GreaterThan v m = (m < v)"
| "op_matches GreaterEqualThan v m = (m \<le> v)"
| "op_matches EqualTo v m = (v = m)"

definition starts_with :: "bytes \<Rightarrow> bytes \<Rightarrow> bool" where
  "starts_with k p = (take (length p) k = p)"

definition collect_match :: "bytes \<Rightarrow> bytes \<Rightarrow> operator \<Rightarrow> roaring_bitmap callback" where
  "collect_match pre match_value op k v bm =
     (if \<not> starts_with k pre then Inr (False, bm)
      else
        let id_pos = usize_sub (length k) U32_LEN
        in rbind (ok_or DataCorruption (get_range k index_key_prefix_len id_pos)) (\<lambda>val.
             if op_matches op val match_value
             then rbind (deserialize_be_u32 k id_pos) (\<lambda>i. Inr (True, insert i bm))
             else Inr (True, bm)))"

definition range_to_bitmap ::
    "'db sql_engine \<Rightarrow> store \<Rightarrow> u32 \<Rightarrow> u8 \<Rightarrow> u8 \<Rightarrow> bytes \<Rightarrow> operator \<Rightarrow> 'db \<Rightarrow> roaring_bitmap option trc_result" where
  "range_to_bitmap eng s account_id collection field match_value op db =
     (let (from_key, to_key) = range_bounds account_id collection field match_value op;
          pre = serialize_index_key_prefix
            \<lparr>ikp_account_id = account_id, ikp_collection = collection, ikp_field = field\<rparr> 0
      in rbind (store_iterate eng s
             (ascending (no_values (iterate_params_new (key_of_index from_key) (key_of_index to_key))))
             (collect_match pre match_value op) {} db) (\<lambda>bm.
           Inr (if bm \<noteq> {} then Some bm else None)))"

subsection \<open>Evaluation\<close>

record text_env =
  te_words :: "bytes \<Rightarrow> bytes list"
  te_hash :: "bytes \<Rightarrow> bitmap_hash"

text \<open>The filters that select documents. The words of a text go through a hash set; listing them
  without repetition is one of its orders.\<close>

definition filter_leaf ::
    "'db sql_engine \<Rightarrow> text_env \<Rightarrow> store \<Rightarrow> u32 \<Rightarrow> u8 \<Rightarrow> filter \<Rightarrow> 'db \<Rightarrow> roaring_bitmap option trc_result" where
  "filter_leaf eng env s account_id collection f db =
     (case f of
        MatchValue field op v \<Rightarrow> range_to_bitmap eng s account_id collection field v op db
      | HasText field text tokenize \<Rightarrow>
          if tokenize then
            store_get_bitmaps_intersection eng s
              (map (bitmap_key_text_token (te_hash env) account_id collection field)
                (remdups (te_words env text))) db
          else store_get_bitmap eng s (bitmap_key_text_token (te_hash env) account_id collection field text) db
      | InBitmap c \<Rightarrow>
          store_get_bitmap eng s \<lparr>bk_account_id = account_id, bk_collection = collection,
            bk_class = c, bk_document_id = 0\<rparr> db
      | DocumentSet ids \<Rightarrow> Inr (Some ids)
      | _ \<Rightarrow> Inr None)"

record filter_state =
  fs_op :: filter
  fs_bm :: "roaring_bitmap option"

definition filter_state_from :: "filter \<Rightarrow> filter_state" where
  "filter_state_from f = \<lparr>fs_op = f, fs_bm = None\<rparr>"

text \<open>The mask of \<open>Not\<close>, fetched once: the pair of \<open>not_mask\<close> and \<open>not_fetch\<close>.\<close>

definition fetch_mask ::
    "'db sql_engine \<Rightarrow> store \<Rightarrow> u32 \<Rightarrow> u8 \<Rightarrow> filter \<Rightarrow> roaring_bitmap \<times> bool \<Rightarrow> 'db \<Rightarrow>
     (roaring_bitmap \<times> bool) trc_result" where
  "fetch_mask eng s account_id collection op m db =
     (if op = FilterNot \<and> \<not> snd m then
        rbind (store_get_bitmap eng s (bitmap_key_document_ids account_id collection) db) (\<lambda>bm.
          Inr (case bm of None \<Rightarrow> {} | Some b \<Rightarrow> b, True))
      else Inr m)"

definition bitxor :: "'a set \<Rightarrow> 'a set \<Rightarrow> 'a set" where
  "bitxor a b = (a - b) \<union> (b - a)"

text \<open>An operator other than the three is \<open>unreachable!()\<close>.\<close>

definition apply_result :: "filter \<Rightarrow> roaring_bitmap \<Rightarrow> roaring_bitmap option \<Rightarrow> roaring_bitmap option \<Rightarrow> roaring_bitmap" where
  "apply_result op not_mask dest result =
     (case dest of
        Some d \<Rightarrow>
          (case op of
             FilterAnd \<Rightarrow> (case result of Some r \<Rightarrow> d \<inter> r | None \<Rightarrow> {})
           | FilterOr \<Rightarrow> (case result of Some r \<Rightarrow> d \<union> r | None \<Rightarrow> d)
           | FilterNot \<Rightarrow> (case result of Some r \<Rightarrow> d \<inter> bitxor r not_mask | None \<Rightarrow> d)
           | _ \<Rightarrow> d)
      | None \<Rightarrow>
          (case result of
             Some r \<Rightarrow> (if op = FilterNot then bitxor r not_mask else r)
           | None \<Rightarrow> (if op = FilterNot then not_mask else {})))"

text \<open>\<open>And\<close> is cut short: once nothing is left, the filters up to the next \<open>End\<close> are
  skipped.\<close>

definition skip_filters :: "filter \<Rightarrow> roaring_bitmap \<Rightarrow> filter list \<Rightarrow> filter list" where
  "skip_filters op bm fs = (if op = FilterAnd \<and> bm = {} then dropWhile (\<lambda>f. f \<noteq> FilterEnd) fs else fs)"

lemma skip_filters_length [termination_simp]: "length (skip_filters op bm fs) \<le> length fs"
  by (simp add: skip_filters_def length_dropWhile_le)

text \<open>The loop. A result is merged into the innermost group, after the mask is fetched.\<close>

function filter_loop ::
    "'db sql_engine \<Rightarrow> text_env \<Rightarrow> store \<Rightarrow> u32 \<Rightarrow> u8 \<Rightarrow> filter list \<Rightarrow> filter_state \<Rightarrow> filter_state list \<Rightarrow>
     roaring_bitmap \<times> bool \<Rightarrow> 'db \<Rightarrow> filter_state trc_result"
  and filter_merge ::
    "'db sql_engine \<Rightarrow> text_env \<Rightarrow> store \<Rightarrow> u32 \<Rightarrow> u8 \<Rightarrow> filter list \<Rightarrow> filter_state \<Rightarrow> filter_state list \<Rightarrow>
     roaring_bitmap \<times> bool \<Rightarrow> roaring_bitmap option \<Rightarrow> 'db \<Rightarrow> filter_state trc_result" where
  "filter_loop eng env s a c [] st stack m db = Inr st"
| "filter_loop eng env s a c (f # fs) st stack m db =
     (if f = FilterAnd \<or> f = FilterOr \<or> f = FilterNot
      then filter_loop eng env s a c fs (filter_state_from f) (st # stack) m db
      else if f = FilterEnd then
        (case stack of
           [] \<Rightarrow> Inr st
         | prev # stack' \<Rightarrow> filter_merge eng env s a c fs prev stack' m (fs_bm st) db)
      else
        (case filter_leaf eng env s a c f db of
           Inl e \<Rightarrow> Inl e
         | Inr result \<Rightarrow> filter_merge eng env s a c fs st stack m result db))"
| "filter_merge eng env s a c fs st stack m result db =
     (case fetch_mask eng s a c (fs_op st) m db of
        Inl e \<Rightarrow> Inl e
      | Inr m' \<Rightarrow>
          let bm = apply_result (fs_op st) (fst m') (fs_bm st) result
          in filter_loop eng env s a c (skip_filters (fs_op st) bm fs) (st\<lparr>fs_bm := Some bm\<rparr>) stack m' db)"
  by pat_completeness auto
termination
  by (relation "measure (\<lambda>x. case x of
      Inl (eng, env, s, a, c, fs, st, stack, m, db) \<Rightarrow> 2 * length fs
    | Inr (eng, env, s, a, c, fs, st, stack, m, result, db) \<Rightarrow> Suc (2 * length fs))")
    (auto simp: le_imp_less_Suc skip_filters_length)

declare filter_loop.simps [simp del] filter_merge.simps [simp del]

definition store_filter ::
    "'db sql_engine \<Rightarrow> text_env \<Rightarrow> store \<Rightarrow> u32 \<Rightarrow> u8 \<Rightarrow> filter list \<Rightarrow> 'db \<Rightarrow> result_set trc_result" where
  "store_filter eng env s account_id collection filters db =
     (if filters = [] then
        rbind (store_get_bitmap eng s (bitmap_key_document_ids account_id collection) db) (\<lambda>bm.
          Inr (result_set_new account_id collection (case bm of None \<Rightarrow> {} | Some b \<Rightarrow> b)))
      else
        rbind (filter_loop eng env s account_id collection filters (filter_state_from FilterAnd) [] ({}, False) db)
          (\<lambda>st. Inr (result_set_new account_id collection (case fs_bm st of None \<Rightarrow> {} | Some b \<Rightarrow> b))))"

subsection \<open>What a range holds\<close>

definition index_row :: "u32 \<Rightarrow> u8 \<Rightarrow> u8 \<Rightarrow> bytes \<Rightarrow> u32 \<Rightarrow> bytes" where
  "index_row a c f w d = be_u32 a @ [c, f] @ w @ be_u32 d"

definition index_docs :: "tables \<Rightarrow> u32 \<Rightarrow> u8 \<Rightarrow> u8 \<Rightarrow> operator \<Rightarrow> bytes \<Rightarrow> u32 set" where
  "index_docs R a c f op v = {d. \<exists>w. R SUBSPACE_INDEXES (index_row a c f w d) \<noteq> None \<and> op_matches op w v}"

text \<open>The values that a field is indexed by have one length.\<close>

definition fixed_width :: "tables \<Rightarrow> u32 \<Rightarrow> u8 \<Rightarrow> u8 \<Rightarrow> nat \<Rightarrow> bool" where
  "fixed_width R a c f n \<longleftrightarrow>
     (\<forall>k. R SUBSPACE_INDEXES k \<noteq> None \<longrightarrow> prefix (be_u32 a @ [c, f]) k \<longrightarrow> length k = n + 10)"

lemma starts_with_iff: "starts_with k p \<longleftrightarrow> prefix p k"
  unfolding starts_with_def by (metis append_eq_conv_conj prefix_def take_is_prefix)

lemma index_row_split:
  assumes "prefix (be_u32 a @ [c, f]) k" and "length k = n + 10"
  shows "\<exists>w d. k = index_row a c f w d \<and> length w = n"
proof -
  obtain t where k: "k = (be_u32 a @ [c, f]) @ t" using assms(1) by (auto simp: prefix_def)
  then have t: "length t = n + 4" using assms(2) by simp
  then have "t = take n t @ be_u32 (from_be_u32 (drop n t))" by (simp add: be_from_be_u32)
  with k have "k = index_row a c f (take n t) (from_be_u32 (drop n t))" by (simp add: index_row_def)
  then show ?thesis using t by auto
qed

lemma collect_match_row:
  "collect_match (be_u32 a @ [c, f]) v op (index_row a c f w d) x bm =
     Inr (True, if op_matches op w v then insert d bm else bm)"
proof -
  let ?k = "index_row a c f w d"
  have pos: "usize_sub (length ?k) 4 = 6 + length w" by (simp add: index_row_def)
  have "get_range ?k index_key_prefix_len (6 + length w) = Some w"
    using get_range_mid' [of 6 "be_u32 a @ [c, f]" "6 + length w" w "be_u32 d"]
    by (simp add: index_row_def index_key_prefix_len_def U32_LEN_def)
  moreover have "deserialize_be_u32 ?k (6 + length w) = Inr d"
    using deserialize_be_end(1) [of "6 + length w" "be_u32 a @ [c, f] @ w" d] by (simp add: index_row_def)
  moreover have "starts_with ?k (be_u32 a @ [c, f])" by (simp add: starts_with_iff index_row_def prefix_def)
  ultimately show ?thesis by (simp add: collect_match_def pos)
qed

lemma not_prefix_greater:
  fixes p k :: bytes
  shows "p \<le> k \<Longrightarrow> \<not> prefix p k \<Longrightarrow> p @ x < k"
proof (induction p arbitrary: k)
  case (Cons b p)
  then show ?case by (cases k) auto
qed simp

lemma prefix_le: "(p :: bytes) \<le> p @ x"
  by (induction p) auto

text \<open>The scan may stop at the first key of another field, since the keys that follow are of other
  fields, too.\<close>

lemma collect_matches:
  "\<lbrakk>run_callback (collect_match (be_u32 a @ [c, f]) v op) (map (\<lambda>k. (k, [])) ks) bm = Inr bm';
    sorted_wrt (<) ks; \<forall>k \<in> set ks. be_u32 a @ [c, f] \<le> k;
    \<forall>k \<in> set ks. prefix (be_u32 a @ [c, f]) k \<longrightarrow> length k = n + 10\<rbrakk> \<Longrightarrow>
   bm' = bm \<union> {d. \<exists>w. index_row a c f w d \<in> set ks \<and> op_matches op w v}"
proof (induction ks arbitrary: bm)
  case (Cons k ks)
  let ?p = "be_u32 a @ [c, f]"
  show ?case
  proof (cases "prefix ?p k")
    case True
    then obtain w d where k: "k = index_row a c f w d" using index_row_split Cons.prems(4) by (metis list.set_intros(1))
    have inj: "index_row a c f w' d' = index_row a c f w d \<longleftrightarrow> w' = w \<and> d' = d" for w' d'
      by (simp add: index_row_def)
    have "run_callback (collect_match ?p v op) (map (\<lambda>k. (k, [])) ks) (if op_matches op w v then insert d bm else bm) = Inr bm'"
      using Cons.prems(1) by (simp add: k collect_match_row)
    from Cons.IH [OF this] Cons.prems(2-4)
    have "bm' = (if op_matches op w v then insert d bm else bm) \<union> {d. \<exists>w. index_row a c f w d \<in> set ks \<and> op_matches op w v}"
      by simp
    then show ?thesis by (auto simp: k inj)
  next
    case False
    then have "bm' = bm" using Cons.prems(1) by (simp add: collect_match_def starts_with_iff)
    moreover have "index_row a c f w d \<notin> set (k # ks)" for w d
    proof -
      have "index_row a c f w d < k"
        using not_prefix_greater [OF _ False, of "w @ be_u32 d"] Cons.prems(3) by (simp add: index_row_def)
      then show ?thesis using Cons.prems(2) by (auto dest: less_trans)
    qed
    ultimately show ?thesis by auto
  qed
qed simp

lemma zeros_le: "4 \<le> length xs \<Longrightarrow> be_u32 0 \<le> xs"
proof -
  assume "4 \<le> length xs"
  then have "xs = take 4 xs @ drop 4 xs" "length (take 4 xs) = 4" by simp_all
  moreover have "be_u32 0 = replicate 4 0" by code_simp
  ultimately show ?thesis
    using replicate_0_least [of "take 4 xs"] prefix_le [of "take 4 xs" "drop 4 xs"] by simp
qed

lemma u8_less_Suc: "(f :: u8) \<noteq> u8_MAX \<Longrightarrow> f < f + 1"
proof -
  assume "f \<noteq> u8_MAX"
  moreover have "unat u8_MAX = 255" by code_simp
  ultimately have "unat f \<noteq> 255" by (metis word_unat_eq_iff)
  then have "unat f < 255" using unat_u8_less [of f] by linarith
  then show ?thesis by (simp add: word_less_nat_alt unat_word_ariths)
qed

lemma index_at_bytes: "key_bytes (key_of_index (index_at a c f w d)) = index_row a c f w d"
  by (simp add: key_of_index_def index_at_def serialize_index_key_def index_row_def)

lemma index_row_le:
  "length w = length v \<Longrightarrow> index_row a c f w d \<le> index_row a c f v e \<longleftrightarrow> w < v \<or> w = v \<and> d \<le> e"
  by (simp add: index_row_def le_append_same_length)

lemma index_row_first: "index_row a c f [] 0 \<le> index_row a c f w d"
  using zeros_le [of "w @ be_u32 d"] by (simp add: index_row_def)

lemma index_row_next: "f \<noteq> u8_MAX \<Longrightarrow> index_row a c f w d \<le> index_row a c (f + 1) [] e"
  using u8_less_Suc [of f] by (simp add: index_row_def)

lemma row_in_range:
  assumes "f \<noteq> u8_MAX" and "length w = length v" and "op_matches op w v"
    and "range_bounds a c f v op = (b, e)"
  shows "key_bytes (key_of_index b) \<le> index_row a c f w d" and "index_row a c f w d \<le> key_bytes (key_of_index e)"
  using assms(3,4) index_row_le [OF assms(2)] index_row_le [OF assms(2) [symmetric]]
    index_row_first index_row_next [OF assms(1)]
  by (cases op; force simp: range_bounds_def index_at_bytes)+

context sqlite_engine
begin

lemma range_to_bitmap_docs:
  assumes "range_to_bitmap eng s a c f v op db = Inr r"
    and "f \<noteq> u8_MAX" and "fixed_width (view db) a c f (length v)"
  shows "bitmap_ids r = index_docs (view db) a c f op v"
proof -
  obtain b e where be: "range_bounds a c f v op = (b, e)" by fastforce
  let ?p = "ascending (no_values (iterate_params_new (key_of_index b) (key_of_index e)))"
  let ?K = "keys_between (view db) SUBSPACE_INDEXES (key_bytes (key_of_index b)) (key_bytes (key_of_index e))"
  let ?ks = "sorted_list_of_set ?K"
  from assms(1) obtain bm where
    it: "store_iterate eng s ?p (collect_match (be_u32 a @ [c, f]) v op) {} db = Inr bm"
    and r: "r = (if bm \<noteq> {} then Some bm else None)"
    by (auto simp: range_to_bitmap_def be serialize_index_key_prefix_def rbind_Inr_iff)
  have "entries (view db) ?p = map (\<lambda>k. (k, [])) ?ks"
    by (simp add: entries_def entry_def [abs_def] range_keys_def ascending_def no_values_def iterate_params_new_def key_of_index_def)
  with store_iterate_run [OF it]
  have run: "run_callback (collect_match (be_u32 a @ [c, f]) v op) (map (\<lambda>k. (k, [])) ?ks) {} = Inr bm" by simp
  have ks: "set ?ks = ?K" by (simp add: finite_keys_between)
  have low: "be_u32 a @ [c, f] \<le> key_bytes (key_of_index b)"
    using be prefix_le [of "be_u32 a @ [c, f]"] by (cases op) (auto simp: range_bounds_def index_at_bytes index_row_def)
  have "bm = {} \<union> {d. \<exists>w. index_row a c f w d \<in> set ?ks \<and> op_matches op w v}"
    by (rule collect_matches [OF run, of "length v"])
      (use ks low assms(3) in \<open>auto simp: keys_between_def fixed_width_def\<close>)
  moreover have "index_row a c f w d \<in> ?K \<and> op_matches op w v \<longleftrightarrow>
      view db SUBSPACE_INDEXES (index_row a c f w d) \<noteq> None \<and> op_matches op w v" for w d
  proof -
    have "length w = length v" if "view db SUBSPACE_INDEXES (index_row a c f w d) \<noteq> None"
      using assms(3) that by (auto simp: fixed_width_def index_row_def prefix_def)
    then show ?thesis using row_in_range [OF assms(2) _ _ be] by (auto simp: keys_between_def)
  qed
  ultimately show ?thesis by (auto simp: r ks index_docs_def bitmap_ids_def)
qed

end

subsection \<open>Expressions\<close>

text \<open>The documents that a filter selects, read off the tables.\<close>

definition leaf_docs :: "tables \<Rightarrow> text_env \<Rightarrow> u32 \<Rightarrow> u8 \<Rightarrow> filter \<Rightarrow> u32 set" where
  "leaf_docs R env a c f =
     (case f of
        MatchValue field op v \<Rightarrow> index_docs R a c field op v
      | HasText field text tokenize \<Rightarrow>
          if tokenize then
            (if te_words env text = [] then {}
             else \<Inter>w \<in> set (te_words env text). bitmap_documents R (bitmap_key_text_token (te_hash env) a c field w))
          else bitmap_documents R (bitmap_key_text_token (te_hash env) a c field text)
      | InBitmap cl \<Rightarrow> bitmap_documents R \<lparr>bk_account_id = a, bk_collection = c, bk_class = cl, bk_document_id = 0\<rparr>
      | DocumentSet ids \<Rightarrow> ids
      | _ \<Rightarrow> {})"

definition is_group :: "filter \<Rightarrow> bool" where
  "is_group f \<longleftrightarrow> f = FilterAnd \<or> f = FilterOr \<or> f = FilterNot"

text \<open>A leaf is a filter that selects documents; a range is over a field of fixed width other than
  the last.\<close>

definition wf_leaf :: "tables \<Rightarrow> u32 \<Rightarrow> u8 \<Rightarrow> filter \<Rightarrow> bool" where
  "wf_leaf R a c f \<longleftrightarrow> \<not> is_group f \<and> f \<noteq> FilterEnd \<and>
     (case f of MatchValue field op v \<Rightarrow> field \<noteq> u8_MAX \<and> fixed_width R a c field (length v) | _ \<Rightarrow> True)"

datatype filter_tree = Leaf filter | Group filter "filter_tree list"

fun flatten :: "filter_tree \<Rightarrow> filter list" where
  "flatten (Leaf f) = [f]"
| "flatten (Group op ts) = op # concat (map flatten ts) @ [FilterEnd]"

text \<open>The meaning: \<open>And\<close> all, \<open>Or\<close> some, \<open>Not\<close> none of the parts.\<close>

definition group_docs :: "u32 set \<Rightarrow> filter \<Rightarrow> u32 set list \<Rightarrow> u32 set" where
  "group_docs all op Ds =
     (if op = FilterAnd then \<Inter>(set Ds) else if op = FilterOr then \<Union>(set Ds) else all - \<Union>(set Ds))"

fun tree_docs :: "(filter \<Rightarrow> u32 set) \<Rightarrow> u32 set \<Rightarrow> filter_tree \<Rightarrow> u32 set" where
  "tree_docs L all (Leaf f) = L f"
| "tree_docs L all (Group op ts) = group_docs all op (map (tree_docs L all) ts)"

fun is_leaf :: "filter_tree \<Rightarrow> bool" where
  "is_leaf (Leaf f) = True"
| "is_leaf (Group op ts) = False"

text \<open>Groups are not empty. In a nested \<open>And\<close> only the first part may be a group.\<close>

fun wf_tree :: "(filter \<Rightarrow> bool) \<Rightarrow> filter_tree \<Rightarrow> bool" where
  "wf_tree W (Leaf f) = W f"
| "wf_tree W (Group op ts) =
     (is_group op \<and> ts \<noteq> [] \<and> (op = FilterAnd \<longrightarrow> list_all is_leaf (tl ts)) \<and> list_all (wf_tree W) ts)"

lemma group_docs_snoc:
  "Ds \<noteq> [] \<Longrightarrow> is_group op \<Longrightarrow> group_docs all op (Ds @ [D]) =
     (if op = FilterAnd then group_docs all op Ds \<inter> D
      else if op = FilterOr then group_docs all op Ds \<union> D else group_docs all op Ds - D)"
  by (auto simp: group_docs_def is_group_def)

text \<open>What \<open>apply_result\<close> makes of the parts merged so far.\<close>

definition merged :: "u32 set \<Rightarrow> filter \<Rightarrow> u32 set list \<Rightarrow> u32 set option" where
  "merged all op Ds = (if Ds = [] then None else Some (group_docs all op Ds))"

lemma apply_result_merged:
  assumes "is_group op" and "bitmap_ids r \<subseteq> all" and "op = FilterNot \<longrightarrow> m = all"
  shows "apply_result op m (merged all op Ds) r = group_docs all op (Ds @ [bitmap_ids r])"
proof (cases "Ds = []")
  case True
  then show ?thesis using assms
    by (cases r) (auto simp: apply_result_def merged_def group_docs_def bitxor_def bitmap_ids_def is_group_def)
next
  case False
  have "group_docs all FilterNot Ds \<subseteq> all" by (auto simp: group_docs_def)
  then show ?thesis using assms False
    by (cases r) (auto simp: apply_result_def merged_def group_docs_snoc bitxor_def bitmap_ids_def is_group_def)
qed

definition all_docs :: "tables \<Rightarrow> u32 \<Rightarrow> u8 \<Rightarrow> u32 set" where
  "all_docs R a c = bitmap_documents R (bitmap_key_document_ids a c)"

text \<open>Indexes only name documents that exist.\<close>

definition good_leaf :: "tables \<Rightarrow> text_env \<Rightarrow> u32 \<Rightarrow> u8 \<Rightarrow> filter \<Rightarrow> bool" where
  "good_leaf R env a c f \<longleftrightarrow> wf_leaf R a c f \<and> leaf_docs R env a c f \<subseteq> all_docs R a c"

definition mask_ok :: "u32 set \<Rightarrow> roaring_bitmap \<times> bool \<Rightarrow> bool" where
  "mask_ok all m \<longleftrightarrow> (snd m \<longrightarrow> fst m = all)"

lemma tree_docs_subset: "wf_tree (\<lambda>f. W f \<and> L f \<subseteq> all) t \<Longrightarrow> tree_docs L all t \<subseteq> all"
proof (induction t)
  case (Group op ts)
  then have "tree_docs L all t \<subseteq> all" if "t \<in> set ts" for t using that by (auto simp: list_all_iff)
  moreover have "ts \<noteq> []" "is_group op" using Group.prems by auto
  ultimately show ?case by (cases ts) (auto simp: group_docs_def is_group_def)
qed simp

lemma skip_to_end:
  assumes "list_all is_leaf ts" and "list_all (wf_tree W) ts" and "\<And>f. W f \<Longrightarrow> f \<noteq> FilterEnd"
  shows "dropWhile (\<lambda>f. f \<noteq> FilterEnd) (concat (map flatten ts) @ FilterEnd # fs) = FilterEnd # fs"
  using assms(1,2)
proof (induction ts)
  case (Cons t ts)
  then show ?case using assms(3) by (cases t) auto
qed simp

lemma skip_shape: "dropWhile (\<lambda>f. f \<noteq> FilterEnd) fs = [] \<or> (\<exists>gs. dropWhile (\<lambda>f. f \<noteq> FilterEnd) fs = FilterEnd # gs)"
  by (metis (mono_tags, lifting) hd_dropWhile list.exhaust_sel)

lemma and_stays_empty: "group_docs all FilterAnd Ds = {} \<Longrightarrow> group_docs all FilterAnd (Ds @ Es) = {}"
  by (auto simp: group_docs_def)

context sqlite_engine
begin

lemma filter_leaf_docs:
  assumes "filter_leaf eng env s a c f db = Inr r" and "wf_leaf (view db) a c f"
  shows "bitmap_ids r = leaf_docs (view db) env a c f"
proof (cases f)
  case (MatchValue field op v)
  then show ?thesis using assms range_to_bitmap_docs
    by (simp add: filter_leaf_def leaf_docs_def wf_leaf_def)
next
  case (HasText field t tokenize)
  let ?ks = "map (bitmap_key_text_token (te_hash env) a c field) (remdups (te_words env t))"
  show ?thesis
  proof (cases "tokenize \<and> te_words env t \<noteq> []")
    case True
    with assms(1) HasText have "bitmaps_intersection eng s ?ks None db = Inr r"
      by (simp add: filter_leaf_def store_get_bitmaps_intersection_def)
    from bitmaps_intersection_exact [OF this] True show ?thesis by (simp add: HasText leaf_docs_def)
  next
    case False
    then show ?thesis using assms(1) HasText store_get_bitmap_view
      by (auto simp: filter_leaf_def leaf_docs_def store_get_bitmaps_intersection_def bitmap_ids_def split: if_splits)
  qed
next
  case (InBitmap x)
  then show ?thesis using assms(1) store_get_bitmap_view by (simp add: filter_leaf_def leaf_docs_def)
next
  case (DocumentSet x)
  then show ?thesis using assms(1) by (auto simp: filter_leaf_def leaf_docs_def bitmap_ids_def)
qed (use assms(2) in \<open>simp_all add: wf_leaf_def is_group_def\<close>)

lemma fetch_mask_ok:
  assumes "fetch_mask eng s a c op m db = Inr m'" and "mask_ok (all_docs (view db) a c) m"
  shows "mask_ok (all_docs (view db) a c) m'" and "op = FilterNot \<Longrightarrow> fst m' = all_docs (view db) a c"
proof -
  have "fst m' = all_docs (view db) a c \<and> snd m'" if "op = FilterNot" "\<not> snd m"
  proof -
    from assms(1) that obtain bm where bm: "store_get_bitmap eng s (bitmap_key_document_ids a c) db = Inr bm"
      and m': "m' = (bitmap_ids bm, True)"
      by (auto simp: fetch_mask_def rbind_Inr_iff bitmap_ids_def)
    then show ?thesis using store_get_bitmap_view [OF bm] by (simp add: all_docs_def)
  qed
  then show "mask_ok (all_docs (view db) a c) m'" and "op = FilterNot \<Longrightarrow> fst m' = all_docs (view db) a c"
    using assms by (auto simp: fetch_mask_def mask_ok_def split: if_splits)
qed

lemma merge_step:
  fixes db a c
  defines "all \<equiv> all_docs (view db) a c"
  assumes "filter_merge eng env s a c fs \<lparr>fs_op = op, fs_bm = merged all op Ds\<rparr> stack m r db = Inr st'"
    and "is_group op" and "mask_ok all m" and "bitmap_ids r \<subseteq> all"
  shows "\<exists>m'. mask_ok all m' \<and>
    filter_loop eng env s a c (skip_filters op (group_docs all op (Ds @ [bitmap_ids r])) fs)
      \<lparr>fs_op = op, fs_bm = merged all op (Ds @ [bitmap_ids r])\<rparr> stack m' db = Inr st'"
proof -
  from assms(2) obtain m' where m': "fetch_mask eng s a c op m db = Inr m'"
    by (auto simp: filter_merge.simps split: sum.splits)
  note ok = fetch_mask_ok [OF m' assms(4) [unfolded all_def], folded all_def]
  have "apply_result op (fst m') (merged all op Ds) r = group_docs all op (Ds @ [bitmap_ids r])"
    using apply_result_merged [OF assms(3,5)] ok(2) by simp
  with assms(2) m' ok(1) show ?thesis
    by (intro exI [of _ m']) (simp add: filter_merge.simps Let_def merged_def [of all op "Ds @ [bitmap_ids r]"])
qed

text \<open>Running the loop over one part of a group merges the documents of the part.\<close>

lemma tree_step:
  fixes db a c env
  defines "all \<equiv> all_docs (view db) a c" and "L \<equiv> leaf_docs (view db) env a c" and "W \<equiv> good_leaf (view db) env a c"
  shows "\<lbrakk>wf_tree W t; is_group op; mask_ok all m;
    filter_loop eng env s a c (flatten t @ fs) \<lparr>fs_op = op, fs_bm = merged all op Ds\<rparr> stack m db = Inr st'\<rbrakk> \<Longrightarrow>
   \<exists>m'. mask_ok all m' \<and>
    filter_loop eng env s a c (skip_filters op (group_docs all op (Ds @ [tree_docs L all t])) fs)
      \<lparr>fs_op = op, fs_bm = merged all op (Ds @ [tree_docs L all t])\<rparr> stack m' db = Inr st'"
proof (induction t arbitrary: op Ds fs stack m)
  case (Leaf f)
  have f: "wf_leaf (view db) a c f" and sub: "L f \<subseteq> all"
    using Leaf.prems(1) by (auto simp: W_def good_leaf_def all_def L_def)
  from f Leaf.prems(4) obtain r where r: "filter_leaf eng env s a c f db = Inr r"
    and st: "filter_merge eng env s a c fs \<lparr>fs_op = op, fs_bm = merged all op Ds\<rparr> stack m r db = Inr st'"
    by (auto simp: wf_leaf_def is_group_def filter_loop.simps split: sum.splits)
  have "bitmap_ids r = L f" using filter_leaf_docs [OF r f] by (simp add: L_def)
  then show ?case
    using merge_step [OF st [unfolded all_def] Leaf.prems(2) Leaf.prems(3) [unfolded all_def], folded all_def] sub by simp
next
  case (Group op2 ts)
  let ?prev = "\<lparr>fs_op = op, fs_bm = merged all op Ds\<rparr>"
  have op2: "is_group op2" and ne: "ts \<noteq> []" and leaves: "op2 = FilterAnd \<longrightarrow> list_all is_leaf (tl ts)"
    and wf: "list_all (wf_tree W) ts" using Group.prems(1) by auto
  have parts: "\<exists>m'. mask_ok all m' \<and> filter_loop eng env s a c (FilterEnd # fs)
      \<lparr>fs_op = op2, fs_bm = merged all op2 (Es @ map (tree_docs L all) us)\<rparr> (?prev # stack) m' db = Inr st'"
    if "set us \<subseteq> set ts" "op2 = FilterAnd \<longrightarrow> list_all is_leaf (if Es = [] then tl us else us)" "mask_ok all m1"
      "filter_loop eng env s a c (concat (map flatten us) @ FilterEnd # fs)
        \<lparr>fs_op = op2, fs_bm = merged all op2 Es\<rparr> (?prev # stack) m1 db = Inr st'" for us Es m1
    using that
  proof (induction us arbitrary: Es m1)
    case Nil
    then show ?case by (intro exI [of _ m1]) simp
  next
    case (Cons u us)
    let ?Es = "Es @ [tree_docs L all u]" and ?rest = "concat (map flatten us) @ FilterEnd # fs"
    have wf_us: "list_all (wf_tree W) us" and u: "u \<in> set ts" "wf_tree W u"
      using Cons.prems(1) wf by (auto simp: list_all_iff)
    have leaf_us: "op2 = FilterAnd \<longrightarrow> list_all is_leaf us" using Cons.prems(2) by (auto split: if_splits)
    from Group.IH [OF u op2 Cons.prems(3), of ?rest Es "?prev # stack"] Cons.prems(4)
    obtain m2 where m2: "mask_ok all m2" "filter_loop eng env s a c (skip_filters op2 (group_docs all op2 ?Es) ?rest)
        \<lparr>fs_op = op2, fs_bm = merged all op2 ?Es\<rparr> (?prev # stack) m2 db = Inr st'"
      by auto
    show ?case
    proof (cases "op2 = FilterAnd \<and> group_docs all op2 ?Es = {}")
      case True
      have "skip_filters op2 (group_docs all op2 ?Es) ?rest = FilterEnd # fs"
        using True leaf_us skip_to_end [OF _ wf_us, of fs]
        by (auto simp: skip_filters_def W_def good_leaf_def wf_leaf_def)
      moreover have "merged all op2 (?Es @ map (tree_docs L all) us) = merged all op2 ?Es"
        using True and_stays_empty [of all ?Es] by (auto simp: merged_def)
      ultimately show ?thesis using m2 by (intro exI [of _ m2]) simp
    next
      case False
      then have "skip_filters op2 (group_docs all op2 ?Es) ?rest = ?rest" by (auto simp: skip_filters_def)
      then show ?thesis using Cons.IH [of ?Es m2] Cons.prems(1) leaf_us m2 by auto
    qed
  qed
  let ?G = "group_docs all op2 (map (tree_docs L all) ts)"
  have start: "filter_loop eng env s a c (concat (map flatten ts) @ FilterEnd # fs)
      \<lparr>fs_op = op2, fs_bm = merged all op2 []\<rparr> (?prev # stack) m db = Inr st'"
    using Group.prems(4) op2 by (auto simp: is_group_def filter_state_from_def merged_def filter_loop.simps)
  obtain m1 where m1: "mask_ok all m1" and "filter_loop eng env s a c (FilterEnd # fs)
      \<lparr>fs_op = op2, fs_bm = merged all op2 (map (tree_docs L all) ts)\<rparr> (?prev # stack) m1 db = Inr st'"
    using parts [OF subset_refl _ Group.prems(3) start] leaves by auto
  then have mg: "filter_merge eng env s a c fs ?prev stack m1 (Some ?G) db = Inr st'"
    using ne by (simp add: merged_def [of all op2] filter_loop.simps)
  have "?G \<subseteq> all" using tree_docs_subset [of "wf_leaf (view db) a c" L all "Group op2 ts"] Group.prems(1)
    by (simp add: W_def good_leaf_def [abs_def] L_def all_def)
  then show ?case
    using merge_step [OF mg [unfolded all_def] Group.prems(2) m1 [unfolded all_def], folded all_def]
    by (simp add: bitmap_ids_def)
qed

end

context sqlite_engine
begin

lemma trees_step:
  fixes db a c env
  defines "all \<equiv> all_docs (view db) a c" and "L \<equiv> leaf_docs (view db) env a c" and "W \<equiv> good_leaf (view db) env a c"
  shows "\<lbrakk>list_all (wf_tree W) ts; mask_ok all m;
    filter_loop eng env s a c (concat (map flatten ts)) \<lparr>fs_op = FilterAnd, fs_bm = merged all FilterAnd Ds\<rparr> [] m db = Inr st'\<rbrakk> \<Longrightarrow>
   fs_bm st' = merged all FilterAnd (Ds @ map (tree_docs L all) ts)"
proof (induction ts arbitrary: Ds m)
  case Nil
  then show ?case by (auto simp: filter_loop.simps)
next
  case (Cons t ts)
  let ?Ds = "Ds @ [tree_docs L all t]" and ?rest = "concat (map flatten ts)"
  have op: "is_group FilterAnd" by (simp add: is_group_def)
  have t: "wf_tree W t" using Cons.prems(1) by simp
  from Cons.prems(3) tree_step [OF t [unfolded W_def] op Cons.prems(2) [unfolded all_def], of s ?rest Ds "[]" st']
  obtain m2 where m2: "mask_ok all m2" and l: "filter_loop eng env s a c (skip_filters FilterAnd (group_docs all FilterAnd ?Ds) ?rest)
      \<lparr>fs_op = FilterAnd, fs_bm = merged all FilterAnd ?Ds\<rparr> [] m2 db = Inr st'"
    by (auto simp: all_def L_def)
  show ?case
  proof (cases "group_docs all FilterAnd ?Ds = {}")
    case True
    have "st' = \<lparr>fs_op = FilterAnd, fs_bm = merged all FilterAnd ?Ds\<rparr>"
      using skip_shape [of ?rest] l True
      by (elim disjE exE) (simp_all del: dropWhile_eq_Nil_conv add: skip_filters_def filter_loop.simps)
    moreover have "merged all FilterAnd (?Ds @ map (tree_docs L all) ts) = merged all FilterAnd ?Ds"
      using True and_stays_empty [of all ?Ds] by (auto simp: merged_def)
    ultimately show ?thesis by simp
  next
    case False
    then have "skip_filters FilterAnd (group_docs all FilterAnd ?Ds) ?rest = ?rest" by (auto simp: skip_filters_def)
    then show ?thesis using Cons.IH [of m2 ?Ds] Cons.prems(1) m2 l by simp
  qed
qed

end

subsection \<open>Properties\<close>



text \<open>C30: cutting an \<open>And\<close> short goes wrong when one of the parts that are skipped is a group: its
  end is taken for the end of the \<open>And\<close>. The sequence for \<open>Or(And(nothing, Or(B), C))\<close>, which
  no document satisfies, selects the documents of \<open>C\<close>.\<close>

theorem filter_short_circuit_wrong:
  "let t = Group FilterOr [Group FilterAnd [Leaf (DocumentSet {}), Group FilterOr [Leaf (DocumentSet B)],
       Leaf (DocumentSet C)]]
   in store_filter eng env s a c (flatten t) db = Inr (result_set_new a c C) \<and>
      tree_docs (leaf_docs R env a c) (all_docs R a c) t = {}"
  by (simp add: Let_def store_filter_def filter_loop.simps filter_merge.simps filter_leaf_def fetch_mask_def
      filter_state_from_def apply_result_def skip_filters_def group_docs_def leaf_docs_def)

end
