(* ===== verification/Query_Sort.thy ===== *)
theory Query_Sort
  imports Query_Filter Store_Values "HOL-Library.Product_Lexorder"
begin

unbundle bit_operations_syntax

section \<open>Sorting and pagination\<close>

text \<open>
  Models \<^verbatim>\<open>src/crates/store/src/query/sort.rs\<close>: the documents of a result set in the order
  of one index, of several criteria, or of their identifiers, cut to the page that was asked for.
  The hash map of the sort keys is an association list; its order is immaterial, since the items
  are sorted by a total order before they are used.
\<close>

datatype comparator = CmpField u8 bool | CmpDocumentSet roaring_bitmap bool

definition comparator_field :: "u8 \<Rightarrow> bool \<Rightarrow> comparator" where
  "comparator_field field asc = CmpField field asc"
definition comparator_set :: "roaring_bitmap \<Rightarrow> bool \<Rightarrow> comparator" where
  "comparator_set ids asc = CmpDocumentSet ids asc"
definition comparator_ascending :: "u8 \<Rightarrow> comparator" where
  "comparator_ascending field = CmpField field True"
definition comparator_descending :: "u8 \<Rightarrow> comparator" where
  "comparator_descending field = CmpField field False"

record sorted_result_set =
  sr_position :: int
  sr_ids :: "u64 list"
  sr_found_anchor :: bool

subsection \<open>Pagination\<close>

record pagination =
  pg_requested_position :: int
  pg_position :: int
  pg_limit :: nat
  pg_anchor :: u32
  pg_anchor_offset :: int
  pg_has_anchor :: bool
  pg_anchor_found :: bool
  pg_ids :: "u64 list"
  pg_prefix_key :: "u32 value_key option"
  pg_prefix_unique :: bool

definition pagination_new :: "nat \<Rightarrow> int \<Rightarrow> u32 option \<Rightarrow> int \<Rightarrow> pagination" where
  "pagination_new limit position anchor anchor_offset =
     (let (has_anchor, anchor) = (case anchor of Some a \<Rightarrow> (True, a) | None \<Rightarrow> (False, 0))
      in \<lparr>pg_requested_position = position, pg_position = position, pg_limit = limit, pg_anchor = anchor,
          pg_anchor_offset = anchor_offset, pg_has_anchor = has_anchor, pg_anchor_found = False,
          pg_ids = [], pg_prefix_key = None, pg_prefix_unique = False\<rparr>)"

definition with_prefix_key :: "pagination \<Rightarrow> u32 value_key \<Rightarrow> pagination" where
  "with_prefix_key pg k = pg\<lparr>pg_prefix_key := Some k\<rparr>"

definition with_prefix_unique :: "pagination \<Rightarrow> bool \<Rightarrow> pagination" where
  "with_prefix_unique pg b = pg\<lparr>pg_prefix_unique := b\<rparr>"

definition full_id :: "u32 \<Rightarrow> u32 \<Rightarrow> u64" where
  "full_id prefix_id document_id = push_bit 32 (ucast prefix_id) OR ucast document_id"

text \<open>The item is added and \<open>add\<close> tells whether more are wanted.\<close>

definition pg_push :: "pagination \<Rightarrow> u64 \<Rightarrow> bool \<times> pagination" where
  "pg_push pg i =
     (let pg' = pg\<lparr>pg_ids := pg_ids pg @ [i]\<rparr> in (length (pg_ids pg') \<noteq> pg_limit pg', pg'))"

definition pg_add :: "pagination \<Rightarrow> u32 \<Rightarrow> u32 \<Rightarrow> bool \<times> pagination" where
  "pg_add pg prefix_id document_id =
     (let i = full_id prefix_id document_id
      in if \<not> pg_has_anchor pg then
           if 0 \<le> pg_position pg then
             if 0 < pg_position pg then (True, pg\<lparr>pg_position := pg_position pg - 1\<rparr>)
             else pg_push pg i
           else (True, pg\<lparr>pg_ids := pg_ids pg @ [i]\<rparr>)
         else if 0 \<le> pg_anchor_offset pg then
           if \<not> pg_anchor_found pg \<and> document_id \<noteq> pg_anchor pg then (True, pg)
           else
             let pg1 = pg\<lparr>pg_anchor_found := True\<rparr>
             in if 0 < pg_anchor_offset pg1 then (True, pg1\<lparr>pg_anchor_offset := pg_anchor_offset pg1 - 1\<rparr>)
                else pg_push pg1 i
         else
           let pg1 = pg\<lparr>pg_anchor_found := (document_id = pg_anchor pg), pg_ids := pg_ids pg @ [i]\<rparr>
           in if pg_anchor_found pg1 then (False, pg1\<lparr>pg_position := pg_anchor_offset pg1\<rparr>)
              else (True, pg1))"

definition pg_is_full :: "pagination \<Rightarrow> bool" where
  "pg_is_full pg = (length (pg_ids pg) = pg_limit pg)"

text \<open>\<open>usize as i32\<close>.\<close>

definition as_i32 :: "nat \<Rightarrow> int" where
  "as_i32 n = (int n + 2 ^ 31) mod 2 ^ 32 - 2 ^ 31"

definition pg_build :: "pagination \<Rightarrow> sorted_result_set" where
  "pg_build pg =
     (let found = (\<not> pg_has_anchor pg \<or> pg_anchor_found pg);
          result = \<lparr>sr_position = 0, sr_ids = pg_ids pg, sr_found_anchor = found\<rparr>
      in if found then
           if \<not> pg_has_anchor pg \<and> 0 \<le> pg_requested_position pg then
             result\<lparr>sr_position := if pg_position pg = 0 then pg_requested_position pg else 0\<rparr>
           else if 0 \<le> pg_position pg then result\<lparr>sr_position := pg_position pg\<rparr>
           else
             let position = nat \<bar>pg_position pg\<bar>;
                 start_offset = (if position < length (pg_ids pg) then length (pg_ids pg) - position else 0);
                 end_offset = (if 0 < pg_limit pg then min (start_offset + pg_limit pg) (length (pg_ids pg))
                               else length (pg_ids pg))
             in result\<lparr>sr_position := as_i32 start_offset,
                       sr_ids := take (end_offset - start_offset) (drop start_offset (pg_ids pg))\<rparr>
         else result)"

subsection \<open>Sorting by one criterion\<close>

text \<open>A loop that adds documents until the page needs no more.\<close>

fun add_documents :: "u32 list \<Rightarrow> pagination \<Rightarrow> bool \<times> pagination" where
  "add_documents [] pg = (True, pg)"
| "add_documents (d # ds) pg =
     (let (go_on, pg') = pg_add pg 0 d in if go_on then add_documents ds pg' else (False, pg'))"

definition field_range :: "result_set \<Rightarrow> u8 \<Rightarrow> bool \<Rightarrow> iterate_params" where
  "field_range rs field asc =
     set_ascending (no_values (iterate_params_new
       (key_of_index_prefix \<lparr>ikp_account_id = rs_account_id rs, ikp_collection = rs_collection rs, ikp_field = field\<rparr>)
       (key_of_index_prefix \<lparr>ikp_account_id = rs_account_id rs, ikp_collection = rs_collection rs,
          ikp_field = field + 1\<rparr>))) asc"

definition page_callback :: "(roaring_bitmap \<times> pagination) callback" where
  "page_callback k v st =
     (let (results, pg) = st
      in rbind (deserialize_be_u32 k (usize_sub (length k) U32_LEN)) (\<lambda>d.
           if d \<in> results then
             let (go_on, pg') = pg_add pg 0 d in Inr (go_on, results - {d}, pg')
           else Inr (True, results, pg)))"

definition sort_by_field ::
    "'db sql_engine \<Rightarrow> store \<Rightarrow> result_set \<Rightarrow> u8 \<Rightarrow> bool \<Rightarrow> pagination \<Rightarrow> 'db \<Rightarrow> pagination trc_result" where
  "sort_by_field eng s rs field asc pg db =
     rbind (store_iterate eng s (field_range rs field asc) page_callback (rs_results rs, pg) db)
       (\<lambda>(results, pg).
          Inr (if results \<noteq> {} \<and> \<not> pg_is_full pg
               then snd (add_documents (sorted_list_of_set results) pg) else pg))"

definition split_sets :: "roaring_bitmap \<Rightarrow> roaring_bitmap \<Rightarrow> bool \<Rightarrow> roaring_bitmap \<times> roaring_bitmap" where
  "split_sets results ids asc =
     (let in_set = results \<inter> ids; not_in_set = bitxor results in_set
      in if asc then (in_set, not_in_set) else (not_in_set, in_set))"

definition sort_by_set :: "result_set \<Rightarrow> roaring_bitmap \<Rightarrow> bool \<Rightarrow> pagination \<Rightarrow> pagination" where
  "sort_by_set rs ids asc pg =
     (let (first, second) = split_sets (rs_results rs) ids asc;
          (go_on, pg') = add_documents (sorted_list_of_set first) pg
      in if go_on then snd (add_documents (sorted_list_of_set second) pg') else pg')"

fun add_prefixes ::
    "'db sql_engine \<Rightarrow> store \<Rightarrow> u32 value_key \<Rightarrow> u64 list \<Rightarrow> 'db \<Rightarrow> u64 list trc_result" where
  "add_prefixes eng s prefix_key [] db = Inr []"
| "add_prefixes eng s prefix_key (i # is) db =
     rbind (store_get_value eng s deserialize_u32 (key_of_value (with_document_id prefix_key (ucast i))) db) (\<lambda>p.
     rbind (add_prefixes eng s prefix_key is db) (\<lambda>is'.
       Inr ((case p of Some prefix_id \<Rightarrow> i OR push_bit 32 (ucast prefix_id) | None \<Rightarrow> i) # is')))"

definition sort_by_one ::
    "'db sql_engine \<Rightarrow> store \<Rightarrow> result_set \<Rightarrow> comparator \<Rightarrow> pagination \<Rightarrow> 'db \<Rightarrow> sorted_result_set trc_result" where
  "sort_by_one eng s rs cmp pg db =
     rbind (case cmp of
              CmpField field asc \<Rightarrow> sort_by_field eng s rs field asc pg db
            | CmpDocumentSet ids asc \<Rightarrow> Inr (sort_by_set rs ids asc pg)) (\<lambda>pg'.
     let sr = pg_build pg'
     in case pg_prefix_key pg' of
          None \<Rightarrow> Inr sr
        | Some prefix_key \<Rightarrow>
            rbind (add_prefixes eng s prefix_key (sr_ids sr) db) (\<lambda>is. Inr (sr\<lparr>sr_ids := is\<rparr>)))"

subsection \<open>Sorting by several criteria\<close>

type_synonym sort_keys = "(u32 \<times> u32 list) list"

text \<open>\<open>sorted_ids.entry(document_id).or_insert([0; 4])[pos] = idx\<close>.\<close>

fun set_sort_key :: "u32 \<Rightarrow> nat \<Rightarrow> u32 \<Rightarrow> sort_keys \<Rightarrow> sort_keys" where
  "set_sort_key d pos idx [] = [(d, (replicate 4 0)[pos := idx])]"
| "set_sort_key d pos idx ((d', ks) # m) =
     (if d' = d then (d', ks[pos := idx]) # m else (d', ks) # set_sort_key d pos idx m)"

record group_state =
  gs_results :: roaring_bitmap
  gs_prev_data :: bytes
  gs_has_grouped_ids :: bool
  gs_idx :: u32
  gs_sorted_ids :: sort_keys

definition group_callback :: "nat \<Rightarrow> group_state callback" where
  "group_callback pos k v g =
     (let id_pos = usize_sub (length k) U32_LEN
      in rbind (deserialize_be_u32 k id_pos) (\<lambda>d.
         if d \<in> gs_results g then
           rbind (ok_or DataCorruption (get_range k index_key_prefix_len id_pos)) (\<lambda>data.
             let g1 = g\<lparr>gs_results := gs_results g - {d}\<rparr>;
                 g2 = (if data \<noteq> gs_prev_data g1 then g1\<lparr>gs_idx := gs_idx g1 + 1, gs_prev_data := data\<rparr>
                       else g1\<lparr>gs_has_grouped_ids := True\<rparr>)
             in Inr (gs_results g2 \<noteq> {},
                     g2\<lparr>gs_sorted_ids := set_sort_key d pos (gs_idx g2) (gs_sorted_ids g2)\<rparr>))
         else Inr (True, g)))"

definition set_sort_keys :: "u32 list \<Rightarrow> nat \<Rightarrow> u32 \<Rightarrow> sort_keys \<Rightarrow> sort_keys" where
  "set_sort_keys ds pos idx m = fold (\<lambda>d. set_sort_key d pos idx) ds m"

text \<open>One round of the loop over the criteria; \<open>False\<close> is its \<open>break\<close>.\<close>

definition sort_round ::
    "'db sql_engine \<Rightarrow> store \<Rightarrow> result_set \<Rightarrow> nat \<Rightarrow> comparator \<Rightarrow> sort_keys \<Rightarrow> 'db \<Rightarrow> (bool \<times> sort_keys) trc_result" where
  "sort_round eng s rs pos cmp m db =
     (case cmp of
        CmpField field asc \<Rightarrow>
          rbind (store_iterate eng s (field_range rs field asc) (group_callback pos)
              \<lparr>gs_results = rs_results rs, gs_prev_data = [], gs_has_grouped_ids = False, gs_idx = 0,
               gs_sorted_ids = m\<rparr> db) (\<lambda>g.
            if gs_results g \<noteq> {} then
              Inr (True, set_sort_keys (sorted_list_of_set (gs_results g)) pos (gs_idx g + 1) (gs_sorted_ids g))
            else Inr (gs_has_grouped_ids g, gs_sorted_ids g))
      | CmpDocumentSet ids asc \<Rightarrow>
          (let (first, second) = split_sets (rs_results rs) ids asc
           in Inr (True, set_sort_keys (sorted_list_of_set second) pos 1
                    (set_sort_keys (sorted_list_of_set first) pos 0 m))))"

fun sort_rounds ::
    "'db sql_engine \<Rightarrow> store \<Rightarrow> result_set \<Rightarrow> nat \<Rightarrow> comparator list \<Rightarrow> sort_keys \<Rightarrow> 'db \<Rightarrow> sort_keys trc_result" where
  "sort_rounds eng s rs pos [] m db = Inr m"
| "sort_rounds eng s rs pos (cmp # cmps) m db =
     rbind (sort_round eng s rs pos cmp m db) (\<lambda>(go_on, m').
       if go_on then sort_rounds eng s rs (pos + 1) cmps m' db else Inr m')"

text \<open>The loop that reads the prefix of each document and adds it to the page.\<close>

fun add_with_prefix ::
    "'db sql_engine \<Rightarrow> store \<Rightarrow> u32 list \<Rightarrow> u32 set \<Rightarrow> pagination \<Rightarrow> 'db \<Rightarrow> pagination trc_result" where
  "add_with_prefix eng s [] seen pg db = Inr pg"
| "add_with_prefix eng s (d # ds) seen pg db =
     (case pg_prefix_key pg of
        None \<Rightarrow>
          (let (go_on, pg') = pg_add pg 0 d
           in if go_on then add_with_prefix eng s ds seen pg' db else Inr pg')
      | Some prefix_key \<Rightarrow>
          (case store_get_value eng s deserialize_u32 (key_of_value (with_document_id prefix_key d)) db of
             Inl e \<Rightarrow> Inl e
           | Inr None \<Rightarrow> add_with_prefix eng s ds seen pg db
           | Inr (Some prefix_id) \<Rightarrow>
               if pg_prefix_unique pg \<and> prefix_id \<in> seen then add_with_prefix eng s ds seen pg db
               else
                 (let seen' = (if pg_prefix_unique pg then insert prefix_id seen else seen);
                      (go_on, pg') = pg_add pg prefix_id d
                  in if go_on then add_with_prefix eng s ds seen' pg' db else Inr pg')))"

definition sort_by_many ::
    "'db sql_engine \<Rightarrow> store \<Rightarrow> result_set \<Rightarrow> comparator list \<Rightarrow> pagination \<Rightarrow> 'db \<Rightarrow> sorted_result_set trc_result" where
  "sort_by_many eng s rs cmps pg db =
     rbind (sort_rounds eng s rs 0 (take 4 cmps) [] db) (\<lambda>m.
     rbind (add_with_prefix eng s (map fst (sort_key (\<lambda>(d, ks). (ks, d)) m)) {} pg db) (\<lambda>pg'.
       Inr (pg_build pg')))"

definition store_sort ::
    "'db sql_engine \<Rightarrow> store \<Rightarrow> result_set \<Rightarrow> comparator list \<Rightarrow> pagination \<Rightarrow> 'db \<Rightarrow> sorted_result_set trc_result" where
  "store_sort eng s rs cmps paginate db =
     (if rs_results rs = {} then
        Inr \<lparr>sr_position = pg_position paginate, sr_ids = [], sr_found_anchor = True\<rparr>
      else
        let n = card (rs_results rs);
            pg = paginate\<lparr>pg_limit := if pg_limit paginate = 0 then n else min n (pg_limit paginate)\<rparr>
        in if length cmps = 1 \<and> \<not> pg_prefix_unique pg then sort_by_one eng s rs (last cmps) pg db
           else if 1 < length cmps then sort_by_many eng s rs cmps pg db
           else rbind (add_with_prefix eng s (sorted_list_of_set (rs_results rs)) {} pg db) (\<lambda>pg'.
                  Inr (pg_build pg')))"

subsection \<open>Pages\<close>

lemma add_documents_append:
  "add_documents (xs @ ys) pg =
     (let (go_on, pg') = add_documents xs pg in if go_on then add_documents ys pg' else (False, pg'))"
  by (induction xs arbitrary: pg) (auto simp: Let_def split: prod.splits)

text \<open>A page from a position on.\<close>

lemma add_documents_page:
  "\<lbrakk>\<not> pg_has_anchor pg; 0 \<le> pg_position pg; length (pg_ids pg) < pg_limit pg\<rbrakk> \<Longrightarrow>
   add_documents ds pg =
     (let is = pg_ids pg @ take (pg_limit pg - length (pg_ids pg)) (map (full_id 0) (drop (nat (pg_position pg)) ds))
      in (length is < pg_limit pg,
          pg\<lparr>pg_ids := is, pg_position := max 0 (pg_position pg - int (length ds))\<rparr>))"
proof (induction ds arbitrary: pg)
  case Nil
  then show ?case by (simp add: Let_def)
next
  case (Cons d ds)
  show ?case
  proof (cases "0 < pg_position pg")
    case True
    let ?pg = "pg\<lparr>pg_position := pg_position pg - 1\<rparr>"
    have "add_documents (d # ds) pg = add_documents ds ?pg"
      using Cons.prems True by (simp add: pg_add_def)
    moreover have "nat (pg_position pg) = Suc (nat (pg_position pg - 1))" using True by simp
    ultimately show ?thesis using Cons.IH [of ?pg] Cons.prems True by (simp add: Let_def)
  next
    case False
    let ?pg = "pg\<lparr>pg_ids := pg_ids pg @ [full_id 0 d]\<rparr>"
    have pos: "pg_position pg = 0" using False Cons.prems by simp
    have add: "pg_add pg 0 d = (Suc (length (pg_ids pg)) \<noteq> pg_limit pg, ?pg)"
      using Cons.prems pos by (simp add: pg_add_def pg_push_def Let_def)
    have same: "pg\<lparr>pg_ids := x, pg_position := 0\<rparr> = pg\<lparr>pg_ids := x\<rparr>" for x using pos by (cases pg) simp
    show ?thesis
    proof (cases "Suc (length (pg_ids pg)) = pg_limit pg")
      case True
      then have "pg_limit pg - length (pg_ids pg) = Suc 0" by simp
      then show ?thesis using True by (simp add: add pos same Let_def)
    next
      case False
      then have n: "pg_limit pg - length (pg_ids pg) = Suc (pg_limit pg - Suc (length (pg_ids pg)))"
        using Cons.prems(3) by simp
      have "length (pg_ids ?pg) < pg_limit ?pg" using False Cons.prems(3) by simp
      then show ?thesis using Cons.IH [of ?pg] Cons.prems pos False by (simp add: add n Let_def same)
    qed
  qed
qed

lemma add_documents_full:
  "\<lbrakk>\<not> pg_has_anchor pg; 0 \<le> pg_position pg; length (pg_ids pg) < pg_limit pg\<rbrakk> \<Longrightarrow>
   pg_is_full (snd (add_documents ds pg)) \<longleftrightarrow> \<not> fst (add_documents ds pg)"
  by (simp add: add_documents_page Let_def pg_is_full_def) linarith

text \<open>A position counted from the end, and the search for an anchor.\<close>

lemma add_documents_from_end:
  "\<lbrakk>\<not> pg_has_anchor pg; pg_position pg < 0\<rbrakk> \<Longrightarrow>
   add_documents ds pg = (True, pg\<lparr>pg_ids := pg_ids pg @ map (full_id 0) ds\<rparr>)"
  by (induction ds arbitrary: pg) (simp_all add: pg_add_def)

lemma add_documents_no_anchor:
  "\<lbrakk>pg_has_anchor pg; \<not> pg_anchor_found pg; pg_anchor pg \<notin> set ds; 0 \<le> pg_anchor_offset pg\<rbrakk> \<Longrightarrow>
   add_documents ds pg = (True, pg)"
  by (induction ds) (auto simp: pg_add_def)

lemma add_documents_no_anchor_back:
  "\<lbrakk>pg_has_anchor pg; \<not> pg_anchor_found pg; pg_anchor pg \<notin> set ds; pg_anchor_offset pg < 0\<rbrakk> \<Longrightarrow>
   add_documents ds pg = (True, pg\<lparr>pg_ids := pg_ids pg @ map (full_id 0) ds\<rparr>)"
proof (induction ds arbitrary: pg)
  case (Cons d ds)
  let ?pg = "pg\<lparr>pg_anchor_found := False, pg_ids := pg_ids pg @ [full_id 0 d]\<rparr>"
  have "pg\<lparr>pg_anchor_found := False\<rparr> = pg" using Cons.prems(2) by (cases pg) simp
  then show ?case using Cons.IH [of ?pg] Cons.prems by (auto simp: pg_add_def Let_def)
qed simp

lemma add_documents_after_anchor:
  "\<lbrakk>pg_has_anchor pg; pg_anchor_found pg; 0 \<le> pg_anchor_offset pg; length (pg_ids pg) < pg_limit pg\<rbrakk> \<Longrightarrow>
   \<exists>off. snd (add_documents ds pg) = pg\<lparr>pg_anchor_offset := off, pg_ids := pg_ids pg @
     take (pg_limit pg - length (pg_ids pg)) (map (full_id 0) (drop (nat (pg_anchor_offset pg)) ds))\<rparr>"
proof (induction ds arbitrary: pg)
  case Nil
  then show ?case by (intro exI [of _ "pg_anchor_offset pg"]) simp
next
  case (Cons d ds)
  have found: "pg\<lparr>pg_anchor_found := True\<rparr> = pg" using Cons.prems(2) by (cases pg) simp
  show ?case
  proof (cases "0 < pg_anchor_offset pg")
    case True
    let ?pg = "pg\<lparr>pg_anchor_offset := pg_anchor_offset pg - 1\<rparr>"
    have "add_documents (d # ds) pg = add_documents ds ?pg"
      using Cons.prems True by (simp add: pg_add_def found)
    moreover have "nat (pg_anchor_offset pg) = Suc (nat (pg_anchor_offset pg - 1))" using True by simp
    ultimately show ?thesis using Cons.IH [of ?pg] Cons.prems True by simp
  next
    case False
    let ?pg = "pg\<lparr>pg_ids := pg_ids pg @ [full_id 0 d]\<rparr>"
    have off: "pg_anchor_offset pg = 0" using False Cons.prems by simp
    have add: "pg_add pg 0 d = (Suc (length (pg_ids pg)) \<noteq> pg_limit pg, ?pg)"
      using Cons.prems off by (simp add: pg_add_def pg_push_def Let_def found)
    show ?thesis
    proof (cases "Suc (length (pg_ids pg)) = pg_limit pg")
      case True
      then have "pg_limit pg - length (pg_ids pg) = Suc 0" by simp
      moreover have "pg\<lparr>pg_anchor_offset := 0\<rparr> = pg" using off by (cases pg) simp
      ultimately show ?thesis using True by (intro exI [of _ 0]) (simp add: add off)
    next
      case False
      then have n: "pg_limit pg - length (pg_ids pg) = Suc (pg_limit pg - Suc (length (pg_ids pg)))"
        using Cons.prems(3,4) by simp
      have "length (pg_ids ?pg) < pg_limit ?pg" using False Cons.prems(4) by simp
      then show ?thesis using Cons.IH [of ?pg] Cons.prems off False by (simp add: add n)
    qed
  qed
qed

lemma pagination_new_simps [simp]:
  "pg_requested_position (pagination_new l p x off) = p" "pg_position (pagination_new l p x off) = p"
  "pg_limit (pagination_new l p x off) = l" "pg_anchor_offset (pagination_new l p x off) = off"
  "pg_has_anchor (pagination_new l p x off) = (x \<noteq> None)" "pg_anchor_found (pagination_new l p x off) = False"
  "pg_ids (pagination_new l p x off) = []" "pg_anchor (pagination_new l p (Some a) off) = a"
  by (auto simp: pagination_new_def split: option.splits)

lemma take_to_end: "take (min (n + l) (length xs) - n) (drop n xs) = take l (drop n xs)"
  by (cases "n + l \<le> length xs") (simp_all add: min_def)

lemma pg_build_back:
  assumes "\<not> pg_has_anchor pg \<and> pg_requested_position pg < 0 \<or> pg_has_anchor pg \<and> pg_anchor_found pg"
    and "pg_position pg < 0" and "0 < pg_limit pg"
  shows "pg_build pg = (let n = length (pg_ids pg) - nat \<bar>pg_position pg\<bar> in
    \<lparr>sr_position = as_i32 n, sr_ids = take (pg_limit pg) (drop n (pg_ids pg)), sr_found_anchor = True\<rparr>)"
proof -
  have "(if nat \<bar>pg_position pg\<bar> < length (pg_ids pg) then length (pg_ids pg) - nat \<bar>pg_position pg\<bar> else 0) =
      length (pg_ids pg) - nat \<bar>pg_position pg\<bar>" by simp
  then show ?thesis using assms by (auto simp: pg_build_def Let_def take_to_end)
qed

lemma pg_build_found: "sr_found_anchor (pg_build pg) = (\<not> pg_has_anchor pg \<or> pg_anchor_found pg)"
  by (simp add: pg_build_def Let_def)

lemma pg_build_forward:
  "\<lbrakk>\<not> pg_has_anchor pg; 0 \<le> pg_requested_position pg\<rbrakk> \<Longrightarrow>
   pg_build pg = \<lparr>sr_position = if pg_position pg = 0 then pg_requested_position pg else 0,
     sr_ids = pg_ids pg, sr_found_anchor = True\<rparr>"
  by (simp add: pg_build_def)

lemma pg_build_anchor:
  "\<lbrakk>pg_has_anchor pg; 0 \<le> pg_position pg\<rbrakk> \<Longrightarrow> sr_ids (pg_build pg) = pg_ids pg"
  by (simp add: pg_build_def Let_def)

definition page_of :: "nat \<Rightarrow> int \<Rightarrow> u32 option \<Rightarrow> int \<Rightarrow> u32 list \<Rightarrow> sorted_result_set" where
  "page_of limit pos anchor off ds = pg_build (snd (add_documents ds (pagination_new limit pos anchor off)))"

lemma page_cases:
  assumes "0 < limit" and "a \<notin> set xs"
  defines "ids \<equiv> map (full_id 0)" and "page \<equiv> page_of limit"
  shows "0 \<le> pos \<Longrightarrow> page pos None off ds = \<lparr>sr_position = if pos \<le> int (length ds) then pos else 0,
      sr_ids = take limit (drop (nat pos) (ids ds)), sr_found_anchor = True\<rparr>"
    and "pos < 0 \<Longrightarrow> page pos None off ds = \<lparr>sr_position = as_i32 (length ds - nat (- pos)),
      sr_ids = take limit (drop (length ds - nat (- pos)) (ids ds)), sr_found_anchor = True\<rparr>"
    and "\<not> sr_found_anchor (page pos (Some a) off xs)"
    and "0 \<le> off \<Longrightarrow> sr_found_anchor (page 0 (Some a) off (xs @ a # ys)) \<and>
      sr_ids (page 0 (Some a) off (xs @ a # ys)) = take limit (drop (nat off) (ids (a # ys)))"
    and "off < 0 \<Longrightarrow> sr_found_anchor (page pos (Some a) off (xs @ a # ys)) \<and>
      sr_ids (page pos (Some a) off (xs @ a # ys)) = take limit (drop (length xs + 1 - nat (- off)) (ids (xs @ [a])))"
proof -
  show "page pos None off ds = \<lparr>sr_position = if pos \<le> int (length ds) then pos else 0,
      sr_ids = take limit (drop (nat pos) (ids ds)), sr_found_anchor = True\<rparr>" if "0 \<le> pos"
    using that assms(1) by (simp add: page_def page_of_def ids_def add_documents_page Let_def pg_build_forward drop_map)
  show "page pos None off ds = \<lparr>sr_position = as_i32 (length ds - nat (- pos)),
      sr_ids = take limit (drop (length ds - nat (- pos)) (ids ds)), sr_found_anchor = True\<rparr>" if "pos < 0"
    using that assms(1) by (simp add: page_def page_of_def ids_def add_documents_from_end pg_build_back Let_def)
  show "\<not> sr_found_anchor (page pos (Some a) off xs)"
  proof (cases "0 \<le> off")
    case True
    then show ?thesis using assms(2) by (simp add: page_def page_of_def pg_build_found add_documents_no_anchor)
  next
    case False
    then show ?thesis using assms(2) by (simp add: page_def page_of_def pg_build_found add_documents_no_anchor_back)
  qed
  show "sr_found_anchor (page 0 (Some a) off (xs @ a # ys)) \<and>
      sr_ids (page 0 (Some a) off (xs @ a # ys)) = take limit (drop (nat off) (ids (a # ys)))" if "0 \<le> off"
  proof -
    let ?pg = "pagination_new limit 0 (Some a) off"
    let ?pg1 = "?pg\<lparr>pg_anchor_found := True\<rparr>"
    have "add_documents (xs @ a # ys) ?pg = add_documents (a # ys) ?pg"
      using add_documents_no_anchor [of ?pg xs] assms(2) that by (simp add: add_documents_append)
    also have "\<dots> = add_documents (a # ys) ?pg1" using that by (simp add: pg_add_def)
    finally show ?thesis using add_documents_after_anchor [of ?pg1 "a # ys"] that assms(1)
      by (auto simp: page_def page_of_def ids_def pg_build_found pg_build_anchor drop_map simp del: add_documents.simps list.map)
  qed
  show "sr_found_anchor (page pos (Some a) off (xs @ a # ys)) \<and>
      sr_ids (page pos (Some a) off (xs @ a # ys)) = take limit (drop (length xs + 1 - nat (- off)) (ids (xs @ [a])))"
    if "off < 0"
  proof -
    let ?pg = "pagination_new limit pos (Some a) off"
    have "snd (add_documents (xs @ a # ys) ?pg) =
        ?pg\<lparr>pg_ids := ids (xs @ [a]), pg_anchor_found := True, pg_position := off\<rparr>"
      using add_documents_no_anchor_back [of ?pg xs] assms(2) that
      by (simp add: add_documents_append pg_add_def ids_def)
    then show ?thesis using that assms(1) by (simp add: page_def page_of_def pg_build_back ids_def Let_def)
  qed
qed

text \<open>C29: which part of a list of documents a page is: counted from a position, from the end, from
  an anchor on, or the part that ends at an anchor; an anchor that is not in the list is
  reported.\<close>

theorem pagination_window:
  assumes "0 < limit" and "a \<notin> set xs"
  shows "sr_ids (page_of limit pos None off ds) =
      take limit (drop (if 0 \<le> pos then nat pos else length ds - nat (- pos)) (map (full_id 0) ds)) \<and>
    sr_position (page_of limit pos None off ds) =
      (if 0 \<le> pos then if pos \<le> int (length ds) then pos else 0 else as_i32 (length ds - nat (- pos))) \<and>
    \<not> sr_found_anchor (page_of limit pos (Some a) off xs) \<and>
    sr_found_anchor (page_of limit 0 (Some a) off (xs @ a # ys)) \<and>
    sr_ids (page_of limit 0 (Some a) off (xs @ a # ys)) =
      take limit (if 0 \<le> off then drop (nat off) (map (full_id 0) (a # ys))
        else drop (length xs + 1 - nat (- off)) (map (full_id 0) (xs @ [a])))"
proof (intro conjI)
  note c = page_cases [OF assms]
  show "sr_ids (page_of limit pos None off ds) =
      take limit (drop (if 0 \<le> pos then nat pos else length ds - nat (- pos)) (map (full_id 0) ds))"
    and "sr_position (page_of limit pos None off ds) =
      (if 0 \<le> pos then if pos \<le> int (length ds) then pos else 0 else as_i32 (length ds - nat (- pos)))"
    using c(1,2) [of pos off ds] by (cases "0 \<le> pos"; simp)+
  show "\<not> sr_found_anchor (page_of limit pos (Some a) off xs)" by (rule c(3))
  show "sr_found_anchor (page_of limit 0 (Some a) off (xs @ a # ys))"
    and "sr_ids (page_of limit 0 (Some a) off (xs @ a # ys)) =
      take limit (if 0 \<le> off then drop (nat off) (map (full_id 0) (a # ys))
        else drop (length xs + 1 - nat (- off)) (map (full_id 0) (xs @ [a])))"
    using c(4) [of off ys] c(5) [of off 0 ys] by (cases "0 \<le> off"; simp)+
qed

theorem pagination_window_witness:
  "sr_ids (page_of 2 (- 2) None 0 [7, 8, 9]) = [full_id 0 8, full_id 0 9] \<and>
   sr_ids (page_of 2 0 (Some 8) (- 2) [7, 8, 9]) = [full_id 0 7, full_id 0 8]"
  using pagination_window [of 2 8 "[7]" "- 2" 0 "[7, 8, 9]" "[9]"]
    pagination_window [of 2 8 "[7]" 0 "- 2" "[7, 8, 9]" "[9]"] by simp

subsection \<open>The order of an index\<close>

lemma filter_sorted_list_of_set:
  "finite A \<Longrightarrow> filter P (sorted_list_of_set A) = sorted_list_of_set {x \<in> A. P x}"
  by (rule sorted_distinct_set_unique) (auto intro: sorted_wrt_filter)

text \<open>The field holds one row for each document of a set, with its value.\<close>

definition index_of :: "tables \<Rightarrow> u32 \<Rightarrow> u8 \<Rightarrow> u8 \<Rightarrow> nat \<Rightarrow> u32 set \<Rightarrow> (u32 \<Rightarrow> bytes) \<Rightarrow> bool" where
  "index_of R a c f n I val \<longleftrightarrow>
     fixed_width R a c f n \<and> R SUBSPACE_INDEXES (be_u32 a @ [c, f + 1]) = None \<and>
     (\<forall>d. d \<in> I \<longrightarrow> length (val d) = n) \<and>
     (\<forall>d w. R SUBSPACE_INDEXES (index_row a c f w d) \<noteq> None \<longleftrightarrow> d \<in> I \<and> w = val d)"

lemma between_fields:
  fixes p k :: bytes
  assumes "p @ [f] \<le> k" and "k \<le> p @ [f + 1]" and "f \<noteq> u8_MAX"
  shows "prefix (p @ [f]) k \<or> k = p @ [f + 1]"
proof -
  have "p \<le> k" using assms(1) prefix_le [of p "[f]"] by (rule order_trans [rotated])
  then have "prefix p k" using not_prefix_greater [of p k "[f + 1]"] assms(2) by (meson leD)
  then obtain t where k: "k = p @ t" by (auto simp: prefix_def)
  have "[f] \<le> t" "t \<le> [f + 1]" using assms(1,2) by (simp_all add: k le_append_same_length)
  then obtain b u where t: "t = b # u" by (cases t) auto
  have "f \<le> b" "b \<le> f + 1" "b = f + 1 \<longrightarrow> u = []" using \<open>[f] \<le> t\<close> \<open>t \<le> [f + 1]\<close> by (auto simp: t)
  moreover have "unat (f + 1) = unat f + 1" using u8_less_Suc [OF assms(3)]
    by (simp add: word_less_nat_alt unat_word_ariths split: if_splits)
  ultimately have "b = f \<or> b = f + 1 \<and> u = []"
    by (metis word_le_nat_alt word_unat_eq_iff le_Suc_eq Suc_eq_plus1 le_antisym)
  then show ?thesis by (auto simp: k t prefix_def)
qed

text \<open>The rows of the field, in the order of value and document.\<close>

lemma field_rows:
  assumes "index_of R a c f n I val" and "f \<noteq> u8_MAX"
  shows "sorted_list_of_set (keys_between R SUBSPACE_INDEXES (be_u32 a @ [c, f]) (be_u32 a @ [c, f + 1])) =
    map (\<lambda>d. index_row a c f (val d) d) (sort_key (\<lambda>d. (val d, d)) (sorted_list_of_set I))"
proof (rule sorted_distinct_set_unique)
  let ?K = "keys_between R SUBSPACE_INDEXES (be_u32 a @ [c, f]) (be_u32 a @ [c, f + 1])"
  let ?ds = "sort_key (\<lambda>d. (val d, d)) (sorted_list_of_set I)"
  note I = assms(1) [unfolded index_of_def]
  have fin: "finite I" by simp
  have set_ds: "set ?ds = I" by simp
  have row: "index_row a c f (val d) d \<le> index_row a c f (val e) e" if "(val d, d) \<le> (val e, e)" "d \<in> I" "e \<in> I" for d e
    using that I index_row_le [of "val d" "val e"] by auto
  have "sorted_wrt (\<lambda>d e. (val d, d) \<le> (val e, e)) ?ds"
    using sorted_sort_key [of "\<lambda>d. (val d, d)" "sorted_list_of_set I"] by (simp add: sorted_map)
  then show "sorted (map (\<lambda>d. index_row a c f (val d) d) ?ds)"
    unfolding sorted_map using row set_ds by (elim sorted_wrt_mono_rel [rotated 1]) blast
  show "distinct (map (\<lambda>d. index_row a c f (val d) d) ?ds)"
    by (auto simp: distinct_map inj_on_def index_row_def)
  have "?K = (\<lambda>d. index_row a c f (val d) d) ` I"
  proof (intro set_eqI iffI)
    fix k assume "k \<in> ?K"
    then have k: "R SUBSPACE_INDEXES k \<noteq> None" "be_u32 a @ [c, f] \<le> k" "k \<le> be_u32 a @ [c, f + 1]"
      by (auto simp: keys_between_def)
    then have "prefix (be_u32 a @ [c, f]) k"
      using between_fields [of "be_u32 a @ [c]" f k] assms(2) I by auto
    then obtain w d where "k = index_row a c f w d"
      using index_row_split k(1) I unfolding fixed_width_def by metis
    then show "k \<in> (\<lambda>d. index_row a c f (val d) d) ` I" using I k(1) by auto
  next
    fix k assume "k \<in> (\<lambda>d. index_row a c f (val d) d) ` I"
    then obtain d where d: "d \<in> I" "k = index_row a c f (val d) d" by auto
    then have "R SUBSPACE_INDEXES k \<noteq> None" using I by auto
    moreover have "be_u32 a @ [c, f] \<le> k" using prefix_le [of "be_u32 a @ [c, f]"] by (simp add: d index_row_def)
    moreover have "k \<le> be_u32 a @ [c, f + 1]" using u8_less_Suc [OF assms(2)] by (simp add: d index_row_def)
    ultimately show "k \<in> ?K" by (simp add: keys_between_def)
  qed
  then show "set (sorted_list_of_set ?K) = set (map (\<lambda>d. index_row a c f (val d) d) ?ds)" by simp
qed simp_all

lemma index_row_eq: "index_row a c f w d = index_row a c f v e \<longleftrightarrow> w = v \<and> d = e"
  by (simp add: index_row_def)

lemma length_index_row [simp]: "length (index_row a c f w d) = length w + 10"
  by (simp add: index_row_def)

lemma page_callback_row:
  "page_callback (index_row a c f w d) v (X, pg) =
     (if d \<in> X then let (go_on, pg') = pg_add pg 0 d in Inr (go_on, X - {d}, pg') else Inr (True, X, pg))"
proof -
  have "deserialize_be_u32 (index_row a c f w d) (6 + length w) = Inr d"
    using deserialize_be_end(1) [of "6 + length w" "be_u32 a @ [c, f] @ w" d] by (simp add: index_row_def)
  moreover have "usize_sub (length (index_row a c f w d)) U32_LEN = 6 + length w"
    by (simp add: index_row_def U32_LEN_def)
  ultimately show ?thesis by (simp add: page_callback_def)
qed

lemma visit_rows:
  assumes "distinct ds"
  shows "\<exists>X'. run_callback page_callback (map (\<lambda>d. (index_row a c f (val d) d, [])) ds) (X, pg) =
      Inr (X', snd (add_documents (filter (\<lambda>d. d \<in> X) ds) pg)) \<and>
    (fst (add_documents (filter (\<lambda>d. d \<in> X) ds) pg) \<longrightarrow> X' = X - set ds)"
  using assms
proof (induction ds arbitrary: X pg)
  case (Cons d ds)
  show ?case
  proof (cases "d \<in> X")
    case True
    obtain go pg' where add: "pg_add pg 0 d = (go, pg')" by fastforce
    have "filter (\<lambda>x. x \<in> X - {d}) ds = filter (\<lambda>x. x \<in> X) ds"
      using Cons.prems by (intro filter_cong) auto
    moreover have "X - {d} - set ds = X - set (d # ds)" by auto
    ultimately show ?thesis using Cons.IH [of "X - {d}" pg'] Cons.prems True
      by (cases go) (simp_all add: page_callback_row add)
  next
    case False
    moreover from False have "X - set (d # ds) = X - set ds" by auto
    ultimately show ?thesis using Cons.IH [of X pg] Cons.prems by (simp add: page_callback_row)
  qed
qed simp

text \<open>The documents of a result set in the order of a field: those that the index has, by value and
  identifier in the direction asked for, then the others by identifier.\<close>

definition field_order :: "u32 set \<Rightarrow> u32 set \<Rightarrow> (u32 \<Rightarrow> bytes) \<Rightarrow> bool \<Rightarrow> u32 list" where
  "field_order X I val asc =
     (let ds = sort_key (\<lambda>d. (val d, d)) (sorted_list_of_set (X \<inter> I))
      in (if asc then ds else rev ds) @ sorted_list_of_set (X - I))"

context sqlite_engine
begin

lemma sort_by_field_adds:
  assumes "sort_by_field eng s rs f asc pg db = Inr pg'"
    and "index_of (view db) (rs_account_id rs) (rs_collection rs) f n I val" and "f \<noteq> u8_MAX"
    and "\<not> pg_has_anchor pg" and "0 \<le> pg_position pg" and "length (pg_ids pg) < pg_limit pg"
  shows "pg' = snd (add_documents (field_order (rs_results rs) I val asc) pg)"
proof -
  let ?a = "rs_account_id rs" and ?c = "rs_collection rs" and ?X = "rs_results rs"
  let ?row = "\<lambda>d. (index_row ?a ?c f (val d) d, [])"
  let ?ds = "sort_key (\<lambda>d. (val d, d)) (sorted_list_of_set I)"
  let ?dir = "\<lambda>xs. if asc then xs else rev xs"
  have ents: "entries (view db) (field_range rs f asc) = map ?row (?dir ?ds)"
    by (simp add: entries_def entry_def [abs_def] range_keys_def field_range_def set_ascending_def no_values_def
        iterate_params_new_def key_of_index_prefix_def serialize_index_key_prefix_def field_rows [OF assms(2,3)] rev_map)
  from assms(1) obtain X' pg1 where
    it: "store_iterate eng s (field_range rs f asc) page_callback (?X, pg) db = Inr (X', pg1)"
    and pg': "pg' = (if X' \<noteq> {} \<and> \<not> pg_is_full pg1 then snd (add_documents (sorted_list_of_set X') pg1) else pg1)"
    by (auto simp: sort_by_field_def rbind_Inr_iff)
  let ?known = "filter (\<lambda>d. d \<in> ?X) (?dir ?ds)"
  have known: "?known = ?dir (sort_key (\<lambda>d. (val d, d)) (sorted_list_of_set (?X \<inter> I)))"
    by (simp add: rev_filter [symmetric] filter_sort filter_sorted_list_of_set Int_def conj_commute)
  have run: "run_callback page_callback (map ?row (?dir ?ds)) (?X, pg) = Inr (X', pg1)"
    using store_iterate_run [OF it] by (simp add: ents)
  have "distinct (?dir ?ds)" by simp
  from visit_rows [OF this, of ?a ?c f val ?X pg]
  have pg1: "pg1 = snd (add_documents ?known pg)" and X': "fst (add_documents ?known pg) \<Longrightarrow> X' = ?X - I"
    using run by auto
  have full: "\<not> pg_is_full pg1 \<longleftrightarrow> fst (add_documents ?known pg)"
    by (simp only: pg1 add_documents_full [OF assms(4-6)] not_not)
  have all: "field_order ?X I val asc = ?known @ sorted_list_of_set (?X - I)"
    by (simp add: field_order_def known Let_def)
  obtain go pg2 where add: "add_documents ?known pg = (go, pg2)" by fastforce
  show ?thesis
  proof (cases go)
    case True
    then have "\<not> pg_is_full pg2" "pg1 = pg2" and X': "X' = ?X - I" using X' full pg1 by (simp_all add: add)
    moreover from all have "field_order ?X I val asc = ?known @ sorted_list_of_set X'" by (simp only: X')
    ultimately show ?thesis using True by (cases "X' = {}") (simp_all add: pg' add_documents_append add)
  next
    case False
    then show ?thesis using full pg1 by (simp add: pg' all add_documents_append add)
  qed
qed

end

text \<open>C9: the page of a sort by one field holds the documents of the result set in the order of the
  index, in the direction asked for, with the documents that the index does not have after them,
  from the position on and as many as were asked for.\<close>

theorem sort_page_exact:
  assumes "sqlite_engine eng view saved"
    and "store_sort eng s rs [CmpField f asc] (pagination_new limit pos None off) db = Inr sr"
    and "rs_results rs \<noteq> {}" and "0 \<le> pos" and "f \<noteq> u8_MAX"
    and "index_of (view db) (rs_account_id rs) (rs_collection rs) f n I val"
  shows "sr_ids sr = take (if limit = 0 then card (rs_results rs) else limit)
    (drop (nat pos) (map (full_id 0) (field_order (rs_results rs) I val asc)))"
proof -
  let ?n = "card (rs_results rs)" and ?ds = "field_order (rs_results rs) I val asc"
  let ?limit = "if limit = 0 then ?n else min ?n limit"
  let ?pg = "pagination_new ?limit pos None off"
  have pg: "(pagination_new k pos None off)\<lparr>pg_limit := l\<rparr> = pagination_new l pos None off"
    "\<not> pg_prefix_unique (pagination_new l pos None off)" "pg_prefix_key (pagination_new l pos None off) = None" for k l
    by (simp_all add: pagination_new_def)
  have n: "0 < ?n" using assms(3) by (simp add: card_gt_0_iff)
  have "sort_by_one eng s rs (CmpField f asc) ?pg db = Inr sr"
    using assms(2,3) by (cases "limit = 0") (simp_all add: store_sort_def pg Let_def)
  then obtain pg' where pg': "sort_by_field eng s rs f asc ?pg db = Inr pg'"
    and sr: "sr_ids sr = sr_ids (pg_build pg') \<or> pg_prefix_key pg' \<noteq> None"
    by (auto simp: sort_by_one_def rbind_Inr_iff Let_def split: option.splits)
  have adds: "pg' = snd (add_documents ?ds ?pg)"
    by (rule sqlite_engine.sort_by_field_adds [OF assms(1) pg' assms(6,5)]) (use n assms(4) in auto)
  have "pg_prefix_key pg' = None"
    using add_documents_page [of ?pg ?ds] assms(4) n by (simp add: adds pg Let_def)
  then have "sr_ids sr = sr_ids (page_of ?limit pos None off ?ds)" using sr adds by (simp add: page_of_def)
  also have "\<dots> = take ?limit (drop (nat pos) (map (full_id 0) ?ds))"
    by (subst page_cases(1) [of _ 0 "[]"]) (use n assms(4) in simp_all)
  also have "\<dots> = take (if limit = 0 then ?n else limit) (drop (nat pos) (map (full_id 0) ?ds))"
  proof -
    have "card (rs_results rs \<inter> I) + card (rs_results rs - I) = ?n"
      by (metis card_Int_Diff finite)
    then have "length (map (full_id 0) ?ds) = ?n" by (simp add: field_order_def Let_def)
    then show ?thesis by (auto simp: min_def)
  qed
  finally show ?thesis .
qed

theorem sort_page_exact_witness:
  "[full_id 0 4, full_id 0 3] = take 2 (drop (nat 1) (map (full_id 0)
     (field_order {2, 3, 4, 5} {2, 3, 4} (\<lambda>d. if d = 3 then [9] else [7]) True)))"
proof -
  let ?row = "\<lambda>d w. [0, 0, 0, 1, 2, 6, w, 0, 0, 0, d]"
  let ?val = "\<lambda>d :: u32. if d = 3 then [9 :: u8] else [7]"
  let ?db = "mem_start [((SUBSPACE_INDEXES, ?row 2 7), SqlNull), ((SUBSPACE_INDEXES, ?row 3 9), SqlNull),
      ((SUBSPACE_INDEXES, ?row 4 7), SqlNull)]"
  let ?rs = "result_set_new 1 2 {2, 3, 4, 5}"
  have rows: "?row 2 7 = index_row 1 2 6 [7] 2" "?row 3 9 = index_row 1 2 6 [9] 3" "?row 4 7 = index_row 1 2 6 [7] 4"
    by code_simp+
  have "mem_view ?db SUBSPACE_INDEXES k \<noteq> None \<longleftrightarrow>
      k \<in> {index_row 1 2 6 [7] 2, index_row 1 2 6 [9] 3, index_row 1 2 6 [7] 4}" for k
    by (simp add: mem_view_def mem_tables_def mem_start_def rows)
  moreover from this [of "be_u32 1 @ [2, 6 + 1]"] have "mem_view ?db SUBSPACE_INDEXES (be_u32 1 @ [2, 6 + 1]) = None"
    by (auto dest: arg_cong [where f = length])
  ultimately have "index_of (mem_view ?db) 1 2 6 1 {2, 3, 4} ?val"
    by (auto simp: index_of_def fixed_width_def index_row_eq dest: arg_cong [where f = length])
  moreover have "store_sort mem_engine SQLite ?rs [CmpField 6 True] (pagination_new 2 1 None 0) ?db =
      Inr \<lparr>sr_position = 1, sr_ids = [full_id 0 4, full_id 0 3], sr_found_anchor = True\<rparr>" by code_simp
  ultimately show ?thesis
    using sort_page_exact [OF mem.sqlite_engine_axioms, of SQLite ?rs 6 True 2 1 0 ?db _ 1 "{2, 3, 4}" ?val]
    by (simp add: result_set_new_def)
qed

text \<open>With one criterion and a page of unique prefixes the criterion is not used: the page is the
  one of a sort by nothing, that is by document identifier.\<close>

theorem sort_unique_ignores_comparator:
  "store_sort eng s rs [cmp] (with_prefix_unique pg True) db = store_sort eng s rs [] (with_prefix_unique pg True) db"
  by (simp add: store_sort_def with_prefix_unique_def Let_def)

text \<open>With a position counted from the end the test for a full page stops the sort too early: all
  documents have to be collected, but those that the index does not have are left out when the
  index happens to have as many as the page holds. Of the documents 2, 3 and 5, of which the
  index has 2, the last one is 5, and the page of the last one holds 2.\<close>

theorem sort_negative_position_incomplete:
  "store_sort mem_engine SQLite (result_set_new 1 2 {2, 3, 5}) [CmpField 6 True] (pagination_new 1 (- 1) None 0)
     (mem_start [((SUBSPACE_INDEXES, [0, 0, 0, 1, 2, 6, 7, 0, 0, 0, 2]), SqlNull)]) =
     Inr \<lparr>sr_position = 0, sr_ids = [full_id 0 2], sr_found_anchor = True\<rparr> \<and>
   page_of 1 (- 1) None 0 (field_order {2, 3, 5} {2} (\<lambda>_. [7]) True) =
     \<lparr>sr_position = 2, sr_ids = [full_id 0 5], sr_found_anchor = True\<rparr>"
  by code_simp

end
