(* ===== verification/Sasl.thy ===== *)
theory Sasl
  imports Utf8
begin

section \<open>Authentication challenges\<close>

text \<open>
  Models \<^verbatim>\<open>src/crates/common/src/auth/sasl.rs\<close>: the credentials in the responses to the
  SASL mechanisms PLAIN, XOAUTH2 and OAUTHBEARER. A \<open>String\<close> is its UTF-8 bytes.
\<close>

datatype credentials = Plain_Credentials bytes bytes | OAuth_Credentials bytes

definition to_lower :: "u8 \<Rightarrow> u8" where
  "to_lower b = (if 65 \<le> b \<and> b \<le> 90 then b + 32 else b)"

definition eq_ignore_ascii_case :: "bytes \<Rightarrow> bytes \<Rightarrow> bool" where
  "eq_ignore_ascii_case a b \<longleftrightarrow> map to_lower a = map to_lower b"

fun plain_loop :: "nat \<Rightarrow> bytes \<Rightarrow> bytes \<Rightarrow> bytes \<Rightarrow> bytes \<times> bytes" where
  "plain_loop arg_num username secret [] = (username, secret)"
| "plain_loop arg_num username secret (ch # cs) =
     (if ch \<noteq> 0 then
        if arg_num = 1 then plain_loop arg_num (username @ [ch]) secret cs
        else if arg_num = 2 then plain_loop arg_num username (secret @ [ch]) cs
        else plain_loop arg_num username secret cs
      else plain_loop (arg_num + 1) username secret cs)"

definition sasl_decode_challenge_plain :: "bytes \<Rightarrow> credentials option" where
  "sasl_decode_challenge_plain challenge =
     (let (username, secret) = plain_loop 0 [] [] challenge
      in if from_utf8 username \<noteq> None \<and> from_utf8 secret \<noteq> None \<and> username \<noteq> [] \<and> secret \<noteq> []
         then Some (Plain_Credentials username secret) else None)"

fun xoauth_loop :: "nat \<Rightarrow> bool \<Rightarrow> bytes \<Rightarrow> bytes \<Rightarrow> bytes \<Rightarrow> bytes \<times> bytes" where
  "xoauth_loop arg_num in_arg username secret [] = (username, secret)"
| "xoauth_loop arg_num in_arg username secret (ch # cs) =
     (if in_arg then
        if ch \<noteq> 1 then
          if arg_num = 1 then xoauth_loop arg_num True (username @ [ch]) secret cs
          else if arg_num = 2 then xoauth_loop arg_num True username (secret @ [ch]) cs
          else xoauth_loop arg_num True username secret cs
        else xoauth_loop arg_num False username secret cs
      else if ch = 61 then xoauth_loop (arg_num + 1) True username secret cs
      else xoauth_loop arg_num False username secret cs)"

definition sasl_decode_challenge_xoauth :: "bytes \<Rightarrow> credentials option" where
  "sasl_decode_challenge_xoauth challenge =
     (let (username, secret) = xoauth_loop 0 False [] [] challenge
      in if from_utf8 username \<noteq> None \<and> from_utf8 secret \<noteq> None \<and> username \<noteq> []
         then Some (Plain_Credentials username secret) else None)"

definition is_bearer :: "bytes \<Rightarrow> nat \<Rightarrow> bool" where
  "is_bearer bs start_pos =
     (case get_range bs start_pos (start_pos + 12) of
        Some s \<Rightarrow> eq_ignore_ascii_case s (ascii ''auth=Bearer '') | None \<Rightarrow> False)"

fun bearer_loop :: "bytes \<Rightarrow> nat \<Rightarrow> nat \<Rightarrow> bytes \<Rightarrow> bytes option" where
  "bearer_loop bs pos start_pos [] = None"
| "bearer_loop bs pos start_pos (ch # cs) =
     (let is_separator = (ch = 1)
      in if is_separator \<or> pos = length bs - 1 then
           if is_bearer bs start_pos then
             (case get_range bs (start_pos + 12) (if is_separator then pos else length bs) of
                Some s \<Rightarrow> if from_utf8 s \<noteq> None then Some s else None
              | None \<Rightarrow> None)
           else bearer_loop bs (pos + 1) (pos + 1) cs
         else bearer_loop bs (pos + 1) start_pos cs)"

definition extract_oauth_bearer :: "bytes \<Rightarrow> bytes option" where
  "extract_oauth_bearer bs = bearer_loop bs 0 0 bs"

definition sasl_decode_challenge_oauth :: "bytes \<Rightarrow> credentials option" where
  "sasl_decode_challenge_oauth challenge = map_option OAuth_Credentials (extract_oauth_bearer challenge)"

subsection \<open>Decoding what clients send\<close>

lemma plain_loop_part:
  assumes "0 \<notin> set xs"
  shows "plain_loop n u s (xs @ cs) =
    plain_loop n (if n = 1 then u @ xs else u) (if n = 2 then s @ xs else s) cs"
  using assms by (induction xs arbitrary: u s) auto

lemma sasl_plain_decodes:
  assumes "0 \<notin> set authzid" and "0 \<notin> set username" and "0 \<notin> set secret" and "username \<noteq> []" and "secret \<noteq> []"
    and "from_utf8 username \<noteq> None" and "from_utf8 secret \<noteq> None"
  shows "sasl_decode_challenge_plain (authzid @ [0] @ username @ [0] @ secret) = Some (Plain_Credentials username secret)"
  using assms plain_loop_part [of secret 2 username "[]" "[]"]
  by (simp add: sasl_decode_challenge_plain_def plain_loop_part numeral_2_eq_2)

text \<open>The fields of an OAUTHBEARER response end with the byte 1.\<close>

definition bearer_field :: "bytes \<Rightarrow> bool" where
  "bearer_field f \<longleftrightarrow> 12 \<le> length f \<and> eq_ignore_ascii_case (take 12 f) (ascii ''auth=Bearer '')"

lemma bearer_scan:
  assumes "1 \<notin> set f" and "p + k + length f < length bs"
  shows "bearer_loop bs (p + k) p (f @ 1 # cs) = bearer_loop bs (p + k + length f) p (1 # cs)"
  using assms
proof (induction f arbitrary: k)
  case (Cons b f)
  then have "b \<noteq> 1" "p + k \<noteq> length bs - 1" by auto
  then show ?case using Cons.IH [of "Suc k"] Cons.prems by simp
qed simp

lemma bearer_prefix: "map to_lower (ascii ''auth=Bearer '') = ascii ''auth=bearer ''" "length (ascii ''auth=Bearer '') = 12"
  "1 \<notin> set (ascii ''auth=bearer '')"
  by code_simp+

lemma is_bearer_field:
  assumes "1 \<notin> set f"
  shows "is_bearer (acc @ f @ 1 # cs) (length acc) \<longleftrightarrow> bearer_field f"
proof (cases "12 \<le> length f")
  case True
  then show ?thesis by (simp add: is_bearer_def get_range_def bearer_field_def)
next
  case False
  have "1 \<in> set (map to_lower (take 12 (f @ 1 # cs)))"
  proof -
    have "1 \<in> set (take 12 (f @ 1 # cs))" using False by (simp add: take_Cons')
    then have "to_lower 1 \<in> set (map to_lower (take 12 (f @ 1 # cs)))" by (simp only: set_map imageI)
    moreover have "to_lower 1 = 1" by code_simp
    ultimately show ?thesis by (simp only:)
  qed
  then have "\<not> eq_ignore_ascii_case (take 12 (f @ 1 # cs)) (ascii ''auth=Bearer '')"
    unfolding eq_ignore_ascii_case_def using bearer_prefix(1,3) by metis
  then show ?thesis using False by (auto simp: is_bearer_def get_range_def bearer_field_def)
qed

lemma bearer_skip:
  assumes "1 \<notin> set f" and "\<not> bearer_field f"
  shows "bearer_loop (acc @ f @ 1 # cs) (length acc) (length acc) (f @ 1 # cs) =
    bearer_loop (acc @ f @ 1 # cs) (length (acc @ f @ [1])) (length (acc @ f @ [1])) cs"
  using bearer_scan [OF assms(1), of "length acc" 0 "acc @ f @ 1 # cs" cs] is_bearer_field [OF assms(1)] assms(2) by simp

lemma bearer_found:
  assumes "1 \<notin> set f" and "bearer_field f" and "from_utf8 (drop 12 f) \<noteq> None"
  shows "bearer_loop (acc @ f @ 1 # cs) (length acc) (length acc) (f @ 1 # cs) = Some (drop 12 f)"
proof -
  have "get_range (acc @ f @ 1 # cs) (length acc + 12) (length acc + length f) = Some (drop 12 f)"
    using assms(2) by (auto simp: get_range_def bearer_field_def)
  then show ?thesis
    using bearer_scan [OF assms(1), of "length acc" 0 "acc @ f @ 1 # cs" cs] is_bearer_field [OF assms(1)] assms(2,3)
    by simp
qed

lemma sasl_oauth_decodes:
  assumes "\<forall>f \<in> set fs. 1 \<notin> set f \<and> \<not> bearer_field f" and "1 \<notin> set tok" and "from_utf8 tok \<noteq> None"
  shows "sasl_decode_challenge_oauth (concat (map (\<lambda>f. f @ [1]) fs) @ ascii ''auth=Bearer '' @ tok @ 1 # cs) =
    Some (OAuth_Credentials tok)"
proof -
  let ?f = "ascii ''auth=Bearer '' @ tok"
  have f: "1 \<notin> set ?f" "bearer_field ?f" "drop 12 ?f = tok"
  proof -
    have "1 \<notin> set (ascii ''auth=Bearer '')" by code_simp
    then show "1 \<notin> set ?f" using assms(2) by simp
    show "bearer_field ?f" "drop 12 ?f = tok" using bearer_prefix(2) by (simp_all add: bearer_field_def eq_ignore_ascii_case_def)
  qed
  have "bearer_loop (acc @ concat (map (\<lambda>f. f @ [1]) fs) @ ?f @ 1 # cs) (length acc) (length acc)
      (concat (map (\<lambda>f. f @ [1]) fs) @ ?f @ 1 # cs) = Some tok" for acc
    using assms(1)
  proof (induction fs arbitrary: acc)
    case Nil
    then show ?case using bearer_found [OF f(1,2)] f(3) assms(3) by simp
  next
    case (Cons g fs)
    then show ?case using bearer_skip [of g acc "concat (map (\<lambda>f. f @ [1]) fs) @ ?f @ 1 # cs"] Cons.IH [of "acc @ g @ [1]"] by simp
  qed
  from this [of "[]"] show ?thesis by (simp add: sasl_decode_challenge_oauth_def extract_oauth_bearer_def)
qed

end
