(* ===== verification/Pop3_Protocol.thy ===== *)
theory Pop3_Protocol
  imports Sasl
begin

unbundle bit_operations_syntax

section \<open>POP3: requests and responses\<close>

text \<open>
  Models \<^verbatim>\<open>src/crates/pop3/src/protocol\<close>: the commands, the parser that reads
  them from the bytes of a connection (\<^verbatim>\<open>request.rs\<close>) and the responses
  (\<^verbatim>\<open>response.rs\<close>). A \<open>String\<close> is its UTF-8 bytes. The parser keeps its
  state between the chunks that arrive; \<open>parse_byte\<close> is one round of its loop.
\<close>

datatype ('t, 'm) command =
  User 't | Pass 't | Apop 't 't | Quit
| Stat | List "u32 option" | Retr u32 | Dele u32 | DeleMany "u32 list" | Noop | Rset | Top u32 u32
| Uidl "u32 option"
| Capa | Stls | Utf8_Enable | Auth 'm "'t list"

datatype mechanism =
  Plain | CramMd5 | DigestMd5 | ScramSha1 | ScramSha256 | Mech_Apop | Ntlm | Gssapi | Anonymous
| External | OAuthBearer | XOauth2

type_synonym raw_command = "(bytes, bytes) command"
type_synonym pop3_command = "(bytes, mechanism) command"

datatype request_error = NeedsMoreData | Parse_Error bytes

datatype parser_state =
  Init | Command bytes nat | Argument raw_command nat bool | Error_State bytes

definition MAX_ARG_LEN :: nat where "MAX_ARG_LEN = 256"

subsection \<open>Commands\<close>

definition INVALID_COMMAND :: bytes where "INVALID_COMMAND = ascii ''Invalid command''"
definition TOO_MANY_ARGUMENTS :: bytes where "TOO_MANY_ARGUMENTS = ascii ''Too many arguments''"
definition MISSING_ARGUMENTS :: bytes where "MISSING_ARGUMENTS = ascii ''Missing arguments''"

definition command_parse :: "bytes \<Rightarrow> bytes + raw_command" where
  "command_parse b =
     (if b = ascii ''user'' then Inr (User [])
      else if b = ascii ''uidl'' then Inr (Uidl None)
      else if b = ascii ''utf8'' then Inr Utf8_Enable
      else if b = ascii ''pass'' then Inr (Pass [])
      else if b = ascii ''apop'' then Inr (Apop [] [])
      else if b = ascii ''auth'' then Inr (Auth [] [])
      else if b = ascii ''quit'' then Inr Quit
      else if b = ascii ''list'' then Inr (List None)
      else if b = ascii ''retr'' then Inr (Retr 0)
      else if b = ascii ''rset'' then Inr Rset
      else if b = ascii ''dele'' then Inr (Dele 0)
      else if b = ascii ''noop'' then Inr Noop
      else if b = ascii ''top'' @ [0] then Inr (Top 0 0)
      else if b = ascii ''capa'' then Inr Capa
      else if b = ascii ''stls'' then Inr Stls
      else if b = ascii ''stat'' then Inr Stat
      else Inl INVALID_COMMAND)"

definition add_digit :: "u32 \<Rightarrow> u8 \<Rightarrow> bytes + u32" where
  "add_digit num b =
     (if is_ascii_digit b then
        let n = unat num * 10 + unat (b - 48)
        in if n < 2 ^ 32 then Inr (of_nat n) else Inl (ascii ''Numeric argument out of range'')
      else Inl (ascii ''Invalid digit''))"

definition get_or_zero :: "u32 option \<Rightarrow> u32" where
  "get_or_zero m = (case m of None \<Rightarrow> 0 | Some n \<Rightarrow> n)"

definition push_param :: "bytes list \<Rightarrow> nat \<Rightarrow> u8 \<Rightarrow> bytes list" where
  "push_param params arg_num b =
     (let ps = (if length params < arg_num - 1 then params @ [[]] else params)
      in butlast ps @ [last ps @ [b]])"

definition update_argument :: "raw_command \<Rightarrow> nat \<Rightarrow> u8 \<Rightarrow> bytes + raw_command" where
  "update_argument cmd arg_num b =
     (case cmd of
        User name \<Rightarrow>
          if arg_num = 1 \<and> length name < MAX_ARG_LEN then Inr (User (name @ [b])) else Inl TOO_MANY_ARGUMENTS
      | Pass s \<Rightarrow>
          if arg_num = 1 \<and> length s < MAX_ARG_LEN then Inr (Pass (s @ [b])) else Inl TOO_MANY_ARGUMENTS
      | Apop name digest \<Rightarrow>
          if arg_num \<le> 2 \<and> length name < MAX_ARG_LEN \<and> length digest < MAX_ARG_LEN then
            Inr (if arg_num = 1 then Apop (name @ [b]) digest else Apop name (digest @ [b]))
          else Inl TOO_MANY_ARGUMENTS
      | List msg \<Rightarrow>
          if arg_num = 1 then rbind (add_digit (get_or_zero msg) b) (\<lambda>n. Inr (List (Some n)))
          else Inl TOO_MANY_ARGUMENTS
      | Retr msg \<Rightarrow>
          if arg_num = 1 then rbind (add_digit msg b) (\<lambda>n. Inr (Retr n)) else Inl TOO_MANY_ARGUMENTS
      | Dele msg \<Rightarrow>
          if arg_num = 1 then rbind (add_digit msg b) (\<lambda>n. Inr (Dele n)) else Inl TOO_MANY_ARGUMENTS
      | Top msg n \<Rightarrow>
          if arg_num \<le> 2 then
            if arg_num = 1 then rbind (add_digit msg b) (\<lambda>m. Inr (Top m n))
            else rbind (add_digit n b) (\<lambda>k. Inr (Top msg k))
          else Inl TOO_MANY_ARGUMENTS
      | Uidl msg \<Rightarrow>
          if arg_num = 1 then rbind (add_digit (get_or_zero msg) b) (\<lambda>n. Inr (Uidl (Some n)))
          else Inl TOO_MANY_ARGUMENTS
      | Auth mech params \<Rightarrow>
          if arg_num \<le> 4 \<and> length mech < 64 \<and> sum_list (map length params) < MAX_ARG_LEN * 4 then
            Inr (if arg_num = 1 then Auth (mech @ [b]) params else Auth mech (push_param params arg_num b))
          else Inl TOO_MANY_ARGUMENTS
      | _ \<Rightarrow> Inl TOO_MANY_ARGUMENTS)"

definition into_string :: "bytes \<Rightarrow> request_error + bytes" where
  "into_string bs = (case from_utf8 bs of None \<Rightarrow> Inl (Parse_Error (ascii ''Invalid UTF-8'')) | Some _ \<Rightarrow> Inr bs)"

fun into_strings :: "bytes list \<Rightarrow> request_error + bytes list" where
  "into_strings [] = Inr []"
| "into_strings (p # ps) = rbind (into_string p) (\<lambda>s. rbind (into_strings ps) (\<lambda>ss. Inr (s # ss)))"

definition mechanism_parse :: "bytes \<Rightarrow> request_error + mechanism" where
  "mechanism_parse v =
     (if eq_ignore_ascii_case v (ascii ''PLAIN'') then Inr Plain
      else if eq_ignore_ascii_case v (ascii ''CRAM-MD5'') then Inr CramMd5
      else if eq_ignore_ascii_case v (ascii ''DIGEST-MD5'') then Inr DigestMd5
      else if eq_ignore_ascii_case v (ascii ''SCRAM-SHA-1'') then Inr ScramSha1
      else if eq_ignore_ascii_case v (ascii ''SCRAM-SHA-256'') then Inr ScramSha256
      else if eq_ignore_ascii_case v (ascii ''APOP'') then Inr Mech_Apop
      else if eq_ignore_ascii_case v (ascii ''NTLM'') then Inr Ntlm
      else if eq_ignore_ascii_case v (ascii ''GSSAPI'') then Inr Gssapi
      else if eq_ignore_ascii_case v (ascii ''ANONYMOUS'') then Inr Anonymous
      else if eq_ignore_ascii_case v (ascii ''EXTERNAL'') then Inr External
      else if eq_ignore_ascii_case v (ascii ''OAUTHBEARER'') then Inr OAuthBearer
      else if eq_ignore_ascii_case v (ascii ''XOAUTH2'') then Inr XOauth2
      else Inl (Parse_Error
        (ascii ''Unsupported mechanism '' @ [39] @ utf8_encode (from_utf8_lossy v) @ [39, 46])))"

definition finalize_command :: "raw_command \<Rightarrow> nat \<Rightarrow> request_error + pop3_command" where
  "finalize_command cmd num_args =
     (let missing = Inl (Parse_Error MISSING_ARGUMENTS)
      in case cmd of
        User name \<Rightarrow> if num_args = 1 then rbind (into_string name) (\<lambda>n. Inr (User n)) else missing
      | Pass s \<Rightarrow> if num_args = 1 then rbind (into_string s) (\<lambda>p. Inr (Pass p)) else missing
      | Apop name digest \<Rightarrow>
          if num_args = 2 then
            rbind (into_string name) (\<lambda>n. rbind (into_string digest) (\<lambda>d. Inr (Apop n d)))
          else missing
      | Quit \<Rightarrow> Inr Quit
      | Stat \<Rightarrow> Inr Stat
      | List msg \<Rightarrow> Inr (List msg)
      | Retr msg \<Rightarrow> if num_args = 1 then Inr (Retr msg) else missing
      | Dele msg \<Rightarrow> if num_args = 1 then Inr (Dele msg) else missing
      | DeleMany msgs \<Rightarrow> missing
      | Noop \<Rightarrow> Inr Noop
      | Rset \<Rightarrow> Inr Rset
      | Top msg n \<Rightarrow> if num_args = 2 then Inr (Top msg n) else missing
      | Uidl msg \<Rightarrow> Inr (Uidl msg)
      | Capa \<Rightarrow> Inr Capa
      | Stls \<Rightarrow> Inr Stls
      | Utf8_Enable \<Rightarrow> Inr Utf8_Enable
      | Auth mech params \<Rightarrow>
          if 1 \<le> num_args then
            rbind (mechanism_parse mech) (\<lambda>m. rbind (into_strings params) (\<lambda>ps. Inr (Auth m ps)))
          else missing)"

subsection \<open>The parser\<close>

definition is_lower :: "u8 \<Rightarrow> bool" where "is_lower b \<longleftrightarrow> 97 \<le> b \<and> b \<le> 122"
definition is_upper :: "u8 \<Rightarrow> bool" where "is_upper b \<longleftrightarrow> 65 \<le> b \<and> b \<le> 90"

text \<open>The new state, and the result with which \<open>parse\<close> returns, if it does.\<close>

definition parse_byte :: "parser_state \<Rightarrow> u8 \<Rightarrow> (request_error + pop3_command) option \<times> parser_state" where
  "parse_byte st b =
     (case st of
        Init \<Rightarrow>
          if b \<in> {32, 9, 13, 10} then (None, Init)
          else if is_lower b then (None, Command [b, 0, 0, 0] 1)
          else if is_upper b then (None, Command [b OR 0x20, 0, 0, 0] 1)
          else (None, Error_State INVALID_COMMAND)
      | Command buf len \<Rightarrow>
          if (is_lower b \<or> b = 56) \<and> len < 4 then (None, Command (buf[len := b]) (len + 1))
          else if is_upper b \<and> len < 4 then (None, Command (buf[len := b OR 0x20]) (len + 1))
          else if (b = 32 \<or> b = 9) \<and> (len = 4 \<or> len = 3) then
            (None, case command_parse buf of Inr request \<Rightarrow> Argument request 0 True | Inl e \<Rightarrow> Error_State e)
          else if b = 13 then (None, Command buf len)
          else if b = 10 \<and> (len = 4 \<or> len = 3) then
            (Some (case command_parse buf of Inr request \<Rightarrow> finalize_command request 0 | Inl e \<Rightarrow> Inl (Parse_Error e)),
             Init)
          else (None, Error_State INVALID_COMMAND)
      | Argument request num last_is_space \<Rightarrow>
          if b = 32 \<or> b = 9 then (None, Argument request num True)
          else if b = 13 then (None, Argument request num last_is_space)
          else if b = 10 then (Some (finalize_command request num), Init)
          else
            let num' = (if last_is_space then num + 1 else num)
            in (None, case update_argument request num' b of
                        Inr request' \<Rightarrow> Argument request' num' False
                      | Inl e \<Rightarrow> Error_State e)
      | Error_State reason \<Rightarrow>
          if b = 10 then (Some (Inl (Parse_Error reason)), Init) else (None, Error_State reason))"

text \<open>One call: the result, the state it leaves and the bytes that it did not read.\<close>

fun parser_parse :: "parser_state \<Rightarrow> bytes \<Rightarrow> (request_error + pop3_command) \<times> parser_state \<times> bytes" where
  "parser_parse st [] = (Inl NeedsMoreData, st, [])"
| "parser_parse st (b # bs) =
     (case parse_byte st b of (None, st') \<Rightarrow> parser_parse st' bs | (Some r, st') \<Rightarrow> (r, st', bs))"

subsection \<open>Responses\<close>

text \<open>The items of a list are given as they are displayed.\<close>

datatype response =
  Ok_Response bytes | Err_Response bytes | List_Response "bytes list" | Message_Response bytes u32
| Capability_Response "mechanism list" bool

definition mechanism_as_str :: "mechanism \<Rightarrow> bytes" where
  "mechanism_as_str m =
     (case m of
        Plain \<Rightarrow> ascii ''PLAIN'' | CramMd5 \<Rightarrow> ascii ''CRAM-MD5'' | DigestMd5 \<Rightarrow> ascii ''DIGEST-MD5''
      | ScramSha1 \<Rightarrow> ascii ''SCRAM-SHA-1'' | ScramSha256 \<Rightarrow> ascii ''SCRAM-SHA-256''
      | Mech_Apop \<Rightarrow> ascii ''APOP'' | Ntlm \<Rightarrow> ascii ''NTLM'' | Gssapi \<Rightarrow> ascii ''GSSAPI''
      | Anonymous \<Rightarrow> ascii ''ANONYMOUS'' | External \<Rightarrow> ascii ''EXTERNAL''
      | OAuthBearer \<Rightarrow> ascii ''OAUTHBEARER'' | XOauth2 \<Rightarrow> ascii ''XOAUTH2'')"

definition CRLF :: bytes where "CRLF = [13, 10]"

fun list_items :: "nat \<Rightarrow> bytes list \<Rightarrow> bytes" where
  "list_items num [] = []"
| "list_items num (octet # octets) = decimal (num + 1) @ [32] @ octet @ CRLF @ list_items (num + 1) octets"

text \<open>The loop over the bytes of a message, with the bytes it appends and the last byte it read.\<close>

fun message_loop :: "u32 \<Rightarrow> u32 \<Rightarrow> u8 \<Rightarrow> bytes \<Rightarrow> bytes \<times> u8" where
  "message_loop lines line_count last_byte [] = ([], last_byte)"
| "message_loop lines line_count last_byte (b # bs) =
     (let out = (if b = 10 \<and> last_byte \<noteq> 13 then [13] else []) @
                (if b = 46 \<and> last_byte = 10 then [46] else []) @ [b]
      in if 0 < lines \<and> b = 10 then
           if line_count + 1 = lines then (out, b)
           else (let (rest, l) = message_loop lines (line_count + 1) b bs in (out @ rest, l))
         else (let (rest, l) = message_loop lines line_count b bs in (out @ rest, l)))"

definition message_body :: "bytes \<Rightarrow> u32 \<Rightarrow> bytes" where
  "message_body bs lines =
     (let (out, last_byte) = message_loop lines 0 0 bs
      in out @ (if last_byte \<noteq> 10 then CRLF else []) @ [46] @ CRLF)"

definition serialize_response :: "response \<Rightarrow> bytes" where
  "serialize_response r =
     (case r of
        Ok_Response message \<Rightarrow> ascii ''+OK '' @ message @ CRLF
      | Err_Response message \<Rightarrow> ascii ''-ERR '' @ message @ CRLF
      | List_Response octets \<Rightarrow>
          ascii ''+OK '' @ decimal (length octets) @ ascii '' messages'' @ CRLF @
          list_items 0 octets @ [46] @ CRLF
      | Message_Response bs lines \<Rightarrow>
          ascii ''+OK '' @ decimal (length bs) @ ascii '' octets'' @ CRLF @ message_body bs lines
      | Capability_Response mechanisms stls \<Rightarrow>
          ascii ''+OK Capability list follows'' @ CRLF @
          (if mechanisms \<noteq> [] then
             (if Plain \<in> set mechanisms then ascii ''USER'' @ CRLF else []) @
             ascii ''SASL'' @ concat (map (\<lambda>m. [32] @ mechanism_as_str m) mechanisms) @ CRLF
           else []) @
          (if stls then ascii ''STLS'' @ CRLF else []) @
          concat (map (\<lambda>capa. capa @ CRLF)
            [ascii ''TOP'', ascii ''RESP-CODES'', ascii ''PIPELINING'', ascii ''EXPIRE NEVER'', ascii ''UIDL'',
             ascii ''UTF8'', ascii ''IMPLEMENTATION Stalwart Mail Server'']) @
          [46] @ CRLF)"

subsection \<open>Reading what the server sends\<close>

text \<open>A client reads a multi-line response as RFC 1939 says: line by line up to a line that is a
  single dot, taking the first dot off the other lines that start with one.\<close>

fun read_line :: "bytes \<Rightarrow> (bytes \<times> bytes) option" where
  "read_line (a # b # bs) =
     (if a = 13 \<and> b = 10 then Some ([], bs)
      else map_option (\<lambda>(l, r). (a # l, r)) (read_line (b # bs)))"
| "read_line _ = None"

lemma read_line_length [termination_simp]: "read_line bs = Some (l, r) \<Longrightarrow> length r < length bs"
  by (induction bs arbitrary: l rule: read_line.induct) (auto split: if_splits)

fun read_multiline :: "bytes \<Rightarrow> (bytes list \<times> bytes) option" where
  "read_multiline bs =
     (case read_line bs of
        None \<Rightarrow> None
      | Some (l, r) \<Rightarrow>
          if l = [46] then Some ([], r)
          else map_option (\<lambda>(ls, r'). ((if l \<noteq> [] \<and> hd l = 46 then tl l else l) # ls, r')) (read_multiline r))"

declare read_multiline.simps [simp del]

text \<open>The lines of a message, which end with a line feed or a carriage return and a line feed.\<close>

definition strip_cr :: "bytes \<Rightarrow> bytes" where
  "strip_cr l = (if l \<noteq> [] \<and> last l = 13 then butlast l else l)"

fun lines_from :: "bytes \<Rightarrow> bytes \<Rightarrow> bytes list" where
  "lines_from cur [] = (if cur = [] then [] else [cur])"
| "lines_from cur (b # bs) = (if b = 10 then strip_cr cur # lines_from [] bs else lines_from (cur @ [b]) bs)"

definition message_lines :: "bytes \<Rightarrow> bytes list" where
  "message_lines m = (if m = [] then [[]] else lines_from [] m)"

definition stuff :: "bytes \<Rightarrow> bytes" where
  "stuff l = (if l \<noteq> [] \<and> hd l = 46 then 46 # l else l)"

lemma stuff_append: "l \<noteq> [] \<Longrightarrow> stuff (l @ xs) = stuff l @ xs"
  by (simp add: stuff_def)

lemma stuff_snoc: "stuff (l @ [b]) = stuff l @ (if b = 46 \<and> l = [] then [46] else []) @ [b]"
  by (cases l) (auto simp: stuff_def)

lemma stuff_strip_cr: "stuff (strip_cr l) @ CRLF = stuff l @ (if l \<noteq> [] \<and> last l = 13 then [] else [13]) @ [10]"
proof (cases "l \<noteq> [] \<and> last l = 13")
  case True
  then have "l = butlast l @ [13]" by (metis append_butlast_last_id)
  then have "stuff l = stuff (butlast l) @ [13]" using stuff_snoc [of "butlast l" 13] by simp
  then show ?thesis using True by (simp add: strip_cr_def CRLF_def)
qed (auto simp: strip_cr_def CRLF_def)

definition wire :: "bytes list \<Rightarrow> bytes" where
  "wire ls = concat (map (\<lambda>l. stuff l @ CRLF) ls)"

definition cut_lines :: "u32 \<Rightarrow> u32 \<Rightarrow> bytes list \<Rightarrow> bytes list" where
  "cut_lines lines line_count ls = (if lines = 0 then ls else take (unat lines - unat line_count) ls)"

lemma u32_next:
  fixes c lines :: u32
  assumes "c < lines"
  shows "unat (c + 1) = Suc (unat c)" and "c + 1 \<noteq> lines \<Longrightarrow> c + 1 < lines"
proof -
  have c: "unat c < unat lines" using assms by (simp add: word_less_nat_alt)
  moreover have "unat lines < 2 ^ 32" using unat_u32_less [of lines] by simp
  ultimately have "Suc (unat c) < 2 ^ 32" by linarith
  then show n: "unat (c + 1) = Suc (unat c)" by (simp add: unat_word_ariths)
  show "c + 1 < lines" if "c + 1 \<noteq> lines"
    using that c n by (metis Suc_lessI word_less_nat_alt word_unat_eq_iff)
qed

text \<open>The loop writes the lines that remain, \<open>cur\<close> being what it has read of the current one.\<close>

lemma message_loop_lines:
  assumes "lines = 0 \<or> c < lines" and "10 \<notin> set cur" and "last_byte = (if cur = [] then 10 else last cur)"
    and "message_loop lines c last_byte bs = (out, l)"
  shows "stuff cur @ out @ (if l \<noteq> 10 then CRLF else []) = wire (cut_lines lines c (lines_from cur bs))"
  using assms
proof (induction bs arbitrary: c cur last_byte out)
  case Nil
  have "unat lines - unat c \<noteq> 0" if "lines \<noteq> 0" using that Nil.prems(1) by (simp add: word_less_nat_alt)
  moreover have "last cur \<noteq> 10" if "cur \<noteq> []" using that Nil.prems(2) by (metis last_in_set)
  ultimately show ?case using Nil.prems
    by (auto simp: wire_def cut_lines_def stuff_def take_Cons')
next
  case (Cons b bs)
  have lastn: "last cur \<noteq> 10" if "cur \<noteq> []" using that Cons.prems(2) by (metis last_in_set)
  show ?case
  proof (cases "b = 10")
    case True
    have line: "stuff cur @ (if last_byte \<noteq> 13 then [13] else []) @ [10] = stuff (strip_cr cur) @ CRLF"
      using Cons.prems(3) by (auto simp: stuff_strip_cr)
    show ?thesis
    proof (cases "0 < lines \<and> c + 1 = lines")
      case stop: True
      then have "unat lines = Suc (unat c)" using u32_next(1) [of c lines] Cons.prems(1) by auto
      then have "unat lines - unat c = Suc 0" by simp
      moreover have "out = (if last_byte \<noteq> 13 then [13] else []) @ [10]" "l = 10"
        using Cons.prems(4) True stop by (auto simp: Let_def)
      moreover have "lines \<noteq> 0" using stop by auto
      ultimately show ?thesis using line True by (simp add: cut_lines_def wire_def)
    next
      case go: False
      let ?c = "if 0 < lines then c + 1 else c"
      obtain rest where rest: "message_loop lines ?c 10 bs = (rest, l)"
        and out: "out = (if last_byte \<noteq> 13 then [13] else []) @ [10] @ rest"
        using Cons.prems(4) True go by (auto simp: Let_def split: prod.splits if_splits)
      have c: "lines = 0 \<or> ?c < lines" using u32_next(2) [of c lines] Cons.prems(1) go by (auto simp: word_gt_0)
      have k: "unat lines - unat c = Suc (unat lines - unat ?c)" if "lines \<noteq> 0"
        using u32_next(1) [of c lines] Cons.prems(1) c that by (auto simp: word_gt_0 word_less_nat_alt)
      have "rest @ (if l \<noteq> 10 then CRLF else []) = wire (cut_lines lines ?c (lines_from [] bs))"
        using Cons.IH [OF c _ _ rest, of "[]"] by (simp add: stuff_def)
      moreover have "cut_lines lines c (strip_cr cur # xs) = strip_cr cur # cut_lines lines ?c xs" for xs
        unfolding cut_lines_def by (cases "lines = 0") (simp_all only: k take_Suc_Cons if_True if_False simp_thms)
      ultimately show ?thesis using line True by (auto simp: out wire_def)
    qed
  next
    case False
    obtain rest where rest: "message_loop lines c b bs = (rest, l)"
      and out: "out = (if b = 46 \<and> last_byte = 10 then [46] else []) @ [b] @ rest"
      using Cons.prems(4) False by (auto simp: Let_def split: prod.splits if_splits)
    have "stuff (cur @ [b]) @ rest @ (if l \<noteq> 10 then CRLF else []) = wire (cut_lines lines c (lines_from (cur @ [b]) bs))"
      using Cons.IH [OF Cons.prems(1) _ _ rest, of "cur @ [b]"] Cons.prems(2) False by auto
    then show ?thesis using False Cons.prems(3) lastn by (auto simp: out stuff_snoc split: if_splits)
  qed
qed

lemma read_line_crlf: "10 \<notin> set l \<Longrightarrow> read_line (l @ CRLF @ r) = Some (l, r)"
proof (induction l)
  case (Cons a l)
  then show ?case by (cases l) (auto simp: CRLF_def)
qed (simp add: CRLF_def)

lemma read_wire:
  assumes "\<forall>l \<in> set ls. 10 \<notin> set l"
  shows "read_multiline (wire ls @ [46] @ CRLF @ rest) = Some (ls, rest)"
  using assms
proof (induction ls)
  case Nil
  show ?case using read_line_crlf [of "[46]" rest] by (simp add: wire_def read_multiline.simps)
next
  case (Cons l ls)
  have "read_line (stuff l @ CRLF @ wire ls @ [46] @ CRLF @ rest) = Some (stuff l, wire ls @ [46] @ CRLF @ rest)"
    using Cons.prems by (intro read_line_crlf) (auto simp: stuff_def)
  moreover have "stuff l \<noteq> [46]" "(if stuff l \<noteq> [] \<and> hd (stuff l) = 46 then tl (stuff l) else stuff l) = l"
    by (auto simp: stuff_def)
  ultimately show ?case using Cons
    by (subst read_multiline.simps) (simp add: wire_def)
qed

lemma lines_from_no_lf: "10 \<notin> set cur \<Longrightarrow> \<forall>l \<in> set (lines_from cur bs). 10 \<notin> set l"
proof (induction bs arbitrary: cur)
  case (Cons b bs)
  have "set (strip_cr cur) \<subseteq> set cur" by (auto simp: strip_cr_def dest: in_set_butlastD)
  then show ?case using Cons.prems Cons.IH [of "[]"] Cons.IH [of "cur @ [b]"] by (cases "b = 10") auto
qed simp

lemma message_loop_start: "b \<noteq> 46 \<Longrightarrow> message_loop lines c 0 (b # bs) = message_loop lines c 10 (b # bs)"
  by simp

lemma message_body_wire:
  assumes "m = [] \<or> hd m \<noteq> 46"
  shows "message_body m lines = wire (if lines = 0 then message_lines m else take (unat lines) (message_lines m)) @ [46] @ CRLF"
proof (cases m)
  case Nil
  have "unat lines \<noteq> 0" if "lines \<noteq> 0" using that by (simp add: unat_eq_zero)
  then show ?thesis by (auto simp: Nil message_body_def message_lines_def wire_def stuff_def take_Cons')
next
  case (Cons b bs)
  obtain out l where loop: "message_loop lines 0 10 m = (out, l)" by fastforce
  have "lines = 0 \<or> 0 < lines" by (simp add: word_gt_0)
  from message_loop_lines [OF this _ _ loop, of "[]"]
  have "out @ (if l \<noteq> 10 then CRLF else []) = wire (cut_lines lines 0 (lines_from [] m))" by (simp add: stuff_def)
  moreover have "message_body m lines = out @ (if l \<noteq> 10 then CRLF else []) @ [46] @ CRLF"
    using loop message_loop_start [of b lines 0 bs] assms by (simp add: message_body_def Cons)
  ultimately show ?thesis by (simp add: cut_lines_def message_lines_def Cons)
qed

text \<open>C32: a client that reads the response to a retrieval gets the lines of the message, and those of
  its first part when lines were asked for, whatever follows on the connection; this holds for
  every message that does not start with a dot.\<close>

theorem message_transparent:
  assumes "m = [] \<or> hd m \<noteq> 46"
  shows "\<exists>status. serialize_response (Message_Response m lines) = status @ CRLF @ message_body m lines \<and>
    10 \<notin> set status \<and>
    read_multiline (message_body m lines @ rest) =
      Some (if lines = 0 then message_lines m else take (unat lines) (message_lines m), rest)"
proof -
  let ?ls = "if lines = 0 then message_lines m else take (unat lines) (message_lines m)"
  let ?status = "ascii ''+OK '' @ decimal (length m) @ ascii '' octets''"
  have "\<forall>l \<in> set (message_lines m). 10 \<notin> set l" using lines_from_no_lf [of "[]" m] by (simp add: message_lines_def)
  then have "\<forall>l \<in> set ?ls. 10 \<notin> set l" by (auto dest: in_set_takeD)
  then have "read_multiline (message_body m lines @ rest) = Some (?ls, rest)"
    using read_wire [of ?ls rest] by (simp add: message_body_wire [OF assms])
  moreover have "10 \<notin> set ?status"
  proof -
    have "10 \<notin> set (ascii ''+OK '')" "10 \<notin> set (ascii '' octets'')" by code_simp+
    moreover have "10 \<notin> set (decimal (length m))"
      using decimal_digits(1) [of "length m"] by (auto simp: list_all_iff is_ascii_digit_def)
    ultimately show ?thesis by simp
  qed
  ultimately show ?thesis by (intro exI [of _ ?status]) (simp add: serialize_response_def)
qed

theorem message_transparent_witness:
  "read_multiline (message_body (ascii ''a'' @ [10, 46, 10] @ ascii ''b'') 0 @ [7]) =
     Some ([ascii ''a'', [46], ascii ''b''], [7])"
proof -
  let ?m = "ascii ''a'' @ [10, 46, 10] @ ascii ''b''"
  have "?m = [] \<or> hd ?m \<noteq> 46" by code_simp
  from message_transparent [OF this, of 0 "[7]"]
  have "read_multiline (message_body ?m 0 @ [7]) = Some (message_lines ?m, [7])" by auto
  moreover have "message_lines ?m = [ascii ''a'', [46], ascii ''b'']" by code_simp
  ultimately show ?thesis by simp
qed

text \<open>C33: the first line of a message is sent without the extra dot: a message whose first line is a
  dot reads as an empty one, and the rest of it is taken for the next response.\<close>

theorem message_leading_dot_ends:
  "read_multiline (message_body (46 # 13 # 10 # m) 0 @ rest) =
     Some ([], (if m = [] then [] else wire (lines_from [] m)) @ [46] @ CRLF @ rest)"
proof -
  obtain out l where loop: "message_loop 0 0 10 m = (out, l)" by fastforce
  have "out @ (if l \<noteq> 10 then CRLF else []) = wire (lines_from [] m)"
    using message_loop_lines [of 0 0 "[]" 10 m out l] loop by (simp add: stuff_def cut_lines_def)
  moreover have "message_body (46 # 13 # 10 # m) 0 = [46] @ CRLF @ out @ (if l \<noteq> 10 then CRLF else []) @ [46] @ CRLF"
    using loop by (simp add: message_body_def CRLF_def)
  ultimately have "message_body (46 # 13 # 10 # m) 0 @ rest = [46] @ CRLF @ wire (lines_from [] m) @ [46] @ CRLF @ rest"
    by simp
  then show ?thesis using read_line_crlf [of "[46]"] by (auto simp: read_multiline.simps wire_def)
qed

subsection \<open>Requests from a stream of bytes\<close>

text \<open>The loop of a session over the bytes that have arrived: it calls the parser until it needs more
  data.\<close>

lemma parser_parse_length [termination_simp]:
  "(r, st', bs') = parser_parse st bs \<Longrightarrow> r \<noteq> Inl NeedsMoreData \<Longrightarrow> length bs' < length bs"
proof (induction st bs rule: parser_parse.induct)
  case (2 st b bs)
  obtain o1 st1 where "parse_byte st b = (o1, st1)" by fastforce
  with 2 show ?case by (cases o1) auto
qed simp

fun parse_all :: "parser_state \<Rightarrow> bytes \<Rightarrow> (request_error + pop3_command) list \<times> parser_state" where
  "parse_all st bs =
     (case parser_parse st bs of
        (r, st', bs') \<Rightarrow>
          if r = Inl NeedsMoreData then ([], st')
          else (let (rs, st'') = parse_all st' bs' in (r # rs, st'')))"

declare parse_all.simps [simp del]

text \<open>The same, byte by byte.\<close>

fun feed :: "parser_state \<Rightarrow> bytes \<Rightarrow> (request_error + pop3_command) list \<times> parser_state" where
  "feed st [] = ([], st)"
| "feed st (b # bs) =
     (case parse_byte st b of
        (None, st') \<Rightarrow> feed st' bs
      | (Some r, st') \<Rightarrow> (let (rs, st'') = feed st' bs in (r # rs, st'')))"

lemma feed_append:
  "feed st (xs @ ys) = (let (rs, st1) = feed st xs; (ss, st2) = feed st1 ys in (rs @ ss, st2))"
  by (induction xs arbitrary: st) (auto simp: Let_def split: prod.splits option.splits)

lemma request_results:
  "into_string a \<noteq> Inl NeedsMoreData" "into_strings ps \<noteq> Inl NeedsMoreData" "mechanism_parse v \<noteq> Inl NeedsMoreData"
proof -
  show s: "into_string a \<noteq> Inl NeedsMoreData" for a by (simp add: into_string_def split: option.splits)
  show "into_strings ps \<noteq> Inl NeedsMoreData" by (induction ps) (simp_all add: rbind_Inl_iff s)
  show "mechanism_parse v \<noteq> Inl NeedsMoreData" by (simp add: mechanism_parse_def)
qed

lemma finalize_result: "finalize_command cmd n \<noteq> Inl NeedsMoreData"
  by (cases cmd) (simp_all add: finalize_command_def Let_def rbind_Inl_iff request_results)

lemma parse_byte_result: "parse_byte st b = (Some r, st') \<Longrightarrow> r \<noteq> Inl NeedsMoreData \<and> st' = Init"
  using finalize_result
  by (auto simp: parse_byte_def Let_def split: parser_state.splits if_splits sum.splits)

lemma parser_parse_feed:
  "parser_parse st bs = (r, st', bs') \<Longrightarrow>
   feed st bs = (if r = Inl NeedsMoreData then ([], st') else (let (rs, st'') = feed st' bs' in (r # rs, st'')))"
proof (induction st bs rule: parser_parse.induct)
  case (2 st b bs)
  then show ?case using parse_byte_result by (cases "parse_byte st b"; cases "fst (parse_byte st b)") auto
qed auto

lemma parse_all_feed: "parse_all st bs = feed st bs"
proof (induction st bs rule: parse_all.induct)
  case (1 st bs)
  obtain r st' bs' where p: "parser_parse st bs = (r, st', bs')" by (cases "parser_parse st bs") auto
  show ?case using 1 [OF p [symmetric] refl] parser_parse_feed [OF p]
    by (subst parse_all.simps) (auto simp: p)
qed

fun parse_chunks :: "parser_state \<Rightarrow> bytes list \<Rightarrow> (request_error + pop3_command) list \<times> parser_state" where
  "parse_chunks st [] = ([], st)"
| "parse_chunks st (c # cs) =
     (let (rs, st1) = parse_all st c; (ss, st2) = parse_chunks st1 cs in (rs @ ss, st2))"

text \<open>C34: the requests that are read and the state that the parser is left in do not depend on how
  the bytes of the connection are cut into chunks.\<close>

theorem chunking_irrelevant: "parse_chunks st cs = parse_all st (concat cs)"
proof (induction cs arbitrary: st)
  case Nil
  show ?case by (simp add: parse_all_feed)
next
  case (Cons c cs)
  then show ?case by (simp add: parse_all_feed feed_append Let_def split: prod.splits)
qed

subsection \<open>What the parser keeps\<close>

definition args_inv :: "raw_command \<Rightarrow> nat \<Rightarrow> bool" where
  "args_inv cmd num \<longleftrightarrow>
     (case cmd of
        User a \<Rightarrow> num \<le> 1 \<and> length a \<le> MAX_ARG_LEN
      | Pass a \<Rightarrow> num \<le> 1 \<and> length a \<le> MAX_ARG_LEN
      | Apop a d \<Rightarrow> num \<le> 2 \<and> length a \<le> MAX_ARG_LEN \<and> length d \<le> MAX_ARG_LEN
      | Auth m ps \<Rightarrow> num \<le> 4 \<and> length m \<le> 64 \<and> sum_list (map length ps) \<le> MAX_ARG_LEN * 4 \<and> length ps = num - 1
      | List _ \<Rightarrow> num \<le> 1 | Uidl _ \<Rightarrow> num \<le> 1 | Retr _ \<Rightarrow> num \<le> 1 | Dele _ \<Rightarrow> num \<le> 1
      | Top _ _ \<Rightarrow> num \<le> 2
      | DeleMany _ \<Rightarrow> False
      | _ \<Rightarrow> num = 0)"

definition parser_inv :: "parser_state \<Rightarrow> bool" where
  "parser_inv st \<longleftrightarrow>
     (case st of
        Command buf len \<Rightarrow> length buf = 4 \<and> 1 \<le> len \<and> len \<le> 4
      | Argument cmd num sp \<Rightarrow> (sp \<or> 1 \<le> num) \<and> args_inv cmd num
      | _ \<Rightarrow> True)"

definition retained :: "parser_state \<Rightarrow> nat" where
  "retained st =
     (case st of
        Command buf len \<Rightarrow> length buf
      | Argument (User a) _ _ \<Rightarrow> length a
      | Argument (Pass a) _ _ \<Rightarrow> length a
      | Argument (Apop a d) _ _ \<Rightarrow> length a + length d
      | Argument (Auth m ps) _ _ \<Rightarrow> length m + sum_list (map length ps)
      | _ \<Rightarrow> 0)"

lemma push_param_sizes:
  assumes "length ps = num - 1" and "2 \<le> n" and "n = num \<or> n = num + 1"
  shows "length (push_param ps n b) = n - 1"
    and "sum_list (map length (push_param ps n b)) = Suc (sum_list (map length ps))"
proof -
  define qs where "qs = (if length ps < n - 1 then ps @ [[]] else ps)"
  have qs: "length qs = n - 1" "sum_list (map length qs) = sum_list (map length ps)" "qs \<noteq> []"
    using assms by (auto simp: qs_def)
  obtain ys y where y: "qs = ys @ [y]" using qs(3) by (metis rev_exhaust)
  have "push_param ps n b = butlast qs @ [last qs @ [b]]" by (simp only: push_param_def qs_def Let_def)
  then have "push_param ps n b = ys @ [y @ [b]]" by (simp add: y)
  then show "length (push_param ps n b) = n - 1"
    "sum_list (map length (push_param ps n b)) = Suc (sum_list (map length ps))"
    using qs by (simp_all add: y)
qed

lemma update_argument_inv:
  assumes "update_argument cmd n b = Inr cmd'" and "args_inv cmd num" and "1 \<le> n" and "n = num \<or> n = num + 1"
  shows "args_inv cmd' n"
proof (cases cmd)
  case (Auth m ps)
  then show ?thesis using assms push_param_sizes [of ps num n b]
    by (cases "n = 1") (auto simp: update_argument_def args_inv_def split: if_splits)
qed (use assms in \<open>auto simp: update_argument_def args_inv_def rbind_Inr_iff split: if_splits\<close>)

lemma command_parse_inv: "command_parse buf = Inr cmd \<Longrightarrow> args_inv cmd 0"
  by (auto simp: command_parse_def args_inv_def split: if_splits)

lemma parse_byte_inv:
  assumes "parser_inv st" and "parse_byte st b = (r, st')"
  shows "parser_inv st'"
proof (cases st)
  case (Argument cmd num sp)
  let ?n = "if sp then num + 1 else num"
  have inv: "sp \<or> 1 \<le> num" "args_inv cmd num" using assms(1) by (simp_all add: Argument parser_inv_def)
  show ?thesis
  proof (cases "b \<in> {32, 9, 13, 10}")
    case True
    then show ?thesis using assms(2) inv by (auto simp: Argument parse_byte_def parser_inv_def)
  next
    case False
    then have st': "st' = (case update_argument cmd ?n b of Inr c \<Rightarrow> Argument c ?n False | Inl e \<Rightarrow> Error_State e)"
      using assms(2) by (simp add: Argument parse_byte_def Let_def)
    show ?thesis
    proof (cases "update_argument cmd ?n b")
      case (Inr c)
      then have "args_inv c ?n" using inv by (intro update_argument_inv [OF Inr inv(2)]) auto
      then show ?thesis using inv by (auto simp: st' Inr parser_inv_def)
    qed (simp add: st' parser_inv_def)
  qed
next
  case (Command buf len)
  then show ?thesis using assms command_parse_inv [of buf]
    by (auto simp: parse_byte_def parser_inv_def split: if_splits sum.splits)
qed (use assms in \<open>auto simp: parse_byte_def parser_inv_def split: if_splits\<close>)

lemma feed_inv: "parser_inv st \<Longrightarrow> parser_inv (snd (feed st bs))"
proof (induction bs arbitrary: st)
  case (Cons b bs)
  obtain r st' where p: "parse_byte st b = (r, st')" by fastforce
  then show ?case using Cons.IH [OF parse_byte_inv [OF Cons.prems p]] by (cases r) (auto split: prod.splits)
qed simp

lemma retained_bound: "parser_inv st \<Longrightarrow> retained st \<le> 64 + 4 * MAX_ARG_LEN"
  by (auto simp: parser_inv_def args_inv_def retained_def MAX_ARG_LEN_def split: parser_state.splits command.splits)

text \<open>Whatever a client sends, the parser keeps at most 1088 bytes of a request that has not ended,
  its arguments stay within their limits, and a byte is never pushed to a missing parameter.\<close>

theorem parser_bounded:
  assumes "parser_inv st"
  shows "parser_inv (snd (parse_all st bs)) \<and> retained (snd (parse_all st bs)) \<le> 64 + 4 * MAX_ARG_LEN"
  using feed_inv [OF assms] retained_bound by (simp add: parse_all_feed)

theorem parser_bounded_witness:
  "retained (snd (parse_all (Argument (Auth (mechanism_as_str Plain) []) 1 True) (replicate 5000 65))) \<le> 64 + 4 * MAX_ARG_LEN"
proof -
  have "parser_inv (Argument (Auth (mechanism_as_str Plain) []) 1 True)" by code_simp
  from parser_bounded [OF this] show ?thesis by simp
qed

subsection \<open>Commands as clients write them\<close>

text \<open>The text of a command, as RFC 1939 and its extensions give it.\<close>

definition print_command :: "pop3_command \<Rightarrow> bytes" where
  "print_command cmd =
     (case cmd of
        User a \<Rightarrow> ascii ''USER '' @ a
      | Pass a \<Rightarrow> ascii ''PASS '' @ a
      | Apop a d \<Rightarrow> ascii ''APOP '' @ a @ [32] @ d
      | Quit \<Rightarrow> ascii ''QUIT''
      | Stat \<Rightarrow> ascii ''STAT''
      | List m \<Rightarrow> ascii ''LIST'' @ (case m of None \<Rightarrow> [] | Some n \<Rightarrow> 32 # decimal (unat n))
      | Retr n \<Rightarrow> ascii ''RETR '' @ decimal (unat n)
      | Dele n \<Rightarrow> ascii ''DELE '' @ decimal (unat n)
      | DeleMany _ \<Rightarrow> []
      | Noop \<Rightarrow> ascii ''NOOP''
      | Rset \<Rightarrow> ascii ''RSET''
      | Top n k \<Rightarrow> ascii ''TOP '' @ decimal (unat n) @ [32] @ decimal (unat k)
      | Uidl m \<Rightarrow> ascii ''UIDL'' @ (case m of None \<Rightarrow> [] | Some n \<Rightarrow> 32 # decimal (unat n))
      | Capa \<Rightarrow> ascii ''CAPA''
      | Stls \<Rightarrow> ascii ''STLS''
      | Utf8_Enable \<Rightarrow> ascii ''UTF8''
      | Auth m ps \<Rightarrow> ascii ''AUTH '' @ mechanism_as_str m @ concat (map (\<lambda>p. 32 # p) ps))"

definition text_argument :: "bytes \<Rightarrow> bool" where
  "text_argument a \<longleftrightarrow> a \<noteq> [] \<and> set a \<inter> {32, 9, 13, 10} = {} \<and> from_utf8 a \<noteq> None"

text \<open>Arguments within the limits of the parser.\<close>

definition printable :: "pop3_command \<Rightarrow> bool" where
  "printable cmd \<longleftrightarrow>
     (case cmd of
        User a \<Rightarrow> text_argument a \<and> length a \<le> MAX_ARG_LEN
      | Pass a \<Rightarrow> text_argument a \<and> length a \<le> MAX_ARG_LEN
      | Apop a d \<Rightarrow> text_argument a \<and> text_argument d \<and> length a < MAX_ARG_LEN \<and> length d \<le> MAX_ARG_LEN
      | DeleMany _ \<Rightarrow> False
      | Auth m ps \<Rightarrow> length ps \<le> 3 \<and> list_all text_argument ps \<and> sum_list (map length ps) \<le> 4 * MAX_ARG_LEN
      | _ \<Rightarrow> True)"

text \<open>An argument, the parser being in the state \<open>C i\<close> after \<open>i\<close> bytes of it.\<close>

lemma feed_argument_rest:
  assumes "set a \<inter> {32, 9, 13, 10} = {}"
    and "\<And>i. i < length a \<Longrightarrow> update_argument (C (k + i)) n (a ! i) = Inr (C (Suc (k + i)))"
  shows "feed (Argument (C k) n False) (a @ bs) = feed (Argument (C (k + length a)) n False) bs"
  using assms
proof (induction a arbitrary: k)
  case (Cons b a)
  have "update_argument (C k) n b = Inr (C (Suc k))" using Cons.prems(2) [of 0] by simp
  then have "feed (Argument (C k) n False) ((b # a) @ bs) = feed (Argument (C (Suc k)) n False) (a @ bs)"
    using Cons.prems(1) by (simp add: parse_byte_def)
  also have "\<dots> = feed (Argument (C (Suc k + length a)) n False) bs"
    using Cons.prems(1) Cons.prems(2) [of "Suc _"] by (intro Cons.IH) auto
  finally show ?case by simp
qed simp

lemma feed_argument:
  assumes "a \<noteq> []" and "set a \<inter> {32, 9, 13, 10} = {}"
    and "\<And>i. i < length a \<Longrightarrow> update_argument (C i) (Suc n) (a ! i) = Inr (C (Suc i))"
  shows "feed (Argument (C 0) n True) (a @ bs) = feed (Argument (C (length a)) (Suc n) False) bs"
proof -
  obtain b c where a: "a = b # c" using assms(1) by (cases a) auto
  have "update_argument (C 0) (Suc n) b = Inr (C (Suc 0))" using assms(3) [of 0] by (simp add: a)
  then have "feed (Argument (C 0) n True) (a @ bs) = feed (Argument (C (Suc 0)) (Suc n) False) (c @ bs)"
    using assms(2) by (simp add: a parse_byte_def)
  also have "\<dots> = feed (Argument (C (Suc 0 + length c)) (Suc n) False) bs"
    using assms(2) assms(3) [of "Suc _"] by (intro feed_argument_rest) (auto simp: a)
  finally show ?thesis by (simp add: a)
qed

lemma feed_space: "feed (Argument cmd n sp) (32 # bs) = feed (Argument cmd n True) bs"
  by (simp add: parse_byte_def)

lemma feed_end: "feed (Argument cmd n sp) CRLF = ([finalize_command cmd n], Init)"
  by (simp add: CRLF_def parse_byte_def)

text \<open>Numbers.\<close>

definition digits_value :: "bytes \<Rightarrow> nat" where
  "digits_value ds = foldl (\<lambda>a b. a * 10 + unat (b - 48)) 0 ds"

lemma digits_value_grows: "digits_value ds \<le> digits_value (ds @ es)"
proof (induction es rule: rev_induct)
  case (snoc e es)
  then show ?case by (simp add: digits_value_def del: append_assoc add: append_assoc [symmetric])
qed simp

lemma add_digit_prefix:
  assumes "i < length (decimal (unat (n :: u32)))"
  shows "add_digit (of_nat (digits_value (take i (decimal (unat n))))) (decimal (unat n) ! i) =
    Inr (of_nat (digits_value (take (Suc i) (decimal (unat n)))))"
proof -
  let ?ds = "decimal (unat n)"
  have "digits_value (take j ?ds) \<le> unat n" for j
    using digits_value_grows [of "take j ?ds" "drop j ?ds"] decimal_value [of "unat n"] by (simp add: digits_value_def)
  moreover have "unat n < 2 ^ 32" using unat_u32_less [of n] by simp
  ultimately have less: "digits_value (take j ?ds) < 2 ^ 32" for j by (meson le_less_trans)
  have step: "digits_value (take (Suc i) ?ds) = digits_value (take i ?ds) * 10 + unat (?ds ! i - 48)"
    using assms by (simp add: digits_value_def take_Suc_conv_app_nth)
  have "is_ascii_digit (?ds ! i)" using decimal_digits(1) [of "unat n"] assms by (simp add: list_all_length)
  moreover have "unat (of_nat (digits_value (take i ?ds)) :: u32) = digits_value (take i ?ds)"
    using less [of i] by (simp add: unat_of_nat)
  ultimately show ?thesis using less [of "Suc i"] step by (simp add: add_digit_def)
qed

lemma digits_value_decimal: "of_nat (digits_value (decimal (unat n))) = (n :: u32)"
  by (simp add: digits_value_def decimal_value)

lemma decimal_clean: "set (decimal n) \<inter> {32, 9, 13, 10} = {}"
  using decimal_digits(1) [of n] by (auto simp: list_all_iff is_ascii_digit_def)

lemma feed_number:
  assumes "\<And>b. update_argument start (Suc n) b = rbind (add_digit 0 b) (\<lambda>m. Inr (F m))"
    and "\<And>m b. update_argument (F m) (Suc n) b = rbind (add_digit m b) (\<lambda>m. Inr (F m))"
  shows "feed (Argument start n True) (decimal (unat k) @ bs) = feed (Argument (F k) (Suc n) False) bs"
proof -
  let ?ds = "decimal (unat k)"
  let ?C = "\<lambda>i. if i = 0 then start else F (of_nat (digits_value (take i ?ds)))"
  have "update_argument (?C i) (Suc n) (?ds ! i) = Inr (?C (Suc i))" if "i < length ?ds" for i
    using add_digit_prefix [OF that] by (cases i) (simp_all add: assms digits_value_def)
  from feed_argument [OF decimal_digits(2) decimal_clean this]
  show ?thesis using decimal_digits(2) [of "unat k"] by (simp add: digits_value_decimal)
qed

lemma feed_text:
  assumes "text_argument a"
    and "\<And>i. i < length a \<Longrightarrow> update_argument (F (take i a)) (Suc n) (a ! i) = Inr (F (take i a @ [a ! i]))"
  shows "feed (Argument (F []) n True) (a @ bs) = feed (Argument (F a) (Suc n) False) bs"
  using feed_argument [of a "\<lambda>i. F (take i a)" n bs] assms by (simp add: text_argument_def take_Suc_conv_app_nth)

lemma feed_param:
  assumes "text_argument p" and "length mech < 64" and "length ps = n - 1" and "1 \<le> n" and "n \<le> 3"
    and "sum_list (map length ps) + length p \<le> 4 * MAX_ARG_LEN"
  shows "feed (Argument (Auth mech ps) n sp) (32 # p @ bs) = feed (Argument (Auth mech (ps @ [p])) (Suc n) False) bs"
proof -
  let ?C = "\<lambda>i. if i = 0 then Auth mech ps else Auth mech (ps @ [take i p])"
  have "update_argument (?C i) (Suc n) (p ! i) = Inr (?C (Suc i))" if "i < length p" for i
  proof (cases "i = 0")
    case True
    then show ?thesis using assms that by (cases p) (auto simp: update_argument_def push_param_def)
  next
    case False
    then show ?thesis using assms that
      by (auto simp: update_argument_def push_param_def take_Suc_conv_app_nth)
  qed
  from feed_argument [OF _ _ this, of bs]
  show ?thesis using assms(1) unfolding feed_space by (simp add: text_argument_def)
qed

lemma feed_params:
  assumes "list_all text_argument ps" and "length mech < 64" and "length qs + length ps \<le> 3"
    and "sum_list (map length qs) + sum_list (map length ps) \<le> 4 * MAX_ARG_LEN"
  shows "feed (Argument (Auth mech qs) (length qs + 1) False) (concat (map (\<lambda>p. 32 # p) ps) @ bs) =
    feed (Argument (Auth mech (qs @ ps)) (length qs + length ps + 1) False) bs"
  using assms
proof (induction ps arbitrary: qs)
  case (Cons p ps)
  have "feed (Argument (Auth mech qs) (length qs + 1) False) (concat (map (\<lambda>p. 32 # p) (p # ps)) @ bs) =
      feed (Argument (Auth mech (qs @ [p])) (length (qs @ [p]) + 1) False) (concat (map (\<lambda>p. 32 # p) ps) @ bs)"
    using feed_param [of p mech qs "length qs + 1"] Cons.prems by simp
  also have "\<dots> = feed (Argument (Auth mech ((qs @ [p]) @ ps)) (length (qs @ [p]) + length ps + 1) False) bs"
    using Cons.prems by (intro Cons.IH) auto
  finally show ?case by simp
qed simp

lemma keyword_states:
  "feed Init (ascii ''USER '') = ([], Argument (User []) 0 True)"
  "feed Init (ascii ''PASS '') = ([], Argument (Pass []) 0 True)"
  "feed Init (ascii ''APOP '') = ([], Argument (Apop [] []) 0 True)"
  "feed Init (ascii ''LIST '') = ([], Argument (List None) 0 True)"
  "feed Init (ascii ''RETR '') = ([], Argument (Retr 0) 0 True)"
  "feed Init (ascii ''DELE '') = ([], Argument (Dele 0) 0 True)"
  "feed Init (ascii ''TOP '') = ([], Argument (Top 0 0) 0 True)"
  "feed Init (ascii ''UIDL '') = ([], Argument (Uidl None) 0 True)"
  "feed Init (ascii ''AUTH '') = ([], Argument (Auth [] []) 0 True)"
  by code_simp+

lemma keyword_results:
  "feed Init (ascii ''QUIT'' @ CRLF) = ([Inr Quit], Init)" "feed Init (ascii ''STAT'' @ CRLF) = ([Inr Stat], Init)"
  "feed Init (ascii ''NOOP'' @ CRLF) = ([Inr Noop], Init)" "feed Init (ascii ''RSET'' @ CRLF) = ([Inr Rset], Init)"
  "feed Init (ascii ''CAPA'' @ CRLF) = ([Inr Capa], Init)" "feed Init (ascii ''STLS'' @ CRLF) = ([Inr Stls], Init)"
  "feed Init (ascii ''UTF8'' @ CRLF) = ([Inr Utf8_Enable], Init)"
  "feed Init (ascii ''LIST'' @ CRLF) = ([Inr (List None)], Init)"
  "feed Init (ascii ''UIDL'' @ CRLF) = ([Inr (Uidl None)], Init)"
  by code_simp+

lemma feed_keyword: "feed Init kw = ([], st) \<Longrightarrow> feed Init (kw @ bs) = feed st bs"
  by (simp add: feed_append split: prod.splits)

lemma from_utf8_ascii: "list_all (\<lambda>b. b < 0x80) a \<Longrightarrow> from_utf8 a \<noteq> None"
proof -
  assume "list_all (\<lambda>b. b < 0x80) a"
  then have "utf8_chars a = map (\<lambda>b. Some (unat b)) a" by (induction a) (auto simp: utf8_next_def)
  then show ?thesis by (auto simp: from_utf8_def)
qed

lemma mechanism_text:
  "list_all (\<lambda>b. 32 < b \<and> b < 0x80) (mechanism_as_str m)" "mechanism_as_str m \<noteq> []"
  "length (mechanism_as_str m) < 64"
  by (cases m; simp add: mechanism_as_str_def ascii_def)+

lemma mechanism_argument: "text_argument (mechanism_as_str m)"
proof -
  have "set (mechanism_as_str m) \<inter> {32, 9, 13, 10} = {}"
    using mechanism_text(1) [of m] by (auto simp: list_all_iff)
  moreover have "list_all (\<lambda>b. b < 0x80) (mechanism_as_str m)"
    using mechanism_text(1) [of m] by (auto simp: list_all_iff)
  ultimately show ?thesis using from_utf8_ascii mechanism_text(2) by (simp add: text_argument_def)
qed

lemma mechanism_parse_str: "mechanism_parse (mechanism_as_str m) = Inr m"
  by (induction m; code_simp)

lemma into_strings_ok: "list_all text_argument ps \<Longrightarrow> into_strings ps = Inr ps"
  by (induction ps) (auto simp: into_string_def text_argument_def)

lemma text_command:
  "feed Init (ascii ''USER '' @ a @ CRLF) = ([Inr (User a)], Init)"
  "feed Init (ascii ''PASS '' @ a @ CRLF) = ([Inr (Pass a)], Init)"
  if "text_argument a" "length a \<le> MAX_ARG_LEN"
proof -
  have "feed (Argument (User []) 0 True) (a @ CRLF) = feed (Argument (User a) 1 False) CRLF"
    "feed (Argument (Pass []) 0 True) (a @ CRLF) = feed (Argument (Pass a) 1 False) CRLF"
    using feed_text [of a User 0] feed_text [of a Pass 0] that by (simp_all add: update_argument_def)
  then show "feed Init (ascii ''USER '' @ a @ CRLF) = ([Inr (User a)], Init)"
    "feed Init (ascii ''PASS '' @ a @ CRLF) = ([Inr (Pass a)], Init)"
    using that by (auto simp: feed_keyword [OF keyword_states(1)] feed_keyword [OF keyword_states(2)] feed_end
        finalize_command_def into_string_def text_argument_def)
qed

lemma apop_command:
  assumes "text_argument a" and "text_argument d" and "length a < MAX_ARG_LEN" and "length d \<le> MAX_ARG_LEN"
  shows "feed Init (ascii ''APOP '' @ a @ [32] @ d @ CRLF) = ([Inr (Apop a d)], Init)"
proof -
  have "feed (Argument (Apop [] []) 0 True) (a @ 32 # d @ CRLF) = feed (Argument (Apop a []) 1 True) (d @ CRLF)"
    using feed_text [of a "\<lambda>a. Apop a []" 0 "32 # d @ CRLF"] assms(1,3)
    by (simp add: update_argument_def MAX_ARG_LEN_def feed_space del: feed.simps)
  also have "\<dots> = feed (Argument (Apop a d) 2 False) CRLF"
    using feed_text [of d "Apop a" 1 CRLF] assms(2-4) by (simp add: update_argument_def numeral_2_eq_2)
  finally show ?thesis using assms
    by (auto simp: feed_keyword [OF keyword_states(3)] feed_end finalize_command_def into_string_def text_argument_def)
qed

lemma number_commands:
  "feed Init (ascii ''LIST '' @ decimal (unat n) @ CRLF) = ([Inr (List (Some n))], Init)"
  "feed Init (ascii ''RETR '' @ decimal (unat n) @ CRLF) = ([Inr (Retr n)], Init)"
  "feed Init (ascii ''DELE '' @ decimal (unat n) @ CRLF) = ([Inr (Dele n)], Init)"
  "feed Init (ascii ''UIDL '' @ decimal (unat n) @ CRLF) = ([Inr (Uidl (Some n))], Init)"
  by (simp_all add: feed_keyword [OF keyword_states(4)] feed_keyword [OF keyword_states(5)]
      feed_keyword [OF keyword_states(6)] feed_keyword [OF keyword_states(8)]
      feed_number [where F = "\<lambda>m. List (Some m)"] feed_number [where F = Retr] feed_number [where F = Dele]
      feed_number [where F = "\<lambda>m. Uidl (Some m)"] update_argument_def get_or_zero_def feed_end finalize_command_def)

lemma top_command:
  "feed Init (ascii ''TOP '' @ decimal (unat n) @ [32] @ decimal (unat k) @ CRLF) = ([Inr (Top n k)], Init)"
proof -
  have "feed (Argument (Top 0 0) 0 True) (decimal (unat n) @ 32 # decimal (unat k) @ CRLF) =
      feed (Argument (Top n 0) 1 True) (decimal (unat k) @ CRLF)"
    using feed_number [of "Top 0 0" 0 "\<lambda>m. Top m 0"] by (simp add: update_argument_def feed_space del: feed.simps)
  also have "\<dots> = feed (Argument (Top n k) 2 False) CRLF"
    using feed_number [of "Top n 0" 1 "Top n"] by (simp add: update_argument_def numeral_2_eq_2)
  finally show ?thesis by (simp add: feed_keyword [OF keyword_states(7)] feed_end finalize_command_def)
qed

lemma auth_command:
  assumes "list_all text_argument ps" and "length ps \<le> 3" and "sum_list (map length ps) \<le> 4 * MAX_ARG_LEN"
  shows "feed Init (ascii ''AUTH '' @ mechanism_as_str m @ concat (map (\<lambda>p. 32 # p) ps) @ CRLF) = ([Inr (Auth m ps)], Init)"
proof -
  let ?m = "mechanism_as_str m"
  have "feed (Argument (Auth [] []) 0 True) (?m @ bs) = feed (Argument (Auth ?m []) 1 False) bs" for bs
    using feed_text [of ?m "\<lambda>m. Auth m []" 0] mechanism_argument [of m] mechanism_text(3) [of m]
    by (simp add: update_argument_def MAX_ARG_LEN_def)
  moreover have "feed (Argument (Auth ?m []) 1 False) (concat (map (\<lambda>p. 32 # p) ps) @ CRLF) =
      feed (Argument (Auth ?m ps) (length ps + 1) False) CRLF"
    using feed_params [of ps ?m "[]"] assms mechanism_text(3) by simp
  ultimately show ?thesis using assms(1)
    by (simp add: feed_keyword [OF keyword_states(9)] feed_end finalize_command_def mechanism_parse_str into_strings_ok)
qed

text \<open>C31: a command written as the standard says, with arguments within the limits, is read back.\<close>

theorem command_roundtrip:
  assumes "printable cmd"
  shows "parse_all Init (print_command cmd @ CRLF) = ([Inr cmd], Init)"
proof (cases cmd)
  case (List m)
  have k: "ascii ''LIST '' = ascii ''LIST'' @ [32]" by (simp add: ascii_def)
  show ?thesis using keyword_results(8) number_commands(1) [unfolded k]
    by (cases m) (simp_all add: List print_command_def parse_all_feed)
next
  case (Uidl m)
  have k: "ascii ''UIDL '' = ascii ''UIDL'' @ [32]" by (simp add: ascii_def)
  show ?thesis using keyword_results(9) number_commands(4) [unfolded k]
    by (cases m) (simp_all add: Uidl print_command_def parse_all_feed)
qed (use assms text_command apop_command number_commands top_command auth_command keyword_results in
    \<open>simp_all add: printable_def print_command_def parse_all_feed\<close>)

theorem command_roundtrip_witness:
  "parse_all Init (print_command (Auth OAuthBearer [ascii ''dGVzdA'']) @ CRLF) =
     ([Inr (Auth OAuthBearer [ascii ''dGVzdA''])], Init)"
proof -
  have "printable (Auth OAuthBearer [ascii ''dGVzdA''])" by code_simp
  then show ?thesis by (rule command_roundtrip)
qed

text \<open>A line of one or two letters is not answered at its end: the line feed is taken for an invalid
  byte of the command, and the next line is discarded with it.\<close>

lemma short_command_swallows_next:
  assumes "is_lower a" and "is_lower b" and "10 \<notin> set line"
  shows "parse_all Init ([a, b] @ CRLF @ line @ CRLF) = ([Inl (Parse_Error INVALID_COMMAND)], Init)"
proof -
  have "feed (Error_State e) (line @ CRLF) = ([Inl (Parse_Error e)], Init)" for e
    using assms(3) by (induction line) (auto simp: parse_byte_def CRLF_def)
  moreover have "a \<notin> {32, 9, 13, 10}" using assms(1) by (auto simp: is_lower_def)
  ultimately show ?thesis using assms(1,2)
    by (simp add: parse_all_feed CRLF_def parse_byte_def is_lower_def [of 13] is_lower_def [of 10] is_upper_def)
qed

end
