(* ===== verification/Pop3_Session.thy ===== *)
theory Pop3_Session
  imports Pop3_Protocol
begin

section \<open>POP3: sessions\<close>

text \<open>
  Models \<^verbatim>\<open>src/crates/pop3/src/client.rs\<close>, \<^verbatim>\<open>session.rs\<close>,
  \<^verbatim>\<open>lib.rs\<close> and the handlers of \<^verbatim>\<open>src/crates/pop3/src/op\<close>: a session
  reads requests, checks that they are allowed in its state, runs them and writes responses. What
  the session uses of the rest of the server (accounts, limits, mailboxes, blobs, the connection) are
  the functions of \<open>pop3_server\<close>, which work on a state \<open>'w\<close> of the rest of the server. An
  operation ends with a value, with an error, or with a panic (\<open>unreachable!\<close>, \<open>unwrap\<close>).
\<close>

subsection \<open>Errors\<close>

text \<open>The events of errors, as far as a session tells them apart; the rest carries its message.\<close>

datatype event_type =
  Ev_Pop3 | Ev_Network | Ev_Security | Ev_Auth_Failed | Ev_Auth_TooManyAttempts | Ev_Auth_Error
| Ev_ConcurrentRequest | Ev_TooManyRequests | Ev_Other bytes

record trc_err =
  err_event :: event_type
  err_details :: "bytes option"

definition error_of :: "event_type \<Rightarrow> trc_err" where
  "error_of e = \<lparr>err_event = e, err_details = None\<rparr>"

definition with_details :: "event_type \<Rightarrow> string \<Rightarrow> trc_err" where
  "with_details e d = \<lparr>err_event = e, err_details = Some (ascii d)\<rparr>"

definition must_disconnect :: "trc_err \<Rightarrow> bool" where
  "must_disconnect e \<longleftrightarrow>
     err_event e \<in> {Ev_Network, Ev_Auth_TooManyAttempts, Ev_ConcurrentRequest, Ev_TooManyRequests, Ev_Security}"

definition should_write_err :: "trc_err \<Rightarrow> bool" where
  "should_write_err e \<longleftrightarrow> err_event e \<notin> {Ev_Network, Ev_Security}"

definition event_message :: "event_type \<Rightarrow> bytes" where
  "event_message e =
     (case e of
        Ev_Pop3 \<Rightarrow> ascii ''POP3 error''
      | Ev_Network \<Rightarrow> ascii ''Network error''
      | Ev_Security \<Rightarrow> ascii ''Insufficient permissions''
      | Ev_Auth_Failed \<Rightarrow> ascii ''Authentication failed''
      | Ev_Auth_TooManyAttempts \<Rightarrow> ascii ''Too many authentication attempts''
      | Ev_Auth_Error \<Rightarrow> ascii ''Authentication error''
      | Ev_ConcurrentRequest \<Rightarrow> ascii ''Too many concurrent requests''
      | Ev_TooManyRequests \<Rightarrow> ascii ''Too many requests''
      | Ev_Other m \<Rightarrow> m)"

definition serialize_error :: "trc_err \<Rightarrow> bytes" where
  "serialize_error e =
     ascii ''-ERR '' @ (case err_details e of Some d \<Rightarrow> d | None \<Rightarrow> event_message (err_event e)) @ CRLF"

subsection \<open>State\<close>

record message =
  msg_id :: u32
  msg_uid :: u32
  msg_size :: u32
  msg_deleted :: bool

record mailbox =
  mb_messages :: "message list"
  mb_account_id :: u32
  mb_uid_validity :: u32
  mb_total :: u32
  mb_size :: u32

datatype permission = Pop3Authenticate | Pop3List | Pop3Uidl | Pop3Stat | Pop3Retr | Pop3Dele

text \<open>The guard of the concurrency limit that a session holds is left to the limiter.\<close>

datatype 'tok session_state =
  NotAuthenticated u32 "bytes option"
| Authenticated mailbox bool 'tok

record ('w, 'tok) session =
  ss_receiver :: parser_state
  ss_state :: "'tok session_state"
  ss_tls :: bool
  ss_world :: 'w

datatype session_result = Continue | Close | UpgradeTls

datatype 'a outcome = Done 'a | Failed trc_err | Panic

text \<open>What the rest of the server does. A limit that is not configured is \<open>None\<close>; a limiter that
  refuses gives \<open>Some False\<close>.\<close>

record ('w, 'tok) pop3_server =
  sv_write :: "bytes \<Rightarrow> 'w \<Rightarrow> bool \<times> 'w"
  sv_scanner_banned :: "'w \<Rightarrow> (trc_err + bool) \<times> 'w"
  sv_auth_allowed :: "'w \<Rightarrow> (trc_err + unit) \<times> 'w"
  sv_authenticate :: "credentials \<Rightarrow> 'w \<Rightarrow> (trc_err + 'tok) \<times> 'w"
  sv_primary_id :: "'tok \<Rightarrow> u32"
  sv_has_permission :: "'tok \<Rightarrow> permission \<Rightarrow> bool"
  sv_concurrency :: "u32 \<Rightarrow> 'w \<Rightarrow> bool option \<times> 'w"
  sv_rate_requests :: "(bytes \<Rightarrow> 'w \<Rightarrow> (trc_err + bool) \<times> 'w) option"
  sv_fetch_mailbox :: "u32 \<Rightarrow> 'w \<Rightarrow> (trc_err + mailbox) \<times> 'w"
  sv_get_metadata :: "u32 \<Rightarrow> u32 \<Rightarrow> 'w \<Rightarrow> (trc_err + bytes option) \<times> 'w"
  sv_get_blob :: "bytes \<Rightarrow> 'w \<Rightarrow> (trc_err + bytes option) \<times> 'w"
  sv_emails_tombstone :: "u32 \<Rightarrow> u32 set \<Rightarrow> 'w \<Rightarrow> (trc_err + bool \<times> u32 set) \<times> 'w"
  sv_commit_changes :: "u32 \<Rightarrow> 'w \<Rightarrow> 'w"
  sv_allow_plain_auth :: bool
  sv_max_auth_failures :: u32
  sv_base64_decode :: "bytes \<Rightarrow> bytes option"

type_synonym ('w, 'tok, 'a) action = "('w, 'tok) session \<Rightarrow> 'a outcome \<times> ('w, 'tok) session"

definition bind_outcome ::
    "'a outcome \<times> ('w, 'tok) session \<Rightarrow> ('a \<Rightarrow> ('w, 'tok, 'b) action) \<Rightarrow> 'b outcome \<times> ('w, 'tok) session" where
  "bind_outcome r f =
     (case r of (Done x, ss) \<Rightarrow> f x ss | (Failed e, ss) \<Rightarrow> (Failed e, ss) | (Panic, ss) \<Rightarrow> (Panic, ss))"

lemma bind_outcome_simps [simp]:
  "bind_outcome (Done x, ss) f = f x ss"
  "bind_outcome (Failed e, ss) f = (Failed e, ss)"
  "bind_outcome (Panic, ss) f = (Panic, ss)"
  by (simp_all add: bind_outcome_def)

text \<open>A call into the rest of the server.\<close>

definition call :: "('w \<Rightarrow> (trc_err + 'a) \<times> 'w) \<Rightarrow> ('w, 'tok, 'a) action" where
  "call f ss =
     (case f (ss_world ss) of
        (Inl e, w) \<Rightarrow> (Failed e, ss\<lparr>ss_world := w\<rparr>)
      | (Inr x, w) \<Rightarrow> (Done x, ss\<lparr>ss_world := w\<rparr>))"

definition write_bytes :: "('w, 'tok) pop3_server \<Rightarrow> bytes \<Rightarrow> ('w, 'tok, unit) action" where
  "write_bytes srv bs ss =
     (case sv_write srv bs (ss_world ss) of
        (ok, w) \<Rightarrow> (if ok then Done () else Failed (error_of Ev_Network), ss\<lparr>ss_world := w\<rparr>))"

definition write_ok :: "('w, 'tok) pop3_server \<Rightarrow> bytes \<Rightarrow> ('w, 'tok, unit) action" where
  "write_ok srv message ss = write_bytes srv (serialize_response (Ok_Response message)) ss"

text \<open>The answer is whether to go on.\<close>

definition write_err :: "('w, 'tok) pop3_server \<Rightarrow> trc_err \<Rightarrow> ('w, 'tok) session \<Rightarrow> bool \<times> ('w, 'tok) session" where
  "write_err srv e ss =
     (if should_write_err e then
        (case write_bytes srv (serialize_error e) ss of
           (Done (), ss') \<Rightarrow> (\<not> must_disconnect e, ss')
         | (_, ss') \<Rightarrow> (False, ss'))
      else (\<not> must_disconnect e, ss))"

definition state_mailbox :: "('w, 'tok, mailbox) action" where
  "state_mailbox ss = (case ss_state ss of Authenticated mb _ _ \<Rightarrow> (Done mb, ss) | _ \<Rightarrow> (Panic, ss))"

definition set_mailbox :: "mailbox \<Rightarrow> ('w, 'tok) session \<Rightarrow> ('w, 'tok) session" where
  "set_mailbox mb ss =
     (case ss_state ss of Authenticated _ i t \<Rightarrow> ss\<lparr>ss_state := Authenticated mb i t\<rparr> | _ \<Rightarrow> ss)"

definition permission_name :: "permission \<Rightarrow> bytes" where
  "permission_name p =
     (case p of
        Pop3Authenticate \<Rightarrow> ascii ''pop3-authenticate'' | Pop3List \<Rightarrow> ascii ''pop3-list''
      | Pop3Uidl \<Rightarrow> ascii ''pop3-uidl'' | Pop3Stat \<Rightarrow> ascii ''pop3-stat''
      | Pop3Retr \<Rightarrow> ascii ''pop3-retr'' | Pop3Dele \<Rightarrow> ascii ''pop3-dele'')"

definition assert_has_permission :: "('w, 'tok) pop3_server \<Rightarrow> 'tok \<Rightarrow> permission \<Rightarrow> ('w, 'tok, unit) action" where
  "assert_has_permission srv tok p ss =
     (if sv_has_permission srv tok p then Done ()
      else Failed \<lparr>err_event = Ev_Security, err_details = Some (permission_name p)\<rparr>, ss)"

definition assert_permission :: "('w, 'tok) pop3_server \<Rightarrow> permission \<Rightarrow> ('w, 'tok, unit) action" where
  "assert_permission srv p ss =
     (case ss_state ss of
        Authenticated _ _ tok \<Rightarrow> assert_has_permission srv tok p ss
      | _ \<Rightarrow> (Panic, ss))"

subsection \<open>Handlers\<close>

text \<open>\<open>messages.get(msg.saturating_sub(1) as usize)\<close>.\<close>

definition message_index :: "u32 \<Rightarrow> nat" where
  "message_index msg = unat msg - 1"

definition get_message :: "mailbox \<Rightarrow> u32 \<Rightarrow> message option" where
  "get_message mb msg =
     (if message_index msg < length (mb_messages mb) then Some (mb_messages mb ! message_index msg) else None)"

definition handle_capa :: "('w, 'tok) pop3_server \<Rightarrow> ('w, 'tok, unit) action" where
  "handle_capa srv ss =
     write_bytes srv (serialize_response (Capability_Response
       (if ss_tls ss \<or> sv_allow_plain_auth srv then [Plain, OAuthBearer] else [OAuthBearer]) (\<not> ss_tls ss))) ss"

definition handle_stls :: "('w, 'tok) pop3_server \<Rightarrow> ('w, 'tok, unit) action" where
  "handle_stls srv ss = write_ok srv (ascii ''Begin TLS negotiation now'') ss"

definition handle_utf8 :: "('w, 'tok) pop3_server \<Rightarrow> ('w, 'tok, unit) action" where
  "handle_utf8 srv ss = write_ok srv (ascii ''UTF8 enabled'') ss"

definition handle_fetch :: "('w, 'tok) pop3_server \<Rightarrow> u32 \<Rightarrow> u32 option \<Rightarrow> ('w, 'tok, unit) action" where
  "handle_fetch srv msg lines ss =
     bind_outcome (assert_permission srv Pop3Retr ss) (\<lambda>_ ss.
     bind_outcome (state_mailbox ss) (\<lambda>mb ss.
       case get_message mb msg of
         None \<Rightarrow> (Failed (with_details Ev_Pop3 ''No such message.''), ss)
       | Some m \<Rightarrow>
           let missing = Failed (with_details Ev_Pop3 ''Failed to fetch message. Perhaps another session deleted it?'')
           in bind_outcome (call (sv_get_metadata srv (mb_account_id mb) (msg_id m)) ss) (\<lambda>metadata ss.
             case metadata of
               None \<Rightarrow> (missing, ss)
             | Some hash \<Rightarrow>
                 bind_outcome (call (sv_get_blob srv hash) ss) (\<lambda>blob ss.
                   case blob of
                     None \<Rightarrow> (missing, ss)
                   | Some bs \<Rightarrow>
                       write_bytes srv (serialize_response (Message_Response bs (get_or_zero lines))) ss))))"

definition handle_list :: "('w, 'tok) pop3_server \<Rightarrow> u32 option \<Rightarrow> ('w, 'tok, unit) action" where
  "handle_list srv msg ss =
     bind_outcome (assert_permission srv Pop3List ss) (\<lambda>_ ss.
     bind_outcome (state_mailbox ss) (\<lambda>mb ss.
       case msg of
         Some n \<Rightarrow>
           (case get_message mb n of
              Some m \<Rightarrow> write_ok srv (decimal (unat n) @ [32] @ decimal (unat (msg_size m))) ss
            | None \<Rightarrow> (Failed (with_details Ev_Pop3 ''No such message.''), ss))
       | None \<Rightarrow>
           write_bytes srv (serialize_response (List_Response
             (map (\<lambda>m. decimal (unat (msg_size m))) (mb_messages mb)))) ss))"

definition unique_id :: "mailbox \<Rightarrow> message \<Rightarrow> bytes" where
  "unique_id mb m = decimal (unat (mb_uid_validity mb)) @ decimal (unat (msg_uid m))"

definition handle_uidl :: "('w, 'tok) pop3_server \<Rightarrow> u32 option \<Rightarrow> ('w, 'tok, unit) action" where
  "handle_uidl srv msg ss =
     bind_outcome (assert_permission srv Pop3Uidl ss) (\<lambda>_ ss.
     bind_outcome (state_mailbox ss) (\<lambda>mb ss.
       case msg of
         Some n \<Rightarrow>
           (case get_message mb n of
              Some m \<Rightarrow> write_ok srv (decimal (unat n) @ [32] @ unique_id mb m) ss
            | None \<Rightarrow> (Failed (with_details Ev_Pop3 ''No such message.''), ss))
       | None \<Rightarrow>
           write_bytes srv (serialize_response (List_Response (map (unique_id mb) (mb_messages mb)))) ss))"

definition handle_stat :: "('w, 'tok) pop3_server \<Rightarrow> ('w, 'tok, unit) action" where
  "handle_stat srv ss =
     bind_outcome (assert_permission srv Pop3Stat ss) (\<lambda>_ ss.
     bind_outcome (state_mailbox ss) (\<lambda>mb ss.
       write_ok srv (decimal (unat (mb_total mb)) @ [32] @ decimal (unat (mb_size mb))) ss))"

fun delete_messages :: "u32 list \<Rightarrow> message list \<Rightarrow> bytes \<times> message list" where
  "delete_messages [] ms = ([], ms)"
| "delete_messages (msg # msgs) ms =
     (let i = message_index msg;
          (line, ms') =
            (if i < length ms then
               if \<not> msg_deleted (ms ! i) then
                 (ascii ''+OK message '' @ decimal (unat msg) @ ascii '' deleted'' @ CRLF,
                  ms[i := (ms ! i)\<lparr>msg_deleted := True\<rparr>])
               else (ascii ''-ERR message '' @ decimal (unat msg) @ ascii '' already deleted'' @ CRLF, ms)
             else (ascii ''-ERR no such message'' @ CRLF, ms));
          (lines, ms'') = delete_messages msgs ms'
      in (line @ lines, ms''))"

definition handle_dele :: "('w, 'tok) pop3_server \<Rightarrow> u32 list \<Rightarrow> ('w, 'tok, unit) action" where
  "handle_dele srv msgs ss =
     bind_outcome (assert_permission srv Pop3Dele ss) (\<lambda>_ ss.
     bind_outcome (state_mailbox ss) (\<lambda>mb ss.
       let (resp, ms) = delete_messages msgs (mb_messages mb)
       in write_bytes srv resp (set_mailbox (mb\<lparr>mb_messages := ms\<rparr>) ss)))"

definition handle_rset :: "('w, 'tok) pop3_server \<Rightarrow> ('w, 'tok, unit) action" where
  "handle_rset srv ss =
     bind_outcome (state_mailbox ss) (\<lambda>mb ss.
       write_ok srv (decimal (length (filter msg_deleted (mb_messages mb))) @ ascii '' messages undeleted'')
         (set_mailbox (mb\<lparr>mb_messages := map (\<lambda>m. m\<lparr>msg_deleted := False\<rparr>) (mb_messages mb)\<rparr>) ss))"

definition marked_ids :: "mailbox \<Rightarrow> u32 set" where
  "marked_ids mb = set (map msg_id (filter msg_deleted (mb_messages mb)))"

definition handle_quit :: "('w, 'tok) pop3_server \<Rightarrow> ('w, 'tok, unit) action" where
  "handle_quit srv ss =
     (case ss_state ss of
        Authenticated mb _ _ \<Rightarrow>
          let deleted = marked_ids mb
          in if deleted \<noteq> {} then
               bind_outcome (call (sv_emails_tombstone srv (mb_account_id mb) deleted) ss) (\<lambda>(changed, not_deleted) ss.
                 let ss' = (if changed then ss\<lparr>ss_world := sv_commit_changes srv (mb_account_id mb) (ss_world ss)\<rparr> else ss)
                 in if not_deleted = {} then
                      write_ok srv (ascii ''Stalwart POP3 bids you farewell ('' @ decimal (card deleted) @
                        ascii '' messages deleted).'') ss'
                    else write_bytes srv (serialize_response (Err_Response
                        (ascii ''Some messages could not be deleted''))) ss')
             else write_ok srv (ascii ''Stalwart POP3 bids you farewell (no messages deleted).'') ss
      | _ \<Rightarrow> write_ok srv (ascii ''Stalwart POP3 bids you farewell.'') ss)"

text \<open>The change of the state by a failed authentication, and the error that is returned.\<close>

definition auth_failure :: "u32 \<Rightarrow> trc_err \<Rightarrow> 'tok session_state \<Rightarrow> trc_err \<times> 'tok session_state" where
  "auth_failure max_failures e st =
     (if err_event e = Ev_Auth_Failed then
        (case st of
           NotAuthenticated auth_failures username \<Rightarrow>
             if auth_failures < max_failures then (e, NotAuthenticated (auth_failures + 1) username)
             else (error_of Ev_Auth_TooManyAttempts, st)
         | _ \<Rightarrow> (error_of Ev_Auth_TooManyAttempts, st))
      else (e, st))"

definition handle_auth :: "('w, 'tok) pop3_server \<Rightarrow> credentials \<Rightarrow> ('w, 'tok, unit) action" where
  "handle_auth srv credentials ss =
     bind_outcome (call (sv_auth_allowed srv) ss) (\<lambda>_ ss.
       case sv_authenticate srv credentials (ss_world ss) of
         (Inl e, w) \<Rightarrow>
           let (e', st) = auth_failure (sv_max_auth_failures srv) e (ss_state ss)
           in (Failed e', ss\<lparr>ss_state := st, ss_world := w\<rparr>)
       | (Inr tok, w) \<Rightarrow>
           bind_outcome (assert_has_permission srv tok Pop3Authenticate (ss\<lparr>ss_world := w\<rparr>)) (\<lambda>_ ss.
             case sv_concurrency srv (sv_primary_id srv tok) (ss_world ss) of
               (Some False, w) \<Rightarrow> (Failed (error_of Ev_ConcurrentRequest), ss\<lparr>ss_world := w\<rparr>)
             | (limited, w) \<Rightarrow>
                 bind_outcome (call (sv_fetch_mailbox srv (sv_primary_id srv tok)) (ss\<lparr>ss_world := w\<rparr>)) (\<lambda>mb ss.
                   write_ok srv (ascii ''Authentication successful'')
                     (ss\<lparr>ss_state := Authenticated mb (limited \<noteq> None) tok\<rparr>))))"

definition handle_sasl :: "('w, 'tok) pop3_server \<Rightarrow> mechanism \<Rightarrow> bytes list \<Rightarrow> ('w, 'tok, unit) action" where
  "handle_sasl srv mech params ss =
     (if mech = Plain \<or> mech = OAuthBearer then
        if params \<noteq> [] then
          (case Option.bind (sv_base64_decode srv (last params))
                  (if mech = Plain then sasl_decode_challenge_plain else sasl_decode_challenge_oauth) of
             None \<Rightarrow> (Failed (with_details Ev_Auth_Error ''Invalid SASL challenge''), ss)
           | Some credentials \<Rightarrow> handle_auth srv credentials ss)
        else
          write_bytes srv (ascii ''+'' @ CRLF)
            (ss\<lparr>ss_receiver := Argument (Auth (mechanism_as_str mech) []) 1 True\<rparr>)
      else (Failed (with_details Ev_Auth_Error ''Authentication mechanism not supported.''), ss))"

subsection \<open>Requests\<close>

definition validate_request :: "('w, 'tok) pop3_server \<Rightarrow> pop3_command \<Rightarrow> ('w, 'tok, pop3_command) action" where
  "validate_request srv cmd ss =
     (let pop3_err = (\<lambda>d. (Failed (with_details Ev_Pop3 d), ss));
          plain = (case ss_state ss of
              NotAuthenticated _ username \<Rightarrow>
                if ss_tls ss \<or> sv_allow_plain_auth srv then
                  if (case cmd of Pass _ \<Rightarrow> username \<noteq> None | _ \<Rightarrow> True) then (Done cmd, ss)
                  else pop3_err ''Username was not provided.''
                else pop3_err ''Cannot authenticate over plain-text.''
            | _ \<Rightarrow> pop3_err ''Already authenticated.'');
          transaction = (case ss_state ss of
              Authenticated mb _ _ \<Rightarrow>
                (case sv_rate_requests srv of
                   Some rate_allowed \<Rightarrow>
                     bind_outcome (call (rate_allowed (ascii ''ireq:'' @ decimal (unat (mb_account_id mb)))) ss)
                       (\<lambda>allowed ss. if allowed then (Done cmd, ss) else (Failed (error_of Ev_TooManyRequests), ss))
                 | None \<Rightarrow> (Done cmd, ss))
            | _ \<Rightarrow> pop3_err ''Not authenticated.'')
      in case cmd of
           Capa \<Rightarrow> (Done cmd, ss)
         | Quit \<Rightarrow> (Done cmd, ss)
         | Noop \<Rightarrow> (Done cmd, ss)
         | User _ \<Rightarrow> plain
         | Pass _ \<Rightarrow> plain
         | Apop _ _ \<Rightarrow> plain
         | Auth m _ \<Rightarrow>
             if m = Plain then plain
             else (case ss_state ss of NotAuthenticated _ _ \<Rightarrow> (Done cmd, ss) | _ \<Rightarrow> pop3_err ''Already authenticated.'')
         | Stls \<Rightarrow> if \<not> ss_tls ss then (Done cmd, ss) else pop3_err ''Already in TLS mode.''
         | _ \<Rightarrow> transaction)"

text \<open>The handler of a command that has been validated.\<close>

definition run_command :: "('w, 'tok) pop3_server \<Rightarrow> pop3_command \<Rightarrow> ('w, 'tok, session_result) action" where
  "run_command srv cmd ss =
     (let continue = (\<lambda>r. bind_outcome r (\<lambda>_ ss. (Done Continue, ss)))
      in case cmd of
           User name \<Rightarrow>
             (case ss_state ss of
                NotAuthenticated f _ \<Rightarrow>
                  continue (write_ok srv (name @ ascii '' is a valid mailbox'')
                    (ss\<lparr>ss_state := NotAuthenticated f (Some name)\<rparr>))
              | _ \<Rightarrow> (Panic, ss))
         | Pass string \<Rightarrow>
             (case ss_state ss of
                NotAuthenticated f (Some username) \<Rightarrow>
                  continue (handle_auth srv (Plain_Credentials username string)
                    (ss\<lparr>ss_state := NotAuthenticated f None\<rparr>))
              | _ \<Rightarrow> (Panic, ss))
         | Quit \<Rightarrow> bind_outcome (handle_quit srv ss) (\<lambda>_ ss. (Done Close, ss))
         | Stat \<Rightarrow> continue (handle_stat srv ss)
         | List msg \<Rightarrow> continue (handle_list srv msg ss)
         | Retr msg \<Rightarrow> continue (handle_fetch srv msg None ss)
         | Dele msg \<Rightarrow> continue (handle_dele srv [msg] ss)
         | DeleMany msgs \<Rightarrow> continue (handle_dele srv msgs ss)
         | Top msg n \<Rightarrow> continue (handle_fetch srv msg (Some n) ss)
         | Uidl msg \<Rightarrow> continue (handle_uidl srv msg ss)
         | Noop \<Rightarrow> continue (write_ok srv (ascii ''NOOP'') ss)
         | Rset \<Rightarrow> continue (handle_rset srv ss)
         | Capa \<Rightarrow> continue (handle_capa srv ss)
         | Stls \<Rightarrow> bind_outcome (handle_stls srv ss) (\<lambda>_ ss. (Done UpgradeTls, ss))
         | Utf8_Enable \<Rightarrow> continue (handle_utf8 srv ss)
         | Auth mech params \<Rightarrow> continue (handle_sasl srv mech params ss)
         | Apop _ _ \<Rightarrow> (Failed (with_details Ev_Pop3 ''APOP not supported.''), ss))"

text \<open>Deletions that follow each other are grouped.\<close>

definition push_request :: "pop3_command \<Rightarrow> (trc_err + pop3_command) list \<Rightarrow> (trc_err + pop3_command) list" where
  "push_request cmd requests =
     (case cmd of
        Dele msg \<Rightarrow>
          if requests = [] then [Inr cmd]
          else (case last requests of
                  Inr (DeleMany msgs) \<Rightarrow> butlast requests @ [Inr (DeleMany (msgs @ [msg]))]
                | Inr (Dele other) \<Rightarrow> butlast requests @ [Inr (DeleMany [other, msg])]
                | _ \<Rightarrow> requests @ [Inr cmd])
      | _ \<Rightarrow> requests @ [Inr cmd])"

text \<open>The requests in the bytes that have arrived; \<open>None\<close> when the client has been banned.\<close>

function collect_requests ::
    "('w, 'tok) pop3_server \<Rightarrow> bytes \<Rightarrow> (trc_err + pop3_command) list \<Rightarrow> ('w, 'tok) session \<Rightarrow>
     (trc_err + pop3_command) list option \<times> ('w, 'tok) session" where
  "collect_requests srv bs requests ss =
     (case parser_parse (ss_receiver ss) bs of
        (Inr cmd, st, bs') \<Rightarrow> collect_requests srv bs' (push_request cmd requests) (ss\<lparr>ss_receiver := st\<rparr>)
      | (Inl NeedsMoreData, st, bs') \<Rightarrow> (Some requests, ss\<lparr>ss_receiver := st\<rparr>)
      | (Inl (Parse_Error e), st, bs') \<Rightarrow>
          let ss1 = ss\<lparr>ss_receiver := st\<rparr>;
              requests' = requests @ [Inl \<lparr>err_event = Ev_Pop3, err_details = Some e\<rparr>]
          in (case ss_state ss1 of
                NotAuthenticated _ _ \<Rightarrow>
                  (case sv_scanner_banned srv (ss_world ss1) of
                     (Inr True, w) \<Rightarrow> (None, ss1\<lparr>ss_world := w\<rparr>)
                   | (_, w) \<Rightarrow> collect_requests srv bs' requests' (ss1\<lparr>ss_world := w\<rparr>))
              | _ \<Rightarrow> collect_requests srv bs' requests' ss1))"
  by pat_completeness auto
termination
  by (relation "measure (\<lambda>(srv, bs, requests, ss). length bs)")
    (auto dest: parser_parse_length)

declare collect_requests.simps [simp del]

fun run_requests ::
    "('w, 'tok) pop3_server \<Rightarrow> (trc_err + pop3_command) list \<Rightarrow> ('w, 'tok, session_result) action" where
  "run_requests srv [] ss = (Done Continue, ss)"
| "run_requests srv (request # requests) ss =
     (case (case request of
              Inr cmd \<Rightarrow> bind_outcome (validate_request srv cmd ss) (run_command srv)
            | Inl e \<Rightarrow> (Failed e, ss)) of
        (Done Continue, ss') \<Rightarrow> run_requests srv requests ss'
      | (Done r, ss') \<Rightarrow> (Done r, ss')
      | (Panic, ss') \<Rightarrow> (Panic, ss')
      | (Failed e, ss') \<Rightarrow>
          (case write_err srv e ss' of
             (True, ss'') \<Rightarrow> run_requests srv requests ss''
           | (False, ss'') \<Rightarrow> (Done Close, ss'')))"

definition ingest :: "('w, 'tok) pop3_server \<Rightarrow> bytes \<Rightarrow> ('w, 'tok, session_result) action" where
  "ingest srv bs ss =
     (case collect_requests srv bs [] ss of
        (None, ss') \<Rightarrow> (Done Close, ss')
      | (Some requests, ss') \<Rightarrow> run_requests srv requests ss')"

subsection \<open>Connections\<close>

text \<open>What a session waits for: bytes (none when the connection has been closed), an error, the time
  limit, or the end of the server.\<close>

datatype conn_event = Received bytes | Read_Failed | Timed_Out | Shutdown

definition write_quietly :: "('w, 'tok) pop3_server \<Rightarrow> bytes \<Rightarrow> ('w, 'tok) session \<Rightarrow> ('w, 'tok) session" where
  "write_quietly srv bs ss = snd (write_bytes srv bs ss)"

text \<open>The answer is whether the connection is to be upgraded. It is \<open>None\<close> after a panic, and the
  events that were not used are returned; the loop waits when there are none.\<close>

fun handle_conn ::
    "('w, 'tok) pop3_server \<Rightarrow> conn_event list \<Rightarrow> ('w, 'tok) session \<Rightarrow>
     bool option \<times> conn_event list \<times> ('w, 'tok) session" where
  "handle_conn srv [] ss = (Some False, [], ss)"
| "handle_conn srv (ev # evs) ss =
     (case ev of
        Received bs \<Rightarrow>
          if bs \<noteq> [] then
            (case ingest srv bs ss of
               (Done Continue, ss') \<Rightarrow> handle_conn srv evs ss'
             | (Done UpgradeTls, ss') \<Rightarrow> (Some True, evs, ss')
             | (Done Close, ss') \<Rightarrow> (Some False, evs, ss')
             | (_, ss') \<Rightarrow> (None, evs, ss'))
          else (Some False, evs, ss)
      | Read_Failed \<Rightarrow> (Some False, evs, ss)
      | Timed_Out \<Rightarrow> (Some False, evs, write_quietly srv (ascii ''-ERR Connection timed out.'' @ CRLF) ss)
      | Shutdown \<Rightarrow> (Some False, evs, write_quietly srv (ascii ''* BYE Server shutting down.'' @ CRLF) ss))"

definition into_tls :: "('w, 'tok) session \<Rightarrow> ('w, 'tok) session" where
  "into_tls ss = ss\<lparr>ss_tls := True\<rparr>"

definition start_session :: "bool \<Rightarrow> 'w \<Rightarrow> ('w, 'tok) session" where
  "start_session tls w =
     \<lparr>ss_receiver = Init, ss_state = NotAuthenticated 0 None, ss_tls = tls, ss_world = w\<rparr>"

definition SERVER_GREETING :: bytes where
  "SERVER_GREETING = ascii ''+OK Stalwart POP3 at your service.'' @ CRLF"

text \<open>\<open>acceptor\<close> is whether the listener has TLS, \<open>accepted\<close> whether the handshake succeeds.\<close>

definition handle_session ::
    "('w, 'tok) pop3_server \<Rightarrow> bool \<Rightarrow> bool \<Rightarrow> conn_event list \<Rightarrow> ('w, 'tok) session \<Rightarrow> ('w, 'tok) session" where
  "handle_session srv acceptor accepted evs ss =
     (case write_bytes srv SERVER_GREETING ss of
        (Done (), ss1) \<Rightarrow>
          (case handle_conn srv evs ss1 of
             (Some True, evs', ss2) \<Rightarrow>
               if acceptor \<and> accepted then snd (snd (handle_conn srv evs' (into_tls ss2))) else ss2
           | (_, _, ss2) \<Rightarrow> ss2)
      | (_, ss1) \<Rightarrow> ss1)"

subsection \<open>No session panics\<close>

lemma write_bytes_not_panic [simp]: "fst (write_bytes srv bs ss) \<noteq> Panic"
  by (simp add: write_bytes_def split: prod.splits)

lemma write_ok_not_panic [simp]: "fst (write_ok srv m ss) \<noteq> Panic"
  by (simp add: write_ok_def)

lemma call_not_panic [simp]: "fst (call f ss) \<noteq> Panic"
  by (simp add: call_def split: prod.splits sum.splits)

lemma bind_outcome_panic:
  "fst (bind_outcome r f) = Panic \<longleftrightarrow> fst r = Panic \<or> (\<exists>x. fst r = Done x \<and> fst (f x (snd r)) = Panic)"
  by (cases r; cases "fst r") auto

text \<open>What an operation leaves of the session: the operations of the transaction state need one that
  is authenticated.\<close>

definition is_authenticated :: "('w, 'tok) session \<Rightarrow> bool" where
  "is_authenticated ss \<longleftrightarrow> (\<exists>mb i t. ss_state ss = Authenticated mb i t)"

lemma assert_permission_authenticated:
  "is_authenticated ss \<Longrightarrow> fst (assert_permission srv p ss) \<noteq> Panic \<and> snd (assert_permission srv p ss) = ss"
  by (auto simp: is_authenticated_def assert_permission_def assert_has_permission_def split: if_splits)

lemma state_mailbox_authenticated: "is_authenticated ss \<Longrightarrow> fst (state_mailbox ss) \<noteq> Panic \<and> snd (state_mailbox ss) = ss"
  by (auto simp: is_authenticated_def state_mailbox_def)

lemmas transaction_panic = bind_outcome_panic assert_permission_authenticated state_mailbox_authenticated

lemma transaction_not_panic:
  assumes "is_authenticated ss"
  shows "fst (handle_fetch srv msg lines ss) \<noteq> Panic" "fst (handle_list srv m ss) \<noteq> Panic"
    "fst (handle_uidl srv m ss) \<noteq> Panic" "fst (handle_stat srv ss) \<noteq> Panic"
    "fst (handle_dele srv msgs ss) \<noteq> Panic" "fst (handle_rset srv ss) \<noteq> Panic"
  using assms
  by (auto simp: handle_fetch_def handle_list_def handle_uidl_def handle_stat_def handle_dele_def handle_rset_def
      transaction_panic Let_def split: option.splits prod.splits)

lemma handle_quit_not_panic [simp]: "fst (handle_quit srv ss) \<noteq> Panic"
  by (auto simp: handle_quit_def bind_outcome_panic Let_def split: session_state.splits)

lemma handle_auth_not_panic [simp]: "fst (handle_auth srv c ss) \<noteq> Panic"
  by (auto simp: handle_auth_def bind_outcome_panic Let_def assert_has_permission_def
      split: prod.splits sum.splits option.splits bool.splits)

lemma handle_sasl_not_panic [simp]: "fst (handle_sasl srv m ps ss) \<noteq> Panic"
  by (auto simp: handle_sasl_def split: option.splits)

text \<open>What validation leaves and what it guarantees.\<close>

lemma validate_request_frame:
  "ss_state (snd (validate_request srv cmd ss)) = ss_state ss"
  "ss_tls (snd (validate_request srv cmd ss)) = ss_tls ss"
  "ss_receiver (snd (validate_request srv cmd ss)) = ss_receiver ss"
  by (auto simp: validate_request_def Let_def call_def bind_outcome_def
      split: command.splits session_state.splits option.splits prod.splits sum.splits outcome.splits)

definition transaction_command :: "pop3_command \<Rightarrow> bool" where
  "transaction_command cmd \<longleftrightarrow>
     (case cmd of List _ \<Rightarrow> True | Retr _ \<Rightarrow> True | Dele _ \<Rightarrow> True | DeleMany _ \<Rightarrow> True | Top _ _ \<Rightarrow> True | Uidl _ \<Rightarrow> True
      | Utf8_Enable \<Rightarrow> True | Stat \<Rightarrow> True | Rset \<Rightarrow> True | _ \<Rightarrow> False)"

lemma validate_request_ok:
  assumes "fst (validate_request srv cmd ss) = Done cmd'"
  shows "cmd' = cmd" and "transaction_command cmd \<Longrightarrow> is_authenticated ss"
    and "cmd = User n \<Longrightarrow> \<exists>f u. ss_state ss = NotAuthenticated f u"
    and "cmd = Pass p \<Longrightarrow> \<exists>f u. ss_state ss = NotAuthenticated f (Some u)"
  using assms
  by (auto simp: validate_request_def Let_def transaction_command_def is_authenticated_def bind_outcome_def
      split: command.splits session_state.splits option.splits prod.splits outcome.splits if_splits)

lemma run_command_not_panic:
  assumes "fst (validate_request srv cmd ss) = Done cmd'"
  shows "fst (run_command srv cmd' (snd (validate_request srv cmd ss))) \<noteq> Panic"
proof -
  let ?ss = "snd (validate_request srv cmd ss)"
  note ok = validate_request_ok [OF assms]
  have auth: "is_authenticated ?ss" if "transaction_command cmd"
    using ok(2) [OF that] by (simp add: is_authenticated_def validate_request_frame)
  show ?thesis
  proof (cases "transaction_command cmd")
    case True
    then show ?thesis using ok(1) transaction_not_panic [OF auth [OF True]]
      by (cases cmd) (simp_all add: run_command_def Let_def bind_outcome_panic transaction_command_def handle_utf8_def)
  next
    case False
    then show ?thesis using ok(1,3,4) validate_request_frame(1) [of srv cmd ss]
      by (cases cmd) (auto simp: run_command_def Let_def bind_outcome_panic transaction_command_def handle_capa_def
          handle_stls_def)
  qed
qed

lemma run_requests_not_panic: "fst (run_requests srv requests ss) \<noteq> Panic"
proof (induction requests arbitrary: ss)
  case (Cons request requests)
  let ?r = "case request of Inr cmd \<Rightarrow> bind_outcome (validate_request srv cmd ss) (run_command srv) | Inl e \<Rightarrow> (Failed e, ss)"
  have "fst ?r \<noteq> Panic"
  proof (cases request)
    case (Inr cmd)
    have "fst (validate_request srv cmd ss) \<noteq> Panic"
      by (auto simp: validate_request_def Let_def bind_outcome_panic
          split: command.splits session_state.splits option.splits)
    then show ?thesis using run_command_not_panic [of srv cmd ss] by (auto simp: Inr bind_outcome_panic)
  qed simp
  then show ?case using Cons.IH
    by (cases ?r; cases "fst ?r") (auto split: session_result.splits prod.splits bool.splits)
qed simp

lemma ingest_not_panic: "fst (ingest srv bs ss) \<noteq> Panic"
  using run_requests_not_panic by (auto simp: ingest_def split: prod.splits option.splits)

subsection \<open>How a session evolves\<close>

definition same_messages :: "mailbox \<Rightarrow> mailbox \<Rightarrow> bool" where
  "same_messages mb mb' \<longleftrightarrow>
     map (\<lambda>m. m\<lparr>msg_deleted := False\<rparr>) (mb_messages mb') = map (\<lambda>m. m\<lparr>msg_deleted := False\<rparr>) (mb_messages mb) \<and>
     mb' = mb\<lparr>mb_messages := mb_messages mb'\<rparr>"

lemma same_messages_refl [simp]: "same_messages mb mb"
  by (simp add: same_messages_def)

lemma same_messages_trans: "same_messages a b \<Longrightarrow> same_messages b c \<Longrightarrow> same_messages a c"
  by (metis (no_types, lifting) same_messages_def mailbox.surjective mailbox.update_convs(1))

lemma delete_messages_same:
  "map (\<lambda>m. m\<lparr>msg_deleted := False\<rparr>) (snd (delete_messages msgs ms)) = map (\<lambda>m. m\<lparr>msg_deleted := False\<rparr>) ms"
proof (induction msgs arbitrary: ms)
  case (Cons msg msgs)
  have "map (\<lambda>m. m\<lparr>msg_deleted := False\<rparr>) (ms[i := (ms ! i)\<lparr>msg_deleted := True\<rparr>]) = map (\<lambda>m. m\<lparr>msg_deleted := False\<rparr>) ms" for i
    by (cases "i < length ms") (simp_all add: map_update list_update_same_conv list_update_beyond)
  then show ?case using Cons.IH by (simp add: Let_def split: prod.splits) (metis snd_conv)
qed simp

text \<open>A session was authenticated by the server, for a user that may use POP3, and its mailbox is the
  one that was fetched for that user, up to the marks of deleted messages.\<close>

definition granted :: "('w, 'tok) pop3_server \<Rightarrow> 'tok \<Rightarrow> mailbox \<Rightarrow> bool" where
  "granted srv tok mb \<longleftrightarrow>
     (\<exists>c w w'. sv_authenticate srv c w = (Inr tok, w')) \<and> sv_has_permission srv tok Pop3Authenticate \<and>
     (\<exists>mb0 w w'. sv_fetch_mailbox srv (sv_primary_id srv tok) w = (Inr mb0, w') \<and> same_messages mb0 mb)"

definition state_inv :: "('w, 'tok) pop3_server \<Rightarrow> 'tok session_state \<Rightarrow> bool" where
  "state_inv srv st \<longleftrightarrow>
     (case st of
        NotAuthenticated f _ \<Rightarrow> f \<le> sv_max_auth_failures srv
      | Authenticated mb _ tok \<Rightarrow> granted srv tok mb)"

definition state_evolves :: "('w, 'tok) pop3_server \<Rightarrow> 'tok session_state \<Rightarrow> 'tok session_state \<Rightarrow> bool" where
  "state_evolves srv st st' \<longleftrightarrow>
     (state_inv srv st \<longrightarrow> state_inv srv st') \<and>
     (\<forall>mb i tok. st = Authenticated mb i tok \<longrightarrow> (\<exists>mb'. st' = Authenticated mb' i tok \<and> same_messages mb mb'))"

definition evolves :: "('w, 'tok) pop3_server \<Rightarrow> ('w, 'tok) session \<Rightarrow> ('w, 'tok) session \<Rightarrow> bool" where
  "evolves srv ss ss' \<longleftrightarrow>
     state_evolves srv (ss_state ss) (ss_state ss') \<and> ss_tls ss' = ss_tls ss \<and>
     (parser_inv (ss_receiver ss) \<longrightarrow> parser_inv (ss_receiver ss'))"

lemma state_evolves_refl [simp]: "state_evolves srv st st"
  by (simp add: state_evolves_def)

lemma evolves_refl [simp]: "evolves srv ss ss"
  by (simp add: evolves_def)

lemma evolves_trans: "evolves srv a b \<Longrightarrow> evolves srv b c \<Longrightarrow> evolves srv a c"
proof -
  assume ab: "evolves srv a b" and bc: "evolves srv b c"
  have "state_evolves srv (ss_state a) (ss_state c)"
    unfolding state_evolves_def
  proof (intro conjI allI impI)
    show "state_inv srv (ss_state c)" if "state_inv srv (ss_state a)"
      using ab bc that by (simp add: evolves_def state_evolves_def)
    fix mb i tok assume "ss_state a = Authenticated mb i tok"
    then obtain mb' where "ss_state b = Authenticated mb' i tok" "same_messages mb mb'"
      using ab by (auto simp: evolves_def state_evolves_def)
    moreover from this obtain mb'' where "ss_state c = Authenticated mb'' i tok" "same_messages mb' mb''"
      using bc by (auto simp: evolves_def state_evolves_def)
    ultimately show "\<exists>mb'. ss_state c = Authenticated mb' i tok \<and> same_messages mb mb'"
      using same_messages_trans by blast
  qed
  then show ?thesis using ab bc by (simp add: evolves_def)
qed

lemma evolves_world [simp]: "evolves srv ss (ss'\<lparr>ss_world := w\<rparr>) = evolves srv ss ss'"
  by (simp add: evolves_def)

lemma evolves_bind:
  assumes "evolves srv ss (snd r)" and "\<And>x. fst r = Done x \<Longrightarrow> evolves srv (snd r) (snd (f x (snd r)))"
  shows "evolves srv ss (snd (bind_outcome r f))"
proof -
  obtain o1 ss1 where r: "r = (o1, ss1)" by fastforce
  show ?thesis
  proof (cases o1)
    case (Done x)
    have "evolves srv ss1 (snd (f x ss1))" using assms(2) [of x] by (simp add: r Done)
    with assms(1) show ?thesis by (auto simp: r Done intro: evolves_trans)
  qed (use assms(1) in \<open>simp_all add: r\<close>)
qed

lemma write_bytes_evolves [simp]: "evolves srv ss (snd (write_bytes srv bs ss'))= evolves srv ss ss'"
  by (simp add: write_bytes_def split: prod.splits)

lemma write_ok_evolves [simp]: "evolves srv ss (snd (write_ok srv m ss')) = evolves srv ss ss'"
  by (simp add: write_ok_def)

lemma call_evolves [simp]: "evolves srv ss (snd (call f ss')) = evolves srv ss ss'"
  by (simp add: call_def split: prod.splits sum.splits)

lemma write_err_evolves [simp]: "evolves srv ss (snd (write_err srv e ss')) = evolves srv ss ss'"
proof -
  obtain o1 ss1 where w: "write_bytes srv (serialize_error e) ss' = (o1, ss1)" by fastforce
  then have "evolves srv ss ss1 = evolves srv ss ss'"
    using write_bytes_evolves [of srv ss "serialize_error e" ss'] by simp
  then show ?thesis by (cases o1) (simp_all add: write_err_def w split: unit.splits)
qed

lemma assert_permission_same [simp]: "snd (assert_permission srv p ss) = ss" "snd (assert_has_permission srv tok p ss) = ss"
  "snd (state_mailbox ss) = ss"
  by (simp_all add: assert_permission_def assert_has_permission_def state_mailbox_def split: session_state.splits)

lemma set_mailbox_evolves:
  assumes "fst (state_mailbox ss) = Done mb" and "same_messages mb mb'"
  shows "evolves srv ss (set_mailbox mb' ss)"
proof -
  obtain i tok where ss: "ss_state ss = Authenticated mb i tok"
    using assms(1) by (auto simp: state_mailbox_def split: session_state.splits)
  have "granted srv tok mb \<Longrightarrow> granted srv tok mb'"
    using assms(2) same_messages_trans unfolding granted_def by blast
  then show ?thesis using assms(2) by (simp add: set_mailbox_def evolves_def state_evolves_def state_inv_def ss)
qed

lemma reading_evolves:
  "evolves srv ss (snd (handle_fetch srv msg lines ss))" "evolves srv ss (snd (handle_list srv m ss))"
  "evolves srv ss (snd (handle_uidl srv m ss))" "evolves srv ss (snd (handle_stat srv ss))"
  unfolding handle_fetch_def handle_list_def handle_uidl_def handle_stat_def
  by (auto intro!: evolves_bind simp: Let_def split: option.splits)

lemma quit_evolves: "evolves srv ss (snd (handle_quit srv ss))"
proof (cases "ss_state ss")
  case (Authenticated mb i tok)
  show ?thesis
  proof (cases "marked_ids mb = {}")
    case False
    then show ?thesis by (simp add: handle_quit_def Authenticated Let_def) (rule evolves_bind; clarsimp)
  qed (simp add: handle_quit_def Authenticated)
qed (simp add: handle_quit_def)

lemma marking_evolves:
  "evolves srv ss (snd (handle_dele srv msgs ss))" "evolves srv ss (snd (handle_rset srv ss))"
proof -
  have "same_messages mb (mb\<lparr>mb_messages := ms\<rparr>)" if "delete_messages msgs (mb_messages mb) = (resp, ms)" for mb resp ms
    using delete_messages_same [of msgs "mb_messages mb"] that by (simp add: same_messages_def)
  then show "evolves srv ss (snd (handle_dele srv msgs ss))"
    unfolding handle_dele_def
    by (auto intro!: evolves_bind split: prod.splits) (blast intro: set_mailbox_evolves)
  have "same_messages mb (mb\<lparr>mb_messages := map (\<lambda>m. m\<lparr>msg_deleted := False\<rparr>) (mb_messages mb)\<rparr>)" for mb
    by (simp add: same_messages_def comp_def)
  then show "evolves srv ss (snd (handle_rset srv ss))"
    unfolding handle_rset_def by (auto intro!: evolves_bind set_mailbox_evolves)
qed

lemma auth_failure_inv:
  "state_inv srv (NotAuthenticated f u) \<Longrightarrow> \<exists>f'. snd (auth_failure (sv_max_auth_failures srv) e (NotAuthenticated f u)) =
     NotAuthenticated f' u \<and> state_inv srv (NotAuthenticated f' u)"
  using u32_next(1) [of f "sv_max_auth_failures srv"]
  by (auto simp: auth_failure_def state_inv_def word_less_nat_alt word_le_nat_alt)

text \<open>An authentication starts from a state that is not authenticated.\<close>

lemma handle_auth_evolves:
  assumes "ss_state ss = NotAuthenticated f u"
  shows "evolves srv ss (snd (handle_auth srv c ss))"
proof -
  have failure: "evolves srv ss (ss1\<lparr>ss_state := snd (auth_failure (sv_max_auth_failures srv) e (ss_state ss1)), ss_world := w\<rparr>)"
    if "ss_state ss1 = NotAuthenticated f u" "ss_tls ss1 = ss_tls ss" "ss_receiver ss1 = ss_receiver ss" for ss1 e w
  proof -
    have "state_inv srv (NotAuthenticated f u) \<longrightarrow> state_inv srv (snd (auth_failure (sv_max_auth_failures srv) e (NotAuthenticated f u)))"
      using auth_failure_inv [of srv f u e] by metis
    then show ?thesis using that by (simp add: evolves_def state_evolves_def assms)
  qed
  have success: "evolves srv ss (ss1\<lparr>ss_state := Authenticated mb i tok\<rparr>)"
    if "ss_tls ss1 = ss_tls ss" "ss_receiver ss1 = ss_receiver ss" "granted srv tok mb" for ss1 mb i tok
    using that by (simp add: evolves_def state_evolves_def state_inv_def assms)
  obtain o1 ss1 where c1: "call (sv_auth_allowed srv) ss = (o1, ss1)" by fastforce
  then have ss1: "ss_state ss1 = NotAuthenticated f u" "ss_tls ss1 = ss_tls ss" "ss_receiver ss1 = ss_receiver ss"
    "evolves srv ss ss1"
    using call_evolves [of srv ss "sv_auth_allowed srv" ss] assms by (auto simp: call_def split: prod.splits sum.splits)
  show ?thesis
  proof (cases o1)
    case (Done x)
    obtain r w where a: "sv_authenticate srv c (ss_world ss1) = (r, w)" by fastforce
    show ?thesis
    proof (cases r)
      case (Inl e)
      obtain e' st where fl: "auth_failure (sv_max_auth_failures srv) e (ss_state ss1) = (e', st)" by fastforce
      then show ?thesis using failure [of ss1 w e] ss1(1-3) by (simp add: handle_auth_def c1 Done a Inl)
    next
      case (Inr tok)
      obtain lim w2 where l: "sv_concurrency srv (sv_primary_id srv tok) w = (lim, w2)" by fastforce
      obtain m w3 where m: "sv_fetch_mailbox srv (sv_primary_id srv tok) w2 = (m, w3)" by fastforce
      have gr: "granted srv tok mb" if "sv_has_permission srv tok Pop3Authenticate" "m = Inr mb" for mb
        using a m that same_messages_refl unfolding granted_def Inr by metis
      show ?thesis
      proof (cases "sv_has_permission srv tok Pop3Authenticate \<and> lim \<noteq> Some False")
        case True
        then have "handle_auth srv c ss = bind_outcome (call (sv_fetch_mailbox srv (sv_primary_id srv tok)) (ss1\<lparr>ss_world := w2\<rparr>))
            (\<lambda>mb ss. write_ok srv (ascii ''Authentication successful'') (ss\<lparr>ss_state := Authenticated mb (lim \<noteq> None) tok\<rparr>))"
          by (auto simp: handle_auth_def c1 Done a Inr assert_has_permission_def l split: option.splits bool.splits)
        then show ?thesis using ss1 success gr True by (cases m) (simp_all add: call_def m)
      next
        case False
        then show ?thesis using ss1(4)
          by (auto simp: handle_auth_def c1 Done a Inr assert_has_permission_def l split: option.splits bool.splits)
      qed
    qed
  qed (use ss1(4) in \<open>simp_all add: handle_auth_def c1\<close>)
qed

lemma handle_sasl_evolves:
  assumes "ss_state ss = NotAuthenticated f u"
  shows "evolves srv ss (snd (handle_sasl srv m ps ss))"
proof -
  have "parser_inv (Argument (Auth (mechanism_as_str m) []) 1 True)"
    using mechanism_text(3) [of m] by (simp add: parser_inv_def args_inv_def MAX_ARG_LEN_def)
  then have "evolves srv ss (ss\<lparr>ss_receiver := Argument (Auth (mechanism_as_str m) []) 1 True\<rparr>)"
    by (simp add: evolves_def)
  then show ?thesis using handle_auth_evolves [OF assms] by (auto simp: handle_sasl_def split: option.splits)
qed

lemma validate_request_evolves: "evolves srv ss (snd (validate_request srv cmd ss))"
  by (simp add: evolves_def validate_request_frame)

lemma user_evolves:
  "ss_state ss = NotAuthenticated f u \<Longrightarrow> evolves srv ss (ss\<lparr>ss_state := NotAuthenticated f u'\<rparr>)"
  by (simp add: evolves_def state_evolves_def state_inv_def)

lemma run_command_evolves:
  assumes "fst (validate_request srv cmd ss) = Done cmd'"
  shows "evolves srv ss (snd (run_command srv cmd' (snd (validate_request srv cmd ss))))"
proof -
  define ss1 where "ss1 = snd (validate_request srv cmd ss)"
  note ok = validate_request_ok [OF assms]
  have same: "ss_state ss1 = ss_state ss" by (simp add: ss1_def validate_request_frame)
  have "evolves srv ss1 (snd (run_command srv cmd ss1))"
  proof (cases cmd)
    case (User name)
    then obtain f u where "ss_state ss1 = NotAuthenticated f u" using ok(3) same by metis
    then show ?thesis using user_evolves by (auto simp: run_command_def User Let_def intro!: evolves_bind)
  next
    case (Pass pw)
    then obtain f u where st: "ss_state ss1 = NotAuthenticated f (Some u)" using ok(4) same by metis
    have "evolves srv ss1 (snd (handle_auth srv (Plain_Credentials u pw) (ss1\<lparr>ss_state := NotAuthenticated f None\<rparr>)))"
      using evolves_trans [OF user_evolves [OF st, of srv None] handle_auth_evolves] by simp
    then show ?thesis by (auto simp: run_command_def Pass Let_def st intro!: evolves_bind)
  next
    case (Auth m ps)
    then have "\<exists>f u. ss_state ss1 = NotAuthenticated f u"
      using assms unfolding same by (auto simp: validate_request_def Let_def split: session_state.splits if_splits)
    then show ?thesis using handle_sasl_evolves by (auto simp: run_command_def Auth Let_def intro!: evolves_bind)
  qed (auto simp: run_command_def Let_def handle_capa_def handle_stls_def handle_utf8_def
      intro!: evolves_bind reading_evolves quit_evolves marking_evolves)
  moreover have "evolves srv ss ss1" by (simp add: ss1_def validate_request_evolves)
  ultimately show ?thesis using ok(1) by (auto simp: ss1_def intro: evolves_trans)
qed

lemma run_requests_evolves: "evolves srv ss (snd (run_requests srv requests ss))"
proof (induction requests arbitrary: ss)
  case (Cons request requests)
  define r where "r = (case request of Inr cmd \<Rightarrow> bind_outcome (validate_request srv cmd ss) (run_command srv) | Inl e \<Rightarrow> (Failed e, ss))"
  have r_ev: "evolves srv ss (snd r)"
  proof (cases request)
    case (Inr cmd)
    obtain o1 ss1 where v: "validate_request srv cmd ss = (o1, ss1)" by fastforce
    then show ?thesis using run_command_evolves [of srv cmd ss] validate_request_evolves [of srv ss cmd]
      by (cases o1) (simp_all add: r_def Inr v)
  qed (simp add: r_def)
  obtain o1 ss1 where r: "r = (o1, ss1)" by fastforce
  have ss1: "evolves srv ss ss1" using r_ev by (simp add: r)
  have run: "run_requests srv (request # requests) ss =
    (case r of (Done Continue, ss') \<Rightarrow> run_requests srv requests ss' | (Done x, ss') \<Rightarrow> (Done x, ss')
     | (Panic, ss') \<Rightarrow> (Panic, ss')
     | (Failed e, ss') \<Rightarrow> (case write_err srv e ss' of (True, ss'') \<Rightarrow> run_requests srv requests ss''
                          | (False, ss'') \<Rightarrow> (Done Close, ss'')))" by (simp add: r_def)
  show ?case
  proof (cases o1)
    case (Done x)
    then show ?thesis using evolves_trans [OF ss1 Cons.IH] ss1 by (cases x) (simp_all add: run r del: run_requests.simps)
  next
    case (Failed e)
    obtain b ss2 where w: "write_err srv e ss1 = (b, ss2)" by fastforce
    then have "evolves srv ss ss2" using write_err_evolves [of srv ss e ss1] ss1 by simp
    then show ?thesis using evolves_trans [OF _ Cons.IH] by (cases b) (simp_all add: run r Failed w del: run_requests.simps)
  qed (use ss1 in \<open>simp add: run r del: run_requests.simps\<close>)
qed simp

lemma parser_parse_inv: "parser_inv st \<Longrightarrow> parser_parse st bs = (r, st', bs') \<Longrightarrow> parser_inv st'"
proof (induction bs arbitrary: st)
  case (Cons b bs)
  obtain o1 st1 where b: "parse_byte st b = (o1, st1)" by fastforce
  then show ?case using Cons.IH [OF parse_byte_inv [OF Cons.prems(1) b]] parse_byte_inv [OF Cons.prems(1) b] Cons.prems(2)
    by (cases o1) auto
qed simp

lemma collect_requests_evolves: "evolves srv ss (snd (collect_requests srv bs requests ss))"
proof (induction "length bs" arbitrary: bs requests ss rule: less_induct)
  case less
  obtain r st bs' where p: "parser_parse (ss_receiver ss) bs = (r, st, bs')" by (cases "parser_parse (ss_receiver ss) bs") auto
  let ?ss = "ss\<lparr>ss_receiver := st\<rparr>"
  have st: "evolves srv ss ?ss" using parser_parse_inv [OF _ p] by (simp add: evolves_def)
  have IH: "evolves srv ss (snd (collect_requests srv bs' rs (?ss\<lparr>ss_world := w\<rparr>)))" if "r \<noteq> Inl NeedsMoreData" for rs w
    using evolves_trans [of srv ss "?ss\<lparr>ss_world := w\<rparr>", OF _ less] st parser_parse_length [OF p [symmetric] that] by simp
  have IH0: "evolves srv ss (snd (collect_requests srv bs' rs ?ss))" if "r \<noteq> Inl NeedsMoreData" for rs
    using IH [OF that, of rs "ss_world ss"] by simp
  show ?case
  proof (cases r)
    case (Inr cmd)
    then show ?thesis using IH0 by (subst collect_requests.simps) (simp add: p)
  next
    case (Inl e)
    then show ?thesis using st IH IH0
      by (subst collect_requests.simps)
        (auto simp: p Let_def split: request_error.splits session_state.splits prod.splits sum.splits bool.splits)
  qed
qed

lemma ingest_evolves: "evolves srv ss (snd (ingest srv bs ss))"
proof -
  obtain c ss1 where c: "collect_requests srv bs [] ss = (c, ss1)" by fastforce
  then have "evolves srv ss ss1" using collect_requests_evolves [of srv ss bs "[]"] by simp
  then show ?thesis using evolves_trans [OF _ run_requests_evolves] by (auto simp: ingest_def c split: option.splits)
qed

subsection \<open>Properties\<close>

text \<open>The steps of a session: bytes arrive, the connection is upgraded, or the rest of the server
  changes.\<close>

inductive session_step :: "('w, 'tok) pop3_server \<Rightarrow> ('w, 'tok) session \<Rightarrow> ('w, 'tok) session \<Rightarrow> bool" for srv where
  input: "ingest srv bs ss = (Done Continue, ss') \<Longrightarrow> session_step srv ss ss'"
| upgrade: "ingest srv bs ss = (Done UpgradeTls, ss') \<Longrightarrow> session_step srv ss (into_tls ss')"
| server: "session_step srv ss (ss\<lparr>ss_world := w\<rparr>)"

definition session_inv :: "('w, 'tok) pop3_server \<Rightarrow> ('w, 'tok) session \<Rightarrow> bool" where
  "session_inv srv ss \<longleftrightarrow> state_inv srv (ss_state ss) \<and> parser_inv (ss_receiver ss)"

lemma session_inv_step:
  assumes "session_step srv ss ss'" and "session_inv srv ss"
  shows "session_inv srv ss'"
  using assms(1)
proof (cases rule: session_step.cases)
  case (input bs)
  then show ?thesis using ingest_evolves [of srv ss bs] assms(2) by (simp add: session_inv_def evolves_def state_evolves_def)
next
  case (upgrade bs ss1)
  then show ?thesis using ingest_evolves [of srv ss bs] assms(2)
    by (simp add: session_inv_def evolves_def state_evolves_def into_tls_def)
qed (use assms(2) in \<open>simp add: session_inv_def\<close>)

text \<open>C35: in every state that a session can reach, the number of failed attempts is within the limit,
  a session that is authenticated was authenticated by the server for a user that may use POP3
  and holds the mailbox fetched for that user up to the marks of deleted messages, and the
  parser keeps a bounded part of a request.\<close>

theorem session_invariant:
  assumes "(session_step srv)\<^sup>*\<^sup>* (start_session tls w) ss"
  shows "session_inv srv ss \<and> retained (ss_receiver ss) \<le> 64 + 4 * MAX_ARG_LEN"
proof -
  have "session_inv srv (start_session tls w)"
    by (simp add: session_inv_def start_session_def state_inv_def parser_inv_def)
  with assms have "session_inv srv ss" by (induction rule: rtranclp_induct) (auto intro: session_inv_step)
  then show ?thesis using retained_bound by (simp add: session_inv_def)
qed

text \<open>A server with one user, which keeps what it has written.\<close>

definition sample_server :: "(bytes list, nat) pop3_server" where
  "sample_server =
     \<lparr>sv_write = \<lambda>bs w. (True, w @ [bs]), sv_scanner_banned = \<lambda>w. (Inr False, w),
      sv_auth_allowed = \<lambda>w. (Inr (), w),
      sv_authenticate = \<lambda>c w. (if c = Plain_Credentials (ascii ''u'') (ascii ''p'') then Inr 7 else Inl (error_of Ev_Auth_Failed), w),
      sv_primary_id = \<lambda>tok. of_nat tok, sv_has_permission = \<lambda>tok p. True, sv_concurrency = \<lambda>a w. (None, w),
      sv_rate_requests = None,
      sv_fetch_mailbox = \<lambda>a w. (Inr \<lparr>mb_messages = [\<lparr>msg_id = 4, msg_uid = 9, msg_size = 3, msg_deleted = False\<rparr>],
        mb_account_id = a, mb_uid_validity = 1, mb_total = 1, mb_size = 3\<rparr>, w),
      sv_get_metadata = \<lambda>a d w. (Inr None, w), sv_get_blob = \<lambda>h w. (Inr None, w),
      sv_emails_tombstone = \<lambda>a ds w. (Inr (True, {}), w @ [ascii ''deleted'']), sv_commit_changes = \<lambda>a w. w,
      sv_allow_plain_auth = True, sv_max_auth_failures = 3, sv_base64_decode = \<lambda>b. None\<rparr>"

theorem session_invariant_witness:
  "\<exists>ss :: (bytes list, nat) session. is_authenticated ss \<and> session_inv sample_server ss"
proof -
  let ?bs = "ascii ''USER u'' @ CRLF @ ascii ''PASS p'' @ CRLF" and ?start = "start_session False [] :: (bytes list, nat) session"
  define ss where "ss = snd (ingest sample_server ?bs ?start)"
  have "ss_state ss = Authenticated (mailbox.make
      [\<lparr>msg_id = 4, msg_uid = 9, msg_size = 3, msg_deleted = False\<rparr>] 7 1 1 3) False 7"
    unfolding ss_def by code_simp
  then have "is_authenticated ss" by (auto simp: is_authenticated_def)
  moreover have "fst (ingest sample_server ?bs ?start) = Done Continue" by code_simp
  then have "ingest sample_server ?bs ?start = (Done Continue, ss)" by (simp only: ss_def prod_eq_iff fst_conv snd_conv simp_thms)
  then have "session_step sample_server ?start ss" by (rule session_step.input)
  then have "(session_step sample_server)\<^sup>*\<^sup>* ?start ss" by (rule r_into_rtranclp)
  from session_invariant [OF this] have "session_inv sample_server ss" ..
  ultimately show ?thesis by (intro exI [of _ ss] conjI)
qed


subsection \<open>Deletions\<close>

lemma delete_messages_step:
  fixes msg ms
  defines "i \<equiv> message_index msg"
  shows "snd (delete_messages (msg # msgs) ms) = snd (delete_messages msgs
    (if i < length ms \<and> \<not> msg_deleted (ms ! i) then ms[i := (ms ! i)\<lparr>msg_deleted := True\<rparr>] else ms))"
  by (simp add: i_def Let_def split: prod.splits)

lemma delete_messages_marks:
  "j < length ms \<Longrightarrow>
   msg_deleted (snd (delete_messages msgs ms) ! j) \<longleftrightarrow> msg_deleted (ms ! j) \<or> j \<in> message_index ` set msgs"
proof (induction msgs arbitrary: ms)
  case (Cons msg msgs)
  let ?i = "message_index msg"
  define ms' where "ms' = (if ?i < length ms \<and> \<not> msg_deleted (ms ! ?i) then ms[?i := (ms ! ?i)\<lparr>msg_deleted := True\<rparr>] else ms)"
  have "length ms' = length ms" "msg_deleted (ms' ! j) \<longleftrightarrow> msg_deleted (ms ! j) \<or> j = ?i"
    using Cons.prems by (auto simp: ms'_def nth_list_update)
  then show ?case using Cons.IH [of ms'] Cons.prems unfolding delete_messages_step ms'_def [symmetric] by auto
qed simp

abbreviation without_tombstone :: "('w, 'tok) pop3_server \<Rightarrow> _ \<Rightarrow> ('w, 'tok) pop3_server" where
  "without_tombstone srv g \<equiv> srv\<lparr>sv_emails_tombstone := g\<rparr>"

lemma tombstone_selectors:
  "sv_write (without_tombstone srv g) = sv_write srv"
  "sv_scanner_banned (without_tombstone srv g) = sv_scanner_banned srv"
  "sv_auth_allowed (without_tombstone srv g) = sv_auth_allowed srv"
  "sv_authenticate (without_tombstone srv g) = sv_authenticate srv"
  "sv_primary_id (without_tombstone srv g) = sv_primary_id srv"
  "sv_has_permission (without_tombstone srv g) = sv_has_permission srv"
  "sv_concurrency (without_tombstone srv g) = sv_concurrency srv"
  "sv_rate_requests (without_tombstone srv g) = sv_rate_requests srv"
  "sv_fetch_mailbox (without_tombstone srv g) = sv_fetch_mailbox srv"
  "sv_get_metadata (without_tombstone srv g) = sv_get_metadata srv"
  "sv_get_blob (without_tombstone srv g) = sv_get_blob srv"
  "sv_commit_changes (without_tombstone srv g) = sv_commit_changes srv"
  "sv_allow_plain_auth (without_tombstone srv g) = sv_allow_plain_auth srv"
  "sv_max_auth_failures (without_tombstone srv g) = sv_max_auth_failures srv"
  "sv_base64_decode (without_tombstone srv g) = sv_base64_decode srv"
  by simp_all

lemma tombstone_unused:
  "write_bytes (without_tombstone srv g) = write_bytes srv" "write_ok (without_tombstone srv g) = write_ok srv"
  "assert_has_permission (without_tombstone srv g) = assert_has_permission srv"
  "assert_permission (without_tombstone srv g) = assert_permission srv"
  "write_err (without_tombstone srv g) = write_err srv"
proof -
  show w: "write_bytes (without_tombstone srv g) = write_bytes srv"
    "assert_has_permission (without_tombstone srv g) = assert_has_permission srv"
    unfolding fun_eq_iff write_bytes_def assert_has_permission_def tombstone_selectors by simp_all
  show "write_ok (without_tombstone srv g) = write_ok srv"
    "assert_permission (without_tombstone srv g) = assert_permission srv"
    "write_err (without_tombstone srv g) = write_err srv"
    unfolding fun_eq_iff write_ok_def assert_permission_def write_err_def w by simp_all
qed

lemmas tombstone_rewrites = tombstone_selectors tombstone_unused

lemma tombstone_unused_handlers:
  "handle_fetch (without_tombstone srv g) = handle_fetch srv" "handle_list (without_tombstone srv g) = handle_list srv"
  "handle_uidl (without_tombstone srv g) = handle_uidl srv" "handle_stat (without_tombstone srv g) = handle_stat srv"
  "handle_dele (without_tombstone srv g) = handle_dele srv" "handle_rset (without_tombstone srv g) = handle_rset srv"
  "handle_capa (without_tombstone srv g) = handle_capa srv" "handle_stls (without_tombstone srv g) = handle_stls srv"
  "handle_utf8 (without_tombstone srv g) = handle_utf8 srv" "handle_auth (without_tombstone srv g) = handle_auth srv"
  unfolding fun_eq_iff handle_fetch_def handle_list_def handle_uidl_def handle_stat_def handle_dele_def handle_rset_def
    handle_capa_def handle_stls_def handle_utf8_def handle_auth_def tombstone_rewrites by (intro allI refl)+

lemma tombstone_unused_requests:
  "validate_request (without_tombstone srv g) = validate_request srv"
  "handle_sasl (without_tombstone srv g) = handle_sasl srv"
  unfolding fun_eq_iff validate_request_def handle_sasl_def tombstone_rewrites tombstone_unused_handlers
  by (intro allI refl)+

lemma run_requests_tombstone:
  assumes "Inr Quit \<notin> set requests"
  shows "run_requests (without_tombstone srv g) requests ss = run_requests srv requests ss"
  using assms
proof (induction requests arbitrary: ss)
  case (Cons request requests)
  have "run_command (without_tombstone srv g) cmd s = run_command srv cmd s" if "cmd \<noteq> Quit" for cmd s
    using that unfolding run_command_def tombstone_unused tombstone_unused_handlers tombstone_unused_requests
    by (cases cmd) simp_all
  moreover have "validate_request srv cmd ss = (Done cmd', s) \<Longrightarrow> cmd' = cmd" for cmd cmd' s
    using validate_request_ok(1) [of srv cmd ss cmd'] by simp
  ultimately have "bind_outcome (validate_request (without_tombstone srv g) cmd ss) (run_command (without_tombstone srv g)) =
      bind_outcome (validate_request srv cmd ss) (run_command srv)" if "cmd \<noteq> Quit" for cmd
    using that unfolding tombstone_unused_requests
    by (cases "validate_request srv cmd ss"; cases "fst (validate_request srv cmd ss)") (fastforce simp: bind_outcome_def)+
  then show ?case using Cons
    by (cases request) (auto simp: tombstone_unused split: prod.splits outcome.splits session_result.splits bool.splits)
qed simp



text \<open>C38: bytes that arrive in the clear after \<open>STLS\<close> are kept by the parser when the connection is
  upgraded, and become the start of the first request that the client sends encrypted.\<close>

theorem stls_keeps_plaintext:
  assumes "\<And>bs w. fst (sv_write srv bs w)" and "\<not> ss_tls ss" and "ss_receiver ss = Init"
  shows "\<exists>ss'. ingest srv (ascii ''STLS'' @ CRLF @ ascii ''USER evil'') ss = (Done UpgradeTls, ss') \<and>
    parse_all (ss_receiver (into_tls ss')) (ascii ''CAPA'' @ CRLF) = ([Inr (User (ascii ''evilCAPA''))], Init)"
proof -
  let ?rest = "ascii ''USER evil''" and ?st = "Argument (User (ascii ''evil'')) 1 False"
  have p1: "parser_parse Init (ascii ''STLS'' @ CRLF @ ?rest) = (Inr Stls, Init, ?rest)" by code_simp
  have p2: "parser_parse Init ?rest = (Inl NeedsMoreData, ?st, [])" by code_simp
  have p3: "parse_all ?st (ascii ''CAPA'' @ CRLF) = ([Inr (User (ascii ''evilCAPA''))], Init)" by code_simp
  have c: "collect_requests srv (ascii ''STLS'' @ CRLF @ ?rest) [] ss = (Some [Inr Stls], ss\<lparr>ss_receiver := ?st\<rparr>)"
    by (subst collect_requests.simps, simp only: assms(3) p1, subst (2) collect_requests.simps)
      (simp add: p2 push_request_def)
  have w: "fst (write_ok srv m s) = Done ()" "ss_receiver (snd (write_ok srv m s)) = ss_receiver s" for m s
    using assms(1) [of "serialize_response (Ok_Response m)" "ss_world s"]
    by (auto simp: write_ok_def write_bytes_def split: prod.splits)
  obtain ss' where wo: "write_ok srv (ascii ''Begin TLS negotiation now'') (ss\<lparr>ss_receiver := ?st\<rparr>) = (Done (), ss')"
    using w(1) by (metis prod.collapse)
  then have "ingest srv (ascii ''STLS'' @ CRLF @ ?rest) ss = (Done UpgradeTls, ss')"
    using assms(2) by (simp add: ingest_def c validate_request_def run_command_def handle_stls_def del: One_nat_def)
  moreover have "ss_receiver (into_tls ss') = ?st"
    using w(2) [of "ascii ''Begin TLS negotiation now''" "ss\<lparr>ss_receiver := ?st\<rparr>"] wo by (simp add: into_tls_def)
  ultimately show ?thesis using p3 by metis
qed

theorem stls_keeps_plaintext_witness:
  "\<exists>ss'. ingest sample_server (ascii ''STLS'' @ CRLF @ ascii ''USER evil'') (start_session False []) = (Done UpgradeTls, ss') \<and>
    parse_all (ss_receiver (into_tls ss')) (ascii ''CAPA'' @ CRLF) = ([Inr (User (ascii ''evilCAPA''))], Init)"
  by (rule stls_keeps_plaintext) (simp_all add: sample_server_def start_session_def)

end
