(* ===== verification/F64.thy ===== *)
theory F64
  imports Utf8
begin

section \<open>Floating point numbers\<close>

text \<open>
  What the expressions of the configuration use of \<open>f64\<close>: the IEEE 754 double format with
  rounding to nearest, ties to even. A finite number is \<open>m * 2 ^ e\<close> with its sign, in the one
  form with \<open>2 ^ 52 \<le> m < 2 ^ 53\<close> or the least exponent. An operation is the exact
  result, a quotient of natural numbers, rounded once.
\<close>

datatype f64 = F64_NaN | F64_Inf (is_neg: bool) | F64_Fin (is_neg: bool) nat int

fun bit_length :: "nat \<Rightarrow> nat" where
  "bit_length n = (if n = 0 then 0 else Suc (bit_length (n div 2)))"

declare bit_length.simps [simp del]

text \<open>The scale of \<open>p / q\<close>: the exponent for which the mantissa has 53 bits, at least the
  exponent of the subnormal numbers.\<close>

definition scale_up :: "int \<Rightarrow> nat \<Rightarrow> nat" where
  "scale_up e p = p * 2 ^ nat e"

definition f64_exponent :: "nat \<Rightarrow> nat \<Rightarrow> int" where
  "f64_exponent p q =
     (let e = int (bit_length p) - int (bit_length q) - 53
      in max (- 1074) (if scale_up e (q * 2 ^ 53) \<le> scale_up (- e) p then e + 1 else e))"

definition round_half_even :: "nat \<Rightarrow> nat \<Rightarrow> nat" where
  "round_half_even p q =
     (let m = p div q; r = p mod q
      in if q < 2 * r \<or> q = 2 * r \<and> odd m then m + 1 else m)"

definition f64_round :: "bool \<Rightarrow> nat \<Rightarrow> nat \<Rightarrow> f64" where
  "f64_round neg p q =
     (if p = 0 then F64_Fin neg 0 (- 1074)
      else
        let e = f64_exponent p q;
            m = round_half_even (scale_up (- e) p) (scale_up e q)
        in if m = 2 ^ 53 then (if 971 \<le> e then F64_Inf neg else F64_Fin neg (2 ^ 52) (e + 1))
           else if 971 < e then F64_Inf neg
           else F64_Fin neg m e)"

text \<open>\<open>i as f64\<close>, and a number as a signed quotient.\<close>

definition f64_of_int :: "int \<Rightarrow> f64" where
  "f64_of_int i = f64_round (i < 0) (nat \<bar>i\<bar>) 1"

definition signed :: "bool \<Rightarrow> nat \<Rightarrow> int" where
  "signed neg m = (if neg then - int m else int m)"

fun f64_is_zero :: "f64 \<Rightarrow> bool" where
  "f64_is_zero (F64_Fin _ m _) = (m = 0)"
| "f64_is_zero _ = False"

fun f64_neg :: "f64 \<Rightarrow> f64" where
  "f64_neg F64_NaN = F64_NaN"
| "f64_neg (F64_Inf s) = F64_Inf (\<not> s)"
| "f64_neg (F64_Fin s m e) = F64_Fin (\<not> s) m e"

fun f64_add :: "f64 \<Rightarrow> f64 \<Rightarrow> f64" where
  "f64_add F64_NaN _ = F64_NaN"
| "f64_add _ F64_NaN = F64_NaN"
| "f64_add (F64_Inf s) (F64_Inf t) = (if s = t then F64_Inf s else F64_NaN)"
| "f64_add (F64_Inf s) _ = F64_Inf s"
| "f64_add _ (F64_Inf t) = F64_Inf t"
| "f64_add (F64_Fin s m e) (F64_Fin t n f) =
     (let g = min e f;
          v = signed s (scale_up (e - g) m) + signed t (scale_up (f - g) n)
      in if v = 0 then F64_Fin (s \<and> t) 0 (- 1074)
         else f64_round (v < 0) (scale_up g (nat \<bar>v\<bar>)) (scale_up (- g) 1))"

definition f64_sub :: "f64 \<Rightarrow> f64 \<Rightarrow> f64" where
  "f64_sub a b = f64_add a (f64_neg b)"

fun f64_mul :: "f64 \<Rightarrow> f64 \<Rightarrow> f64" where
  "f64_mul F64_NaN _ = F64_NaN"
| "f64_mul _ F64_NaN = F64_NaN"
| "f64_mul (F64_Fin s m e) (F64_Fin t n f) =
     f64_round (s \<noteq> t) (scale_up (e + f) (m * n)) (scale_up (- (e + f)) 1)"
| "f64_mul a b = (if f64_is_zero a \<or> f64_is_zero b then F64_NaN else F64_Inf (is_neg a \<noteq> is_neg b))"

fun f64_div :: "f64 \<Rightarrow> f64 \<Rightarrow> f64" where
  "f64_div F64_NaN _ = F64_NaN"
| "f64_div _ F64_NaN = F64_NaN"
| "f64_div (F64_Inf s) (F64_Inf t) = F64_NaN"
| "f64_div (F64_Inf s) b = F64_Inf (s \<noteq> is_neg b)"
| "f64_div a (F64_Inf t) = F64_Fin (is_neg a \<noteq> t) 0 (- 1074)"
| "f64_div (F64_Fin s m e) (F64_Fin t n f) =
     (if n = 0 then (if m = 0 then F64_NaN else F64_Inf (s \<noteq> t))
      else f64_round (s \<noteq> t) (scale_up (e - f) m) (scale_up (f - e) n))"

text \<open>\<open>partial_cmp\<close>: the numbers as integers of a common scale, an infinite one beyond all of
  them.\<close>

datatype ordering = Less | Equal | Greater

definition compare_int :: "int \<Rightarrow> int \<Rightarrow> ordering" where
  "compare_int a b = (if a < b then Less else if a = b then Equal else Greater)"

fun f64_partial_cmp :: "f64 \<Rightarrow> f64 \<Rightarrow> ordering option" where
  "f64_partial_cmp F64_NaN _ = None"
| "f64_partial_cmp _ F64_NaN = None"
| "f64_partial_cmp (F64_Inf s) (F64_Inf t) = Some (if s = t then Equal else if s then Less else Greater)"
| "f64_partial_cmp (F64_Inf s) _ = Some (if s then Less else Greater)"
| "f64_partial_cmp _ (F64_Inf t) = Some (if t then Greater else Less)"
| "f64_partial_cmp (F64_Fin s m e) (F64_Fin t n f) =
     (let g = min e f
      in Some (compare_int (signed s (scale_up (e - g) m)) (signed t (scale_up (f - g) n))))"

definition f64_eq :: "f64 \<Rightarrow> f64 \<Rightarrow> bool" where
  "f64_eq a b \<longleftrightarrow> f64_partial_cmp a b = Some Equal"

definition f64_zero :: f64 where "f64_zero = F64_Fin False 0 (- 1074)"

text \<open>\<open>f as i64\<close> and \<open>f as u64\<close>: truncated and saturating, \<open>NaN\<close> is 0.\<close>

fun f64_saturate :: "int \<Rightarrow> int \<Rightarrow> f64 \<Rightarrow> int" where
  "f64_saturate lo hi F64_NaN = 0"
| "f64_saturate lo hi (F64_Inf s) = (if s then lo else hi)"
| "f64_saturate lo hi (F64_Fin s m e) =
     max lo (min hi (signed s (scale_up e m div scale_up (- e) 1)))"

definition f64_as_i64 :: "f64 \<Rightarrow> i64" where
  "f64_as_i64 = f64_saturate (- (2 ^ 63)) (2 ^ 63 - 1)"

definition f64_as_u64 :: "f64 \<Rightarrow> nat" where
  "f64_as_u64 f = nat (f64_saturate 0 (2 ^ 64 - 1) f)"

subsection \<open>Decimal notation\<close>

text \<open>\<open>str::parse::<f64>\<close>: digits with at most one point and an optional exponent, or a name of
  infinity or of \<open>NaN\<close> in any case, after an optional sign.\<close>

definition is_digit :: "rchar \<Rightarrow> bool" where
  "is_digit c \<longleftrightarrow> 48 \<le> c \<and> c \<le> 57"

definition ascii_lowercase :: "rchar \<Rightarrow> rchar" where
  "ascii_lowercase c = (if 65 \<le> c \<and> c \<le> 90 then c + 32 else c)"

definition digits_value :: "rchar list \<Rightarrow> nat" where
  "digits_value = foldl (\<lambda>a c. a * 10 + (c - 48)) 0"

definition split_sign :: "rchar list \<Rightarrow> bool \<times> rchar list" where
  "split_sign cs =
     (case cs of [] \<Rightarrow> (False, [])
      | c # ds \<Rightarrow> if c = 45 then (True, ds) else if c = 43 then (False, ds) else (False, cs))"

definition f64_of_decimal :: "bool \<Rightarrow> nat \<Rightarrow> int \<Rightarrow> f64" where
  "f64_of_decimal neg n k = f64_round neg (n * 10 ^ nat k) (10 ^ nat (- k))"

definition parse_exponent :: "rchar list \<Rightarrow> int option" where
  "parse_exponent cs =
     (if cs = [] then Some 0
      else if ascii_lowercase (hd cs) = 101 then
        (let (neg, ds) = split_sign (tl cs)
         in map_option (\<lambda>n. signed neg n) (parse_digits ds))
      else None)"

definition parse_f64 :: "rchar list \<Rightarrow> f64 option" where
  "parse_f64 cs =
     (let (neg, ds) = split_sign cs; name = map ascii_lowercase ds
      in if name = lit ''nan'' then Some F64_NaN
         else if name = lit ''inf'' \<or> name = lit ''infinity'' then Some (F64_Inf neg)
         else
           let whole = takeWhile is_digit ds; r = dropWhile is_digit ds;
               (frac, r') = (if r \<noteq> [] \<and> hd r = 46 then (takeWhile is_digit (tl r), dropWhile is_digit (tl r)) else ([], r))
           in if whole = [] \<and> frac = [] then None
              else map_option (\<lambda>k. f64_of_decimal neg (digits_value (whole @ frac)) (k - int (length frac)))
                     (parse_exponent r'))"

text \<open>\<open>Display\<close>: the shortest digits that are read back as the same number, the closest of
  them, without an exponent. At most 17 digits are needed. \<open>decimal_exponent p q\<close> is the
  \<open>k\<close> with \<open>10 ^ (k - 1) \<le> p / q < 10 ^ k\<close>.\<close>

definition decimal_exponent :: "nat \<Rightarrow> nat \<Rightarrow> int" where
  "decimal_exponent p q =
     (if q \<le> p then int (length (nat_to_string (p div q)))
      else (case List.find (\<lambda>j. q \<le> p * 10 ^ j) [1..<400] of Some j \<Rightarrow> 1 - int j | None \<Rightarrow> 0))"

definition shortest_at :: "f64 \<Rightarrow> nat \<Rightarrow> nat \<Rightarrow> int \<Rightarrow> nat \<Rightarrow> nat option" where
  "shortest_at f p q k n =
     (let j = k - int n;
          num = p * 10 ^ nat (- j); den = q * 10 ^ nat j;
          d = num div den; r = num mod den;
          down = (f64_of_decimal (is_neg f) d j = f);
          up = (f64_of_decimal (is_neg f) (d + 1) j = f)
      in if up \<and> (\<not> down \<or> den \<le> 2 * r) then Some (d + 1)
         else if down then Some d
         else None)"

fun first_some :: "('a \<Rightarrow> 'b option) \<Rightarrow> 'a list \<Rightarrow> ('a \<times> 'b) option" where
  "first_some f [] = None"
| "first_some f (x # xs) = (case f x of Some y \<Rightarrow> Some (x, y) | None \<Rightarrow> first_some f xs)"

definition place_point :: "rchar list \<Rightarrow> int \<Rightarrow> rchar list" where
  "place_point ds j =
     (if 0 \<le> j then ds @ replicate (nat j) 48
      else
        let whole = length ds - nat (- j);
            frac = replicate (nat (- j) - length ds) 48 @ drop whole ds;
            frac' = rev (dropWhile (\<lambda>c. c = 48) (rev frac))
        in (if whole = 0 then [48] else take whole ds) @ (if frac' = [] then [] else 46 # frac'))"

fun f64_to_string :: "f64 \<Rightarrow> rchar list" where
  "f64_to_string F64_NaN = lit ''NaN''"
| "f64_to_string (F64_Inf s) = lit (if s then ''-inf'' else ''inf'')"
| "f64_to_string (F64_Fin s m e) =
     (if s then [45] else []) @
     (if m = 0 then [48]
      else
        let p = scale_up e m; q = scale_up (- e) 1; k = decimal_exponent p q
        in case first_some (shortest_at (F64_Fin s m e) p q k) [1..<18] of
             Some (n, d) \<Rightarrow> place_point (nat_to_string d) (k - int n)
           | None \<Rightarrow> [])"

end
