(* ===== verification/Expr_Value.thy ===== *)
theory Expr_Value
  imports F64 Sasl
begin

section \<open>Values of expressions\<close>

text \<open>
  The values of the expression language of the configuration, \<open>Variable\<close> of
  \<^verbatim>\<open>src/crates/common/src/expr/mod.rs\<close>, and the operators on them of
  \<^verbatim>\<open>src/crates/common/src/expr/eval.rs\<close>. A \<open>str\<close> is the list of its code
  points; its comparison by bytes is the comparison by code points.
\<close>

datatype variable =
  Var_String "rchar list" | Var_Integer i64 | Var_Float f64 | Var_Array "variable list"

datatype expr_constant = Const_Integer i64 | Const_Float f64 | Const_String "rchar list"

definition variable_default :: variable where
  "variable_default = Var_String []"

definition variable_of_constant :: "expr_constant \<Rightarrow> variable" where
  "variable_of_constant c =
     (case c of Const_Integer i \<Rightarrow> Var_Integer i | Const_Float f \<Rightarrow> Var_Float f | Const_String s \<Rightarrow> Var_String s)"

definition variable_of_bool :: "bool \<Rightarrow> variable" where
  "variable_of_bool b = Var_Integer (if b then 1 else 0)"

text \<open>\<open>usize as i64\<close>.\<close>

definition i64_of_usize :: "nat \<Rightarrow> i64" where
  "i64_of_usize n = (int n + 2 ^ 63) mod 2 ^ 64 - 2 ^ 63"

definition variable_of_usize :: "nat \<Rightarrow> variable" where
  "variable_of_usize n = Var_Integer (i64_of_usize n)"

subsection \<open>Arithmetic\<close>

definition saturate :: "int \<Rightarrow> i64" where
  "saturate i = max (- (2 ^ 63)) (min (2 ^ 63 - 1) i)"

text \<open>\<open>parse_number\<close> leaves a number as it is, so the operators that parse their operands and
  start over are the operation on two numbers after it.\<close>

fun parse_number :: "variable \<Rightarrow> variable" where
  "parse_number (Var_String s) =
     (if s = [] then Var_Integer 0
      else case parse_i64 s of
             Some n \<Rightarrow> Var_Integer n
           | None \<Rightarrow> (case parse_f64 s of Some f \<Rightarrow> Var_Float f | None \<Rightarrow> Var_Integer 0))"
| "parse_number (Var_Integer n) = Var_Integer n"
| "parse_number (Var_Float f) = Var_Float f"
| "parse_number (Var_Array l) = Var_Integer (if l = [] then 1 else 0)"

definition num_cases ::
    "(i64 \<Rightarrow> i64 \<Rightarrow> 'a) \<Rightarrow> (f64 \<Rightarrow> f64 \<Rightarrow> 'a) \<Rightarrow> (i64 \<Rightarrow> f64 \<Rightarrow> 'a) \<Rightarrow> (f64 \<Rightarrow> i64 \<Rightarrow> 'a) \<Rightarrow>
     'a \<Rightarrow> variable \<Rightarrow> variable \<Rightarrow> 'a" where
  "num_cases ii ff ifl fi other a b =
     (case (a, b) of
        (Var_Integer i, Var_Integer j) \<Rightarrow> ii i j
      | (Var_Float x, Var_Float y) \<Rightarrow> ff x y
      | (Var_Integer i, Var_Float y) \<Rightarrow> ifl i y
      | (Var_Float x, Var_Integer j) \<Rightarrow> fi x j
      | _ \<Rightarrow> other)"

fun var_to_bool :: "variable \<Rightarrow> bool" where
  "var_to_bool (Var_Float f) = (\<not> f64_eq f f64_zero)"
| "var_to_bool (Var_Integer n) = (n \<noteq> 0)"
| "var_to_bool (Var_String s) = (s \<noteq> [])"
| "var_to_bool (Var_Array a) = (a \<noteq> [])"

fun var_eq :: "variable \<Rightarrow> variable \<Rightarrow> bool" and vars_eq :: "variable list \<Rightarrow> variable list \<Rightarrow> bool" where
  "var_eq (Var_String a) (Var_String b) = (a = b)"
| "var_eq (Var_Array a) (Var_Array b) = vars_eq a b"
| "var_eq (Var_Array _) _ = False"
| "var_eq _ (Var_Array _) = False"
| "var_eq a b =
     num_cases (=) f64_eq (\<lambda>i y. f64_eq (f64_of_int i) y) (\<lambda>x j. f64_eq (f64_of_int j) x) False
       (parse_number a) (parse_number b)"
| "vars_eq [] [] = True"
| "vars_eq (a # as) (b # bs) = (var_eq a b \<and> vars_eq as bs)"
| "vars_eq _ _ = False"

definition compare_list :: "rchar list \<Rightarrow> rchar list \<Rightarrow> ordering" where
  "compare_list a b = (if a < b then Less else if a = b then Equal else Greater)"

fun var_partial_cmp :: "variable \<Rightarrow> variable \<Rightarrow> ordering option"
  and vars_partial_cmp :: "variable list \<Rightarrow> variable list \<Rightarrow> ordering option" where
  "var_partial_cmp (Var_String a) (Var_String b) = Some (compare_list a b)"
| "var_partial_cmp (Var_Array a) (Var_Array b) = vars_partial_cmp a b"
| "var_partial_cmp (Var_Array _) _ = Some Greater"
| "var_partial_cmp (Var_String _) (Var_Array _) = Some Greater"
| "var_partial_cmp _ (Var_Array _) = Some Less"
| "var_partial_cmp a b =
     num_cases (\<lambda>i j. Some (compare_int i j)) f64_partial_cmp (\<lambda>i y. f64_partial_cmp (f64_of_int i) y)
       (\<lambda>x j. f64_partial_cmp x (f64_of_int j)) None (parse_number a) (parse_number b)"
| "vars_partial_cmp [] [] = Some Equal"
| "vars_partial_cmp [] (_ # _) = Some Less"
| "vars_partial_cmp (_ # _) [] = Some Greater"
| "vars_partial_cmp (a # as) (b # bs) =
     (case var_partial_cmp a b of Some Equal \<Rightarrow> vars_partial_cmp as bs | c \<Rightarrow> c)"

definition var_cmp :: "variable \<Rightarrow> variable \<Rightarrow> ordering" where
  "var_cmp a b = (case var_partial_cmp a b of Some c \<Rightarrow> c | None \<Rightarrow> Greater)"

subsection \<open>Text\<close>

definition scalar_text :: "variable \<Rightarrow> rchar list" where
  "scalar_text v =
     (case v of
        Var_String s \<Rightarrow> s | Var_Integer n \<Rightarrow> i64_to_string n | Var_Float f \<Rightarrow> f64_to_string f | Var_Array _ \<Rightarrow> [])"

text \<open>\<open>to_string\<close> and \<open>into_string\<close>: the items of an array on lines, those of a nested
  array left out.\<close>

definition join_items :: "variable list \<Rightarrow> rchar list" where
  "join_items l = foldl (\<lambda>result item. (if result = [] then [] else result @ [13, 10]) @ scalar_text item) [] l"

definition var_to_string :: "variable \<Rightarrow> rchar list" where
  "var_to_string v = (case v of Var_Array l \<Rightarrow> join_items l | _ \<Rightarrow> scalar_text v)"

fun var_display :: "variable \<Rightarrow> rchar list" where
  "var_display (Var_String s) = s"
| "var_display (Var_Integer n) = i64_to_string n"
| "var_display (Var_Float f) = f64_to_string f"
| "var_display (Var_Array l) =
     (case l of [] \<Rightarrow> [] | v # vs \<Rightarrow> var_display v @ concat (map (\<lambda>v. 10 # var_display v) vs))"

definition var_is_empty :: "variable \<Rightarrow> bool" where
  "var_is_empty v = (case v of Var_String s \<Rightarrow> s = [] | _ \<Rightarrow> False)"

definition var_into_array :: "variable \<Rightarrow> variable list" where
  "var_into_array v = (case v of Var_Array l \<Rightarrow> l | _ \<Rightarrow> if var_is_empty v then [] else [v])"

definition var_to_integer :: "variable \<Rightarrow> i64 option" where
  "var_to_integer v =
     (case v of
        Var_Integer n \<Rightarrow> Some n
      | Var_Float f \<Rightarrow> Some (f64_as_i64 f)
      | Var_String s \<Rightarrow> if s = [] then None else parse_i64 s
      | Var_Array _ \<Rightarrow> None)"

text \<open>\<open>str::parse::<usize>\<close>.\<close>

definition parse_unsigned :: "nat \<Rightarrow> rchar list \<Rightarrow> nat option" where
  "parse_unsigned bound cs =
     (case parse_digits (if cs \<noteq> [] \<and> hd cs = 43 then tl cs else cs) of
        Some n \<Rightarrow> if n < bound then Some n else None
      | None \<Rightarrow> None)"

definition var_to_usize :: "variable \<Rightarrow> nat option" where
  "var_to_usize v =
     (case v of
        Var_Integer n \<Rightarrow> Some (nat (n mod 2 ^ 64))
      | Var_Float f \<Rightarrow> Some (f64_as_u64 f)
      | Var_String s \<Rightarrow> if s = [] then None else parse_unsigned (2 ^ 64) s
      | Var_Array _ \<Rightarrow> None)"

subsection \<open>Operators\<close>

fun op_add :: "variable \<Rightarrow> variable \<Rightarrow> variable" where
  "op_add (Var_Integer a) (Var_Integer b) = Var_Integer (saturate (a + b))"
| "op_add (Var_Float a) (Var_Float b) = Var_Float (f64_add a b)"
| "op_add (Var_Integer i) (Var_Float f) = Var_Float (f64_add (f64_of_int i) f)"
| "op_add (Var_Float f) (Var_Integer i) = Var_Float (f64_add (f64_of_int i) f)"
| "op_add (Var_Array a) (Var_Array b) = Var_Array (a @ b)"
| "op_add (Var_Array a) b = Var_Array (a @ [b])"
| "op_add a (Var_Array b) = Var_Array (a # b)"
| "op_add (Var_String a) b = (if a \<noteq> [] then Var_String (a @ var_display b) else b)"
| "op_add a (Var_String b) = (if b \<noteq> [] then Var_String (var_display a @ b) else a)"

definition num_subtract :: "variable \<Rightarrow> variable \<Rightarrow> variable" where
  "num_subtract =
     num_cases (\<lambda>a b. Var_Integer (saturate (a - b))) (\<lambda>a b. Var_Float (f64_sub a b))
       (\<lambda>a b. Var_Float (f64_sub (f64_of_int a) b)) (\<lambda>a b. Var_Float (f64_sub a (f64_of_int b)))
       variable_default"

fun op_subtract :: "variable \<Rightarrow> variable \<Rightarrow> variable" where
  "op_subtract (Var_Array a) b = Var_Array (filter (\<lambda>v. \<not> var_eq v b) a)"
| "op_subtract b (Var_Array a) = Var_Array (filter (\<lambda>v. \<not> var_eq v b) a)"
| "op_subtract a b = num_subtract (parse_number a) (parse_number b)"

definition op_multiply :: "variable \<Rightarrow> variable \<Rightarrow> variable" where
  "op_multiply a b =
     num_cases (\<lambda>a b. Var_Integer (saturate (a * b))) (\<lambda>a b. Var_Float (f64_mul a b))
       (\<lambda>i f. Var_Float (f64_mul (f64_of_int i) f)) (\<lambda>f i. Var_Float (f64_mul (f64_of_int i) f))
       variable_default (parse_number a) (parse_number b)"

definition div_or_zero :: "f64 \<Rightarrow> f64 \<Rightarrow> variable" where
  "div_or_zero a b = Var_Float (if \<not> f64_eq b f64_zero then f64_div a b else f64_zero)"

definition op_divide :: "variable \<Rightarrow> variable \<Rightarrow> variable" where
  "op_divide a b =
     num_cases (\<lambda>a b. Var_Float (if b \<noteq> 0 then f64_div (f64_of_int a) (f64_of_int b) else f64_zero)) div_or_zero
       (\<lambda>a b. div_or_zero (f64_of_int a) b)
       (\<lambda>a b. Var_Float (if b \<noteq> 0 then f64_div a (f64_of_int b) else f64_zero))
       variable_default (parse_number a) (parse_number b)"

definition op_and :: "variable \<Rightarrow> variable \<Rightarrow> variable" where
  "op_and a b = variable_of_bool (var_to_bool a \<and> var_to_bool b)"

definition op_or :: "variable \<Rightarrow> variable \<Rightarrow> variable" where
  "op_or a b = variable_of_bool (var_to_bool a \<or> var_to_bool b)"

definition op_xor :: "variable \<Rightarrow> variable \<Rightarrow> variable" where
  "op_xor a b = variable_of_bool (var_to_bool a \<noteq> var_to_bool b)"

definition op_eq :: "variable \<Rightarrow> variable \<Rightarrow> variable" where
  "op_eq a b = variable_of_bool (var_eq a b)"

definition op_ne :: "variable \<Rightarrow> variable \<Rightarrow> variable" where
  "op_ne a b = variable_of_bool (\<not> var_eq a b)"

text \<open>\<open><\<close>, \<open><=\<close>, \<open>>\<close> and \<open>>=\<close> follow \<open>partial_cmp\<close>.\<close>

definition op_lt :: "variable \<Rightarrow> variable \<Rightarrow> variable" where
  "op_lt a b = variable_of_bool (var_partial_cmp a b = Some Less)"

definition op_le :: "variable \<Rightarrow> variable \<Rightarrow> variable" where
  "op_le a b = variable_of_bool (var_partial_cmp a b \<in> {Some Less, Some Equal})"

definition op_gt :: "variable \<Rightarrow> variable \<Rightarrow> variable" where
  "op_gt a b = variable_of_bool (var_partial_cmp a b = Some Greater)"

definition op_ge :: "variable \<Rightarrow> variable \<Rightarrow> variable" where
  "op_ge a b = variable_of_bool (var_partial_cmp a b \<in> {Some Greater, Some Equal})"

definition op_not :: "variable \<Rightarrow> variable" where
  "op_not v = variable_of_bool (\<not> var_to_bool v)"

text \<open>\<open>-n\<close> wraps around at the least integer.\<close>

definition op_minus :: "variable \<Rightarrow> variable" where
  "op_minus v =
     (case parse_number v of
        Var_Integer n \<Rightarrow> Var_Integer (if n = - (2 ^ 63) then n else - n)
      | Var_Float f \<Rightarrow> Var_Float (f64_neg f)
      | w \<Rightarrow> w)"

subsection \<open>Conversions of a result\<close>

definition try_string :: "variable \<Rightarrow> rchar list option" where
  "try_string v = (case v of Var_String s \<Rightarrow> Some s | _ \<Rightarrow> None)"

definition try_u64 :: "variable \<Rightarrow> u64 option" where
  "try_u64 v = map_option of_int (var_to_integer v)"

text \<open>\<open>Duration::parse_value\<close> and the conversion of a value to a duration, in milliseconds:
  whatever is not a digit or white space is the unit. The product wraps around.\<close>

definition is_ascii_space :: "rchar \<Rightarrow> bool" where
  "is_ascii_space c \<longleftrightarrow> c \<in> {9, 10, 12, 13, 32}"

definition duration_unit :: "rchar list \<Rightarrow> u64 option" where
  "duration_unit m =
     (if m = lit ''d'' then Some (24 * 60 * 60 * 1000)
      else if m = lit ''h'' then Some (60 * 60 * 1000)
      else if m = lit ''m'' then Some (60 * 1000)
      else if m = lit ''s'' then Some 1000
      else if m = lit ''ms'' \<or> m = [] then Some 1
      else None)"

definition parse_duration :: "rchar list \<Rightarrow> u64 option" where
  "parse_duration cs =
     (case duration_unit (map ascii_lowercase (filter (\<lambda>c. \<not> is_digit c \<and> \<not> is_ascii_space c) cs)) of
        None \<Rightarrow> None
      | Some u \<Rightarrow>
          (case parse_unsigned (2 ^ 64) (filter is_digit cs) of
             Some n \<Rightarrow> if 0 < n then Some (of_nat n * u) else None
           | None \<Rightarrow> None))"

definition try_duration :: "variable \<Rightarrow> u64 option" where
  "try_duration v =
     (case v of
        Var_Integer i \<Rightarrow> if 0 < i then Some (of_int i) else None
      | Var_Float f \<Rightarrow> if f64_partial_cmp f f64_zero = Some Greater then Some (of_nat (f64_as_u64 f)) else None
      | Var_String s \<Rightarrow> if s \<noteq> [] then parse_duration s else None
      | Var_Array _ \<Rightarrow> None)"

definition try_rate :: "variable \<Rightarrow> (u64 \<times> u64) option" where
  "try_rate v =
     (case v of
        Var_Array [a, b] \<Rightarrow>
          (case (var_to_integer a, var_to_integer b) of
             (Some r, Some p) \<Rightarrow> if 0 < r \<and> 0 < p then Some (of_int r, of_int p) else None
           | _ \<Rightarrow> None)
      | _ \<Rightarrow> None)"

end
