(* ===== verification/Ip_Addr.thy ===== *)
theory Ip_Addr
  imports Utf8
begin

section \<open>Addresses\<close>

text \<open>
  \<open>IpAddr\<close> and \<open>str::parse::<IpAddr>\<close> of the standard library: four decimal numbers,
  or up to eight groups of hexadecimal digits, of which \<open>::\<close> leaves some out and the last
  two may be written as an IPv4 address. A reader returns what it read and the rest of the text, or
  \<open>None\<close> and then consumes nothing.
\<close>

datatype ip_addr = V4 u32 | V6 "128 word"

definition hex_digit :: "nat \<Rightarrow> rchar \<Rightarrow> nat option" where
  "hex_digit radix c =
     (let d = (if 48 \<le> c \<and> c \<le> 57 then Some (c - 48)
               else if 97 \<le> c \<and> c \<le> 102 then Some (c - 87)
               else if 65 \<le> c \<and> c \<le> 70 then Some (c - 55)
               else None)
      in case d of Some n \<Rightarrow> if n < radix then Some n else None | None \<Rightarrow> None)"

fun take_digits :: "nat \<Rightarrow> rchar list \<Rightarrow> nat list \<times> rchar list" where
  "take_digits radix [] = ([], [])"
| "take_digits radix (c # cs) =
     (case hex_digit radix c of
        None \<Rightarrow> ([], c # cs)
      | Some d \<Rightarrow> let (ds, r) = take_digits radix cs in (d # ds, r))"

definition read_number :: "nat \<Rightarrow> nat \<Rightarrow> bool \<Rightarrow> nat \<Rightarrow> rchar list \<Rightarrow> (nat \<times> rchar list) option" where
  "read_number radix max_digits allow_zero_prefix bound cs =
     (let (ds, r) = take_digits radix cs; n = foldl (\<lambda>a d. a * radix + d) 0 ds
      in if ds = [] \<or> max_digits < length ds \<or> bound \<le> n then None
         else if \<not> allow_zero_prefix \<and> hd ds = 0 \<and> 1 < length ds then None
         else Some (n, r))"

definition read_separator :: "rchar \<Rightarrow> nat \<Rightarrow> (rchar list \<Rightarrow> ('a \<times> rchar list) option) \<Rightarrow> rchar list \<Rightarrow> ('a \<times> rchar list) option" where
  "read_separator sep i f cs =
     (if i = 0 then f cs
      else case cs of c # r \<Rightarrow> if c = sep then f r else None | [] \<Rightarrow> None)"

fun read_octets :: "nat \<Rightarrow> nat \<Rightarrow> nat \<Rightarrow> rchar list \<Rightarrow> (nat \<times> rchar list) option" where
  "read_octets 0 i acc cs = Some (acc, cs)"
| "read_octets (Suc n) i acc cs =
     (case read_separator 46 i (read_number 10 3 False 256) cs of
        None \<Rightarrow> None
      | Some (b, r) \<Rightarrow> read_octets n (Suc i) (acc * 256 + b) r)"

definition read_ipv4_addr :: "rchar list \<Rightarrow> (nat \<times> rchar list) option" where
  "read_ipv4_addr cs = read_octets 4 0 0 cs"

text \<open>The groups that were read, whether they end with an IPv4 address, and the rest.\<close>

fun read_groups :: "nat \<Rightarrow> nat \<Rightarrow> rchar list \<Rightarrow> nat list \<times> bool \<times> rchar list" where
  "read_groups 0 i cs = ([], False, cs)"
| "read_groups (Suc n) i cs =
     (case (if 0 < n then read_separator 58 i read_ipv4_addr cs else None) of
        Some (a, r) \<Rightarrow> ([a div 65536, a mod 65536], True, r)
      | None \<Rightarrow>
          (case read_separator 58 i (read_number 16 4 True 65536) cs of
             None \<Rightarrow> ([], False, cs)
           | Some (g, r) \<Rightarrow> let (gs, v4, r') = read_groups n (Suc i) r in (g # gs, v4, r')))"

definition read_ipv6_addr :: "rchar list \<Rightarrow> (nat list \<times> rchar list) option" where
  "read_ipv6_addr cs =
     (let (h, v4, r) = read_groups 8 0 cs
      in if length h = 8 then Some (h, r)
         else if v4 then None
         else case r of
                a # b # r' \<Rightarrow>
                  if a = 58 \<and> b = 58
                  then let (t, _, r'') = read_groups (7 - length h) 0 r'
                       in Some (h @ replicate (8 - length h - length t) 0 @ t, r'')
                  else None
              | _ \<Rightarrow> None)"

definition parse_ip_addr :: "rchar list \<Rightarrow> ip_addr option" where
  "parse_ip_addr cs =
     (case read_ipv4_addr cs of
        Some (a, r) \<Rightarrow> if r = [] then Some (V4 (of_nat a)) else None
      | None \<Rightarrow>
          (case read_ipv6_addr cs of
             Some (gs, r) \<Rightarrow> if r = [] then Some (V6 (of_nat (foldl (\<lambda>a g. a * 65536 + g) 0 gs))) else None
           | None \<Rightarrow> None))"

end
