(* ===== verification/Expr_Functions.thy ===== *)
theory Expr_Functions
  imports Expr_Value Ip_Addr
begin

section \<open>Functions of expressions\<close>

text \<open>
  The functions of \<^verbatim>\<open>src/crates/common/src/expr/functions\<close> that need nothing but their
  arguments. A function gets the vector of its arguments and is \<open>None\<close> where the code would
  panic, for an argument that is not there. The Unicode tables of the standard library, its unstable
  sort and the reverse names of the resolver are the record \<open>text_env\<close>.
\<close>

record text_env =
  to_lowercase :: "rchar list \<Rightarrow> rchar list"
  to_uppercase :: "rchar list \<Rightarrow> rchar list"
  is_alphabetic :: "rchar \<Rightarrow> bool"
  is_numeric :: "rchar \<Rightarrow> bool"
  is_uppercase :: "rchar \<Rightarrow> bool"
  is_lowercase :: "rchar \<Rightarrow> bool"
  sort_unstable_by :: "(variable \<Rightarrow> variable \<Rightarrow> ordering) \<Rightarrow> variable list \<Rightarrow> variable list"
  to_reverse_name :: "ip_addr \<Rightarrow> rchar list"

type_synonym expr_function = "variable list \<Rightarrow> variable option"

definition arg1 :: "(variable \<Rightarrow> variable) \<Rightarrow> expr_function" where
  "arg1 f v = (case v of a # _ \<Rightarrow> Some (f a) | [] \<Rightarrow> None)"

definition arg2 :: "(variable \<Rightarrow> variable \<Rightarrow> variable) \<Rightarrow> expr_function" where
  "arg2 f v = (case v of a # b # _ \<Rightarrow> Some (f a b) | _ \<Rightarrow> None)"

definition arg3 :: "(variable \<Rightarrow> variable \<Rightarrow> variable \<Rightarrow> variable) \<Rightarrow> expr_function" where
  "arg3 f v = (case v of a # b # c # _ \<Rightarrow> Some (f a b c) | _ \<Rightarrow> None)"

definition transform :: "(rchar list \<Rightarrow> variable) \<Rightarrow> variable \<Rightarrow> variable" where
  "transform f v =
     (case v of
        Var_Array l \<Rightarrow> Var_Array (map (\<lambda>i. f (var_to_string i)) l)
      | _ \<Rightarrow> f (var_to_string v))"

subsection \<open>Text of the standard library\<close>

definition is_whitespace :: "rchar \<Rightarrow> bool" where
  "is_whitespace c \<longleftrightarrow>
     9 \<le> c \<and> c \<le> 13 \<or> 0x2000 \<le> c \<and> c \<le> 0x200A \<or>
     c \<in> {32, 0x85, 0xA0, 0x1680, 0x2028, 0x2029, 0x202F, 0x205F, 0x3000}"

definition trim_start :: "rchar list \<Rightarrow> rchar list" where
  "trim_start s = dropWhile is_whitespace s"

definition trim_end :: "rchar list \<Rightarrow> rchar list" where
  "trim_end s = rev (dropWhile is_whitespace (rev s))"

definition trim :: "rchar list \<Rightarrow> rchar list" where
  "trim s = trim_end (trim_start s)"

fun is_prefix :: "rchar list \<Rightarrow> rchar list \<Rightarrow> bool" where
  "is_prefix [] _ = True"
| "is_prefix (_ # _) [] = False"
| "is_prefix (p # ps) (c # cs) = (p = c \<and> is_prefix ps cs)"

fun split_once :: "rchar list \<Rightarrow> rchar list \<Rightarrow> (rchar list \<times> rchar list) option" where
  "split_once pat s =
     (if is_prefix pat s then Some ([], drop (length pat) s)
      else case s of [] \<Rightarrow> None | c # cs \<Rightarrow> map_option (\<lambda>(a, b). (c # a, b)) (split_once pat cs))"

declare split_once.simps [simp del]

definition rsplit_once :: "rchar list \<Rightarrow> rchar list \<Rightarrow> (rchar list \<times> rchar list) option" where
  "rsplit_once pat s = map_option (\<lambda>(a, b). (rev b, rev a)) (split_once (rev pat) (rev s))"

definition str_contains :: "rchar list \<Rightarrow> rchar list \<Rightarrow> bool" where
  "str_contains s pat = (split_once pat s \<noteq> None)"

lemma is_prefix_length: "is_prefix p t \<Longrightarrow> length p \<le> length t"
  by (induction p t rule: is_prefix.induct) auto

lemma split_once_length:
  "split_once pat s = Some (a, b) \<Longrightarrow> length b + length a + length pat = length s"
proof (induction s arbitrary: a)
  case Nil
  then show ?case by (cases pat) (auto simp: split_once.simps [of _ "[]"])
next
  case (Cons c s)
  show ?case
  proof (cases "is_prefix pat (c # s)")
    case True
    then show ?thesis using Cons.prems is_prefix_length [OF True] by (auto simp: split_once.simps [of pat "c # s"])
  next
    case False
    then obtain a' where "split_once pat s = Some (a', b)" "a = c # a'"
      using Cons.prems by (auto simp: split_once.simps [of pat "c # s"])
    then show ?thesis using Cons.IH by simp
  qed
qed

function split_by :: "rchar list \<Rightarrow> rchar list \<Rightarrow> rchar list list" where
  "split_by pat s =
     (if pat = [] then [] # map (\<lambda>c. [c]) s @ [[]]
      else case split_once pat s of None \<Rightarrow> [s] | Some (a, b) \<Rightarrow> a # split_by pat b)"
  by pat_completeness auto

termination
proof (relation "measure (\<lambda>(p, s). length s)", simp)
  fix pat s :: "rchar list" and x a b
  assume "pat \<noteq> []" "split_once pat s = Some x" "(a, b) = x"
  then show "((pat, b), (pat, s)) \<in> measure (\<lambda>(p, s). length s)"
    using split_once_length [of pat s a b] by (cases pat) auto
qed

declare split_by.simps [simp del]

definition rsplit_by :: "rchar list \<Rightarrow> rchar list \<Rightarrow> rchar list list" where
  "rsplit_by pat s = map rev (split_by (rev pat) (rev s))"

definition str_lines :: "rchar list \<Rightarrow> rchar list list" where
  "str_lines s =
     (let ls = split_by [10] s; ls' = (if last ls = [] then butlast ls else ls)
      in map (\<lambda>l. if l \<noteq> [] \<and> last l = 13 then butlast l else l) ls')"

fun words_loop :: "rchar list \<Rightarrow> rchar list \<Rightarrow> rchar list list" where
  "words_loop w [] = (if w = [] then [] else [w])"
| "words_loop w (c # cs) =
     (if is_whitespace c then (if w = [] then [] else [w]) @ words_loop [] cs else words_loop (w @ [c]) cs)"

definition split_whitespace :: "rchar list \<Rightarrow> rchar list list" where
  "split_whitespace s = words_loop [] s"

definition eq_ignore_case :: "rchar list \<Rightarrow> rchar list \<Rightarrow> bool" where
  "eq_ignore_case a b \<longleftrightarrow> map ascii_lowercase a = map ascii_lowercase b"

subsection \<open>Arrays\<close>

definition fn_count :: expr_function where
  "fn_count = arg1 (\<lambda>a. variable_of_usize
     (case a of Var_Array l \<Rightarrow> length l | _ \<Rightarrow> if var_is_empty a then 0 else 1))"

definition fn_sort :: "text_env \<Rightarrow> expr_function" where
  "fn_sort env = arg2 (\<lambda>a b.
     Var_Array (sort_unstable_by env (if var_to_bool b then \<lambda>x y. var_cmp y x else var_cmp) (var_into_array a)))"

definition contains_item :: "variable list \<Rightarrow> variable \<Rightarrow> bool" where
  "contains_item l v = list_ex (\<lambda>x. var_eq x v) l"

fun dedup_loop :: "variable list \<Rightarrow> variable list \<Rightarrow> variable list" where
  "dedup_loop result [] = result"
| "dedup_loop result (i # is) = dedup_loop (if contains_item result i then result else result @ [i]) is"

definition fn_dedup :: expr_function where
  "fn_dedup = arg1 (\<lambda>a. Var_Array (dedup_loop [] (var_into_array a)))"

definition fn_is_intersect :: expr_function where
  "fn_is_intersect = arg2 (\<lambda>a b. variable_of_bool
     (case (a, b) of
        (Var_Array x, Var_Array y) \<Rightarrow> list_ex (\<lambda>i. contains_item y i) x
      | (Var_Array x, i) \<Rightarrow> contains_item x i
      | (i, Var_Array y) \<Rightarrow> contains_item y i
      | _ \<Rightarrow> False))"

definition fn_winnow :: expr_function where
  "fn_winnow = arg1 (\<lambda>a. case a of Var_Array l \<Rightarrow> Var_Array (filter (\<lambda>i. \<not> var_is_empty i) l) | v \<Rightarrow> v)"

subsection \<open>Addresses of mail\<close>

record email_state =
  last_ch :: u8
  in_quote :: bool
  at_count :: nat
  dot_count :: nat
  lp_len :: nat
  ch_value :: nat

definition is_atom_byte :: "u8 \<Rightarrow> bool" where
  "is_atom_byte c \<longleftrightarrow>
     48 \<le> c \<and> c \<le> 57 \<or> 97 \<le> c \<and> c \<le> 122 \<or> 65 \<le> c \<and> c \<le> 90 \<or> 0x7f \<le> c \<or>
     c \<in> set (ascii ''!#$%&'' @ [39] @ ascii ''*+-/=?^_`{|}~'')"

definition email_step :: "u8 \<Rightarrow> email_state \<Rightarrow> email_state option" where
  "email_step ch s =
     map_option (\<lambda>s. s\<lparr>last_ch := ch\<rparr>)
       (if is_atom_byte ch then Some (s\<lparr>ch_value := ch_value s + 1\<rparr>)
        else if ch = 46 \<and> \<not> in_quote s then
          (if last_ch s \<noteq> 46 \<and> last_ch s \<noteq> 64 \<and> ch_value s \<noteq> 0
           then Some (s\<lparr>ch_value := ch_value s + 1, dot_count := dot_count s + (if at_count s = 1 then 1 else 0)\<rparr>)
           else None)
        else if ch = 64 \<and> \<not> in_quote s then
          Some (s\<lparr>at_count := at_count s + 1, lp_len := ch_value s, ch_value := 0\<rparr>)
        else if ch \<in> {62, 58, 44, 32} \<and> in_quote s then Some (s\<lparr>ch_value := ch_value s + 1\<rparr>)
        else if ch = 34 \<and> (\<not> in_quote s \<or> last_ch s \<noteq> 92) then Some (s\<lparr>in_quote := \<not> in_quote s\<rparr>)
        else if ch = 92 \<and> in_quote s \<and> last_ch s \<noteq> 92 then Some s
        else if \<not> in_quote s then None
        else Some s)"

fun email_loop :: "bytes \<Rightarrow> email_state \<Rightarrow> bool" where
  "email_loop [] s = (at_count s = 1 \<and> 0 < dot_count s \<and> 0 < lp_len s \<and> 0 < ch_value s)"
| "email_loop (ch # cs) s = (case email_step ch s of None \<Rightarrow> False | Some s' \<Rightarrow> email_loop cs s')"

definition is_email :: "rchar list \<Rightarrow> bool" where
  "is_email s =
     email_loop (utf8_encode s)
       \<lparr>last_ch = 0, in_quote = False, at_count = 0, dot_count = 0, lp_len = 0, ch_value = 0\<rparr>"

definition fn_is_email :: expr_function where
  "fn_is_email = arg1 (\<lambda>a. variable_of_bool (is_email (var_to_string a)))"

definition email_part :: "rchar list \<Rightarrow> rchar list \<Rightarrow> variable" where
  "email_part part s =
     (case rsplit_once [64] s of
        None \<Rightarrow> variable_default
      | Some (u, d) \<Rightarrow>
          if part = lit ''local'' then Var_String (trim u)
          else if part = lit ''domain'' then Var_String (trim d)
          else variable_default)"

definition fn_email_part :: expr_function where
  "fn_email_part = arg2 (\<lambda>a b. transform (email_part (var_to_string b)) a)"

subsection \<open>Kinds of values\<close>

definition fn_is_empty :: expr_function where
  "fn_is_empty = arg1 (\<lambda>a. variable_of_bool
     (case a of Var_String s \<Rightarrow> s = [] | Var_Array l \<Rightarrow> l = [] | _ \<Rightarrow> False))"

definition fn_is_number :: expr_function where
  "fn_is_number = arg1 (\<lambda>a. variable_of_bool (case a of Var_Integer _ \<Rightarrow> True | Var_Float _ \<Rightarrow> True | _ \<Rightarrow> False))"

definition fn_is_ip_addr :: expr_function where
  "fn_is_ip_addr = arg1 (\<lambda>a. variable_of_bool (parse_ip_addr (var_to_string a) \<noteq> None))"

definition fn_is_ipv4_addr :: expr_function where
  "fn_is_ipv4_addr = arg1 (\<lambda>a. variable_of_bool
     (case parse_ip_addr (var_to_string a) of Some (V4 _) \<Rightarrow> True | _ \<Rightarrow> False))"

definition fn_is_ipv6_addr :: expr_function where
  "fn_is_ipv6_addr = arg1 (\<lambda>a. variable_of_bool
     (case parse_ip_addr (var_to_string a) of Some (V6 _) \<Rightarrow> True | _ \<Rightarrow> False))"

definition fn_ip_reverse_name :: "text_env \<Rightarrow> expr_function" where
  "fn_ip_reverse_name env = arg1 (\<lambda>a. Var_String
     (case parse_ip_addr (var_to_string a) of Some ip \<Rightarrow> to_reverse_name env ip | None \<Rightarrow> []))"

subsection \<open>Text\<close>

definition fn_trim :: expr_function where
  "fn_trim = arg1 (transform (\<lambda>s. Var_String (trim s)))"

definition fn_trim_end :: expr_function where
  "fn_trim_end = arg1 (transform (\<lambda>s. Var_String (trim_end s)))"

definition fn_trim_start :: expr_function where
  "fn_trim_start = arg1 (transform (\<lambda>s. Var_String (trim_start s)))"

definition fn_len :: expr_function where
  "fn_len = arg1 (\<lambda>a. variable_of_usize
     (case a of Var_Array l \<Rightarrow> length l | _ \<Rightarrow> length (utf8_encode (var_to_string a))))"

definition fn_to_lowercase :: "text_env \<Rightarrow> expr_function" where
  "fn_to_lowercase env = arg1 (transform (\<lambda>s. Var_String (to_lowercase env s)))"

definition fn_to_uppercase :: "text_env \<Rightarrow> expr_function" where
  "fn_to_uppercase env = arg1 (transform (\<lambda>s. Var_String (to_uppercase env s)))"

definition fn_is_uppercase :: "text_env \<Rightarrow> expr_function" where
  "fn_is_uppercase env = arg1 (transform (\<lambda>s. variable_of_bool
     (list_all (is_uppercase env) (filter (is_alphabetic env) s))))"

definition fn_is_lowercase :: "text_env \<Rightarrow> expr_function" where
  "fn_is_lowercase env = arg1 (transform (\<lambda>s. variable_of_bool
     (list_all (is_lowercase env) (filter (is_alphabetic env) s))))"

definition fn_has_digits :: expr_function where
  "fn_has_digits = arg1 (transform (\<lambda>s. variable_of_bool (list_ex is_digit s)))"

definition fn_split_words :: "text_env \<Rightarrow> expr_function" where
  "fn_split_words env = arg1 (\<lambda>a. Var_Array (map Var_String
     (filter (list_all (\<lambda>c. is_alphabetic env c \<or> is_numeric env c)) (split_whitespace (var_to_string a)))))"

definition fn_count_spaces :: expr_function where
  "fn_count_spaces = arg1 (\<lambda>a. variable_of_usize (length (filter is_whitespace (var_to_string a))))"

definition fn_count_uppercase :: "text_env \<Rightarrow> expr_function" where
  "fn_count_uppercase env = arg1 (\<lambda>a. variable_of_usize
     (length (filter (\<lambda>c. is_alphabetic env c \<and> is_uppercase env c) (var_to_string a))))"

definition fn_count_lowercase :: "text_env \<Rightarrow> expr_function" where
  "fn_count_lowercase env = arg1 (\<lambda>a. variable_of_usize
     (length (filter (\<lambda>c. is_alphabetic env c \<and> is_lowercase env c) (var_to_string a))))"

definition fn_count_chars :: expr_function where
  "fn_count_chars = arg1 (\<lambda>a. variable_of_usize (length (var_to_string a)))"

definition fn_eq_ignore_case :: expr_function where
  "fn_eq_ignore_case = arg2 (\<lambda>a b. variable_of_bool (eq_ignore_case (var_to_string a) (var_to_string b)))"

definition fn_contains :: expr_function where
  "fn_contains = arg2 (\<lambda>a b. variable_of_bool
     (case a of Var_Array l \<Rightarrow> contains_item l b | _ \<Rightarrow> str_contains (var_to_string a) (var_to_string b)))"

definition fn_contains_ignore_case :: "text_env \<Rightarrow> expr_function" where
  "fn_contains_ignore_case env = arg2 (\<lambda>a b. let needle = var_to_string b in variable_of_bool
     (case a of
        Var_String s \<Rightarrow> str_contains (to_lowercase env s) (to_lowercase env needle)
      | Var_Array l \<Rightarrow> list_ex (\<lambda>v. case v of Var_String s \<Rightarrow> eq_ignore_case s needle | _ \<Rightarrow> False) l
      | _ \<Rightarrow> str_contains (var_to_string a) needle))"

definition fn_starts_with :: expr_function where
  "fn_starts_with = arg2 (\<lambda>a b. variable_of_bool (is_prefix (var_to_string b) (var_to_string a)))"

definition fn_ends_with :: expr_function where
  "fn_ends_with = arg2 (\<lambda>a b. variable_of_bool (is_prefix (rev (var_to_string b)) (rev (var_to_string a))))"

definition fn_lines :: expr_function where
  "fn_lines = arg1 (\<lambda>a. case a of Var_String s \<Rightarrow> Var_Array (map Var_String (str_lines s)) | v \<Rightarrow> v)"

definition usize_or_default :: "variable \<Rightarrow> nat" where
  "usize_or_default v = (case var_to_usize v of Some n \<Rightarrow> n | None \<Rightarrow> 0)"

definition fn_substring :: expr_function where
  "fn_substring = arg3 (\<lambda>a b c. Var_String (take (usize_or_default c) (drop (usize_or_default b) (var_to_string a))))"

definition strip_prefix :: "rchar list \<Rightarrow> rchar list \<Rightarrow> rchar list option" where
  "strip_prefix p s = (if is_prefix p s then Some (drop (length p) s) else None)"

definition strip_suffix :: "rchar list \<Rightarrow> rchar list \<Rightarrow> rchar list option" where
  "strip_suffix p s = map_option rev (strip_prefix (rev p) (rev s))"

definition string_or_default :: "rchar list option \<Rightarrow> variable" where
  "string_or_default s = (case s of Some s \<Rightarrow> Var_String s | None \<Rightarrow> variable_default)"

definition fn_strip_prefix :: expr_function where
  "fn_strip_prefix = arg2 (\<lambda>a b. transform (\<lambda>s. string_or_default (strip_prefix (var_to_string b) s)) a)"

definition fn_strip_suffix :: expr_function where
  "fn_strip_suffix = arg2 (\<lambda>a b. transform (\<lambda>s. string_or_default (strip_suffix (var_to_string b) s)) a)"

definition fn_split :: expr_function where
  "fn_split = arg2 (\<lambda>a b. Var_Array (map Var_String (split_by (var_to_string b) (var_to_string a))))"

definition fn_rsplit :: expr_function where
  "fn_rsplit = arg2 (\<lambda>a b. Var_Array (map Var_String (rsplit_by (var_to_string b) (var_to_string a))))"

fun split_n :: "nat \<Rightarrow> rchar list \<Rightarrow> rchar list \<Rightarrow> rchar list list" where
  "split_n 0 pat s = [s]"
| "split_n (Suc n) pat s = (case split_once pat s of Some (a, b) \<Rightarrow> a # split_n n pat b | None \<Rightarrow> [s])"

definition fn_split_n :: expr_function where
  "fn_split_n = arg3 (\<lambda>a b c.
     let num = (case var_to_integer c of Some n \<Rightarrow> nat (n mod 2 ^ 64) | None \<Rightarrow> 0)
     in Var_Array (map Var_String (split_n num (var_to_string b) (var_to_string a))))"

definition pair_or_default :: "(rchar list \<times> rchar list) option \<Rightarrow> variable" where
  "pair_or_default p =
     (case p of Some (a, b) \<Rightarrow> Var_Array [Var_String a, Var_String b] | None \<Rightarrow> variable_default)"

definition fn_split_once :: expr_function where
  "fn_split_once = arg2 (\<lambda>a b. pair_or_default (split_once (var_to_string b) (var_to_string a)))"

definition fn_rsplit_once :: expr_function where
  "fn_rsplit_once = arg2 (\<lambda>a b. pair_or_default (rsplit_once (var_to_string b) (var_to_string a)))"

subsection \<open>The table\<close>

definition FUNCTIONS :: "text_env \<Rightarrow> (rchar list \<times> expr_function \<times> u32) list" where
  "FUNCTIONS env =
     [(lit ''count'', fn_count, 1),
      (lit ''sort'', fn_sort env, 2),
      (lit ''dedup'', fn_dedup, 1),
      (lit ''winnow'', fn_winnow, 1),
      (lit ''is_intersect'', fn_is_intersect, 2),
      (lit ''is_email'', fn_is_email, 1),
      (lit ''email_part'', fn_email_part, 2),
      (lit ''is_empty'', fn_is_empty, 1),
      (lit ''is_number'', fn_is_number, 1),
      (lit ''is_ip_addr'', fn_is_ip_addr, 1),
      (lit ''is_ipv4_addr'', fn_is_ipv4_addr, 1),
      (lit ''is_ipv6_addr'', fn_is_ipv6_addr, 1),
      (lit ''ip_reverse_name'', fn_ip_reverse_name env, 1),
      (lit ''trim'', fn_trim, 1),
      (lit ''trim_end'', fn_trim_end, 1),
      (lit ''trim_start'', fn_trim_start, 1),
      (lit ''len'', fn_len, 1),
      (lit ''to_lowercase'', fn_to_lowercase env, 1),
      (lit ''to_uppercase'', fn_to_uppercase env, 1),
      (lit ''is_uppercase'', fn_is_uppercase env, 1),
      (lit ''is_lowercase'', fn_is_lowercase env, 1),
      (lit ''has_digits'', fn_has_digits, 1),
      (lit ''count_spaces'', fn_count_spaces, 1),
      (lit ''count_uppercase'', fn_count_uppercase env, 1),
      (lit ''count_lowercase'', fn_count_lowercase env, 1),
      (lit ''count_chars'', fn_count_chars, 1),
      (lit ''contains'', fn_contains, 2),
      (lit ''contains_ignore_case'', fn_contains_ignore_case env, 2),
      (lit ''eq_ignore_case'', fn_eq_ignore_case, 2),
      (lit ''starts_with'', fn_starts_with, 2),
      (lit ''ends_with'', fn_ends_with, 2),
      (lit ''lines'', fn_lines, 1),
      (lit ''substring'', fn_substring, 3),
      (lit ''strip_prefix'', fn_strip_prefix, 2),
      (lit ''strip_suffix'', fn_strip_suffix, 2),
      (lit ''split'', fn_split, 2),
      (lit ''rsplit'', fn_rsplit, 2),
      (lit ''split_once'', fn_split_once, 2),
      (lit ''rsplit_once'', fn_rsplit_once, 2),
      (lit ''split_n'', fn_split_n, 3),
      (lit ''split_words'', fn_split_words env, 1)]"

definition ASYNC_FUNCTIONS :: "(rchar list \<times> u32 \<times> u32) list" where
  "ASYNC_FUNCTIONS =
     [(lit ''is_local_domain'', 0, 2),
      (lit ''is_local_address'', 1, 2),
      (lit ''key_get'', 2, 2),
      (lit ''key_exists'', 3, 2),
      (lit ''key_set'', 4, 3),
      (lit ''counter_incr'', 5, 3),
      (lit ''counter_get'', 6, 2),
      (lit ''dns_query'', 8, 2),
      (lit ''sql_query'', 7, 3)]"

lemmas fn_defs =
  fn_count_def fn_sort_def fn_dedup_def fn_winnow_def fn_is_intersect_def fn_is_email_def fn_email_part_def
  fn_is_empty_def fn_is_number_def fn_is_ip_addr_def fn_is_ipv4_addr_def fn_is_ipv6_addr_def
  fn_ip_reverse_name_def fn_trim_def fn_trim_end_def fn_trim_start_def fn_len_def fn_to_lowercase_def
  fn_to_uppercase_def fn_is_uppercase_def fn_is_lowercase_def fn_has_digits_def fn_count_spaces_def
  fn_count_uppercase_def fn_count_lowercase_def fn_count_chars_def fn_contains_def
  fn_contains_ignore_case_def fn_eq_ignore_case_def fn_starts_with_def fn_ends_with_def fn_lines_def
  fn_substring_def fn_strip_prefix_def fn_strip_suffix_def fn_split_def fn_rsplit_def fn_split_once_def
  fn_rsplit_once_def fn_split_n_def fn_split_words_def

lemma arg_defined:
  "arg1 f v = None \<longleftrightarrow> v = []"
  "arg2 g v = None \<longleftrightarrow> length v < 2"
  "arg3 h v = None \<longleftrightarrow> length v < 3"
  "(\<exists>y. arg1 f v = Some y) \<longleftrightarrow> v \<noteq> []"
  "(\<exists>y. arg2 g v = Some y) \<longleftrightarrow> 2 \<le> length v"
  "(\<exists>y. arg3 h v = Some y) \<longleftrightarrow> 3 \<le> length v"
  by (auto simp: arg1_def arg2_def arg3_def split: list.splits)

text \<open>No function of the table panics when it gets the number of arguments of the table.\<close>

lemma functions_defined:
  assumes "(n, f, k) \<in> set (FUNCTIONS env)" "length v = unat k"
  shows "f v \<noteq> None"
proof -
  have "\<forall>(n, f, k) \<in> set (FUNCTIONS env). \<forall>v. length v = unat k \<longrightarrow> f v \<noteq> None"
    unfolding FUNCTIONS_def fn_defs by (auto simp: arg_defined)
  then show ?thesis using assms by fast
qed

end
