(* ===== verification/Expr_Parser.thy ===== *)
theory Expr_Parser
  imports Expr_Value
begin

section \<open>The parser of expressions\<close>

text \<open>
  \<^verbatim>\<open>src/crates/common/src/expr/parser.rs\<close>: the tokens of an expression are turned into a
  program for a stack machine, with operators waiting on a stack and jumps for the operators that
  do not always need their second operand. A compiled regular expression is of the type
  \<open>'r\<close>. The stacks are lists with the top first.
\<close>

datatype binary_operator = Add | Subtract | Multiply | Divide | And | Or | Xor | Eq | Ne | Lt | Le | Gt | Ge

datatype unary_operator = Not | Minus

datatype 'r token =
  Tok_Variable u32 | Tok_Capture u32 | Tok_Function "rchar list" u32 u32 | Tok_Constant expr_constant
| Tok_Regex 'r | Tok_Binary binary_operator | Tok_Unary unary_operator
| OpenParen | CloseParen | OpenBracket | CloseBracket | Comma

datatype 'r expression_item =
  Item_Variable u32 | Item_Capture u32 | Item_Constant expr_constant | Item_Binary binary_operator
| Item_Unary unary_operator | Item_Regex 'r | JmpIf bool u32 | Item_Function u32 u32
| ArrayAccess | ArrayBuild u32

text \<open>The messages of the parser, and the panic of an \<open>unwrap\<close> or of an index.\<close>

datatype parse_error =
  Mismatched_Parentheses | Wrong_Arguments "rchar list" u32 int | Missing_Index | Matches_Arguments
| Invalid_Token | Parse_Panic

definition precedence :: "binary_operator \<Rightarrow> nat" where
  "precedence op =
     (case op of
        Multiply \<Rightarrow> 7 | Divide \<Rightarrow> 7 | Add \<Rightarrow> 6 | Subtract \<Rightarrow> 6
      | Gt \<Rightarrow> 5 | Ge \<Rightarrow> 5 | Lt \<Rightarrow> 5 | Le \<Rightarrow> 5 | Eq \<Rightarrow> 4 | Ne \<Rightarrow> 4
      | Xor \<Rightarrow> 3 | And \<Rightarrow> 2 | Or \<Rightarrow> 1)"

definition ID_ARRAY_ACCESS :: u32 where "ID_ARRAY_ACCESS = u32_MAX"
definition ID_ARRAY_BUILD :: u32 where "ID_ARRAY_BUILD = u32_MAX - 1"

type_synonym 'r operators = "('r token \<times> nat option) list"

record 'r expression_parser =
  out_items :: "'r expression_item list"
  operator_stack :: "'r operators"
  arg_count :: "int list"
  last_is_var_or_fnc :: bool

definition expression_parser_new :: "'r expression_parser" where
  "expression_parser_new = \<lparr>out_items = [], operator_stack = [], arg_count = [], last_is_var_or_fnc = False\<rparr>"

subsection \<open>Arguments and jumps\<close>

definition count_item :: "'r token \<times> nat option \<Rightarrow> 'r token \<times> nat option" where
  "count_item op =
     (case op of
        (Tok_Function name fid num_args, j) \<Rightarrow>
          if fid = ID_ARRAY_BUILD then (Tok_Function name fid (num_args + 1), j) else op
      | _ \<Rightarrow> op)"

definition count_below :: "'r operators \<Rightarrow> 'r operators" where
  "count_below ops =
     (case ops of [] \<Rightarrow> [] | [t] \<Rightarrow> [count_item t] | t # u # r \<Rightarrow> t # count_item u # r)"

definition inc_arg_count :: "'r expression_parser \<Rightarrow> 'r expression_parser" where
  "inc_arg_count st =
     (case arg_count st of
        [] \<Rightarrow> st
      | x # xs \<Rightarrow>
          st\<lparr>arg_count := min (2 ^ 31 - 1) (x + 1) # xs, operator_stack := count_below (operator_stack st)\<rparr>)"

definition dec_arg_count :: "'r expression_parser \<Rightarrow> 'r expression_parser" where
  "dec_arg_count st =
     (case arg_count st of
        [] \<Rightarrow> st
      | x # xs \<Rightarrow> st\<lparr>arg_count := max (- (2 ^ 31)) (x - 1) # xs\<rparr>)"

definition update_jmp_pos :: "nat option \<Rightarrow> 'r expression_item list \<Rightarrow> parse_error + 'r expression_item list" where
  "update_jmp_pos jmp out =
     (case jmp of
        None \<Rightarrow> Inr out
      | Some j \<Rightarrow>
          if j < length out then
            (case out ! j of
               JmpIf val _ \<Rightarrow> Inr (out[j := JmpIf val (of_nat (length out - j))])
             | _ \<Rightarrow> Inr out)
          else Inl Parse_Panic)"

text \<open>The loops that move operators from the stack to the output. The one of a binary operator of
  precedence \<open>k\<close> stops at an operator that binds less; the loops of closing brackets, of
  commas and of the end move all operators, \<open>k = 0\<close>, and then look at what stopped them.\<close>

fun pop_operators ::
    "nat \<Rightarrow> 'r operators \<Rightarrow> 'r expression_item list \<Rightarrow> parse_error + 'r operators \<times> 'r expression_item list" where
  "pop_operators k ((Tok_Binary op, j) # ops) out =
     (if k \<le> precedence op
      then rbind (update_jmp_pos j out) (\<lambda>out'. pop_operators k ops (out' @ [Item_Binary op]))
      else Inr ((Tok_Binary op, j) # ops, out))"
| "pop_operators k ((Tok_Unary op, j) # ops) out = pop_operators k ops (out @ [Item_Unary op])"
| "pop_operators k ops out = Inr (ops, out)"

subsection \<open>One token\<close>

definition push_item :: "bool \<Rightarrow> 'r expression_item \<Rightarrow> 'r expression_parser \<Rightarrow> 'r expression_parser" where
  "push_item is_var i st = st\<lparr>out_items := out_items st @ [i], last_is_var_or_fnc := is_var\<rparr>"

definition push_operator :: "'r token \<Rightarrow> nat option \<Rightarrow> 'r expression_parser \<Rightarrow> 'r expression_parser" where
  "push_operator t j st = st\<lparr>operator_stack := (t, j) # operator_stack st, last_is_var_or_fnc := False\<rparr>"

definition function_item :: "u32 \<Rightarrow> u32 \<Rightarrow> 'r expression_item" where
  "function_item fid num_args =
     (if fid = ID_ARRAY_ACCESS then ArrayAccess
      else if fid = ID_ARRAY_BUILD then ArrayBuild num_args
      else Item_Function fid num_args)"

text \<open>The function a closing bracket belongs to.\<close>

definition close_call :: "'r expression_parser \<Rightarrow> parse_error + 'r expression_parser" where
  "close_call st =
     (case operator_stack st of
        (Tok_Function name fid num_args, _) # ops \<Rightarrow>
          (case arg_count st of
             [] \<Rightarrow> Inl Parse_Panic
           | got # acs \<Rightarrow>
               if got \<noteq> sint num_args
               then Inl (if fid \<noteq> u32_MAX then Wrong_Arguments name num_args got else Missing_Index)
               else Inr (push_item True (function_item fid num_args) (st\<lparr>operator_stack := ops, arg_count := acs\<rparr>)))
      | (Tok_Regex r, _) # ops \<Rightarrow>
          (case arg_count st of
             [] \<Rightarrow> Inl Parse_Panic
           | got # acs \<Rightarrow>
               if got \<noteq> 1 then Inl Matches_Arguments
               else Inr (push_item True (Item_Regex r) (st\<lparr>operator_stack := ops, arg_count := acs\<rparr>)))
      | _ \<Rightarrow> Inr (st\<lparr>last_is_var_or_fnc := True\<rparr>))"

definition close_token :: "bool \<Rightarrow> 'r token \<Rightarrow> bool" where
  "close_token paren t = (case t of OpenParen \<Rightarrow> paren | OpenBracket \<Rightarrow> \<not> paren | _ \<Rightarrow> False)"

definition close_group :: "bool \<Rightarrow> 'r expression_parser \<Rightarrow> parse_error + 'r expression_parser" where
  "close_group paren st =
     rbind (pop_operators 0 (operator_stack st) (out_items st)) (\<lambda>(ops, out).
       case ops of
         (t, _) # ops' \<Rightarrow>
           if close_token paren t then close_call (st\<lparr>operator_stack := ops', out_items := out\<rparr>)
           else Inl Mismatched_Parentheses
       | [] \<Rightarrow> Inl Mismatched_Parentheses)"

definition push_binary :: "binary_operator \<Rightarrow> 'r expression_parser \<Rightarrow> 'r expression_parser" where
  "push_binary op st =
     (let jmp = (case op of And \<Rightarrow> Some False | Or \<Rightarrow> Some True | _ \<Rightarrow> None)
      in case jmp of
           Some val \<Rightarrow> push_operator (Tok_Binary op) (Some (length (out_items st))) (push_item False (JmpIf val 0) st)
         | None \<Rightarrow> push_operator (Tok_Binary op) None st)"

definition open_call :: "int \<Rightarrow> 'r token \<Rightarrow> 'r expression_parser \<Rightarrow> 'r expression_parser" where
  "open_call args t st = push_operator t None (st\<lparr>arg_count := args # arg_count st\<rparr>)"

definition array_token :: "u32 \<Rightarrow> u32 \<Rightarrow> 'r token" where
  "array_token fid num_args = Tok_Function (lit ''array'') fid num_args"

fun parse_step :: "'r token \<Rightarrow> 'r expression_parser \<Rightarrow> parse_error + 'r expression_parser" where
  "parse_step (Tok_Variable v) st = Inr (push_item True (Item_Variable v) (inc_arg_count st))"
| "parse_step (Tok_Constant c) st = Inr (push_item False (Item_Constant c) (inc_arg_count st))"
| "parse_step (Tok_Capture c) st = Inr (push_item False (Item_Capture c) (inc_arg_count st))"
| "parse_step (Tok_Unary op) st = Inr (push_operator (Tok_Unary op) None st)"
| "parse_step OpenParen st = Inr (push_operator OpenParen None st)"
| "parse_step CloseParen st = close_group True st"
| "parse_step CloseBracket st = close_group False st"
| "parse_step (Tok_Binary op) st =
     rbind (pop_operators (precedence op) (operator_stack st) (out_items st)) (\<lambda>(ops, out).
       Inr (push_binary op ((dec_arg_count st)\<lparr>operator_stack := ops, out_items := out\<rparr>)))"
| "parse_step (Tok_Function name fid num_args) st =
     Inr (open_call 0 (Tok_Function name fid num_args) (inc_arg_count st))"
| "parse_step (Tok_Regex r) st = Inr (open_call 0 (Tok_Regex r) (inc_arg_count st))"
| "parse_step OpenBracket st =
     Inr (push_operator OpenBracket None
       (if last_is_var_or_fnc st then open_call 1 (array_token ID_ARRAY_ACCESS 2) st
        else open_call 0 (array_token ID_ARRAY_BUILD 0) (inc_arg_count st)))"
| "parse_step Comma st =
     rbind (pop_operators 0 (operator_stack st) (out_items st)) (\<lambda>(ops, out).
       Inr (st\<lparr>operator_stack := ops, out_items := out, last_is_var_or_fnc := False\<rparr>))"

definition parse_end :: "'r expression_parser \<Rightarrow> parse_error + 'r expression_item list" where
  "parse_end st =
     rbind (pop_operators 0 (operator_stack st) (out_items st)) (\<lambda>(ops, out).
       if ops = [] then Inr out else Inl Invalid_Token)"

text \<open>The tokens of a whole expression.\<close>

fun parse_steps :: "'r token list \<Rightarrow> 'r expression_parser \<Rightarrow> parse_error + 'r expression_parser" where
  "parse_steps [] st = Inr st"
| "parse_steps (t # ts) st = rbind (parse_step t st) (parse_steps ts)"

definition parse_tokens :: "'r token list \<Rightarrow> parse_error + 'r expression_item list" where
  "parse_tokens ts = rbind (parse_steps ts expression_parser_new) parse_end"

end
