(* ===== verification/Expr_Tokenizer.thy ===== *)
theory Expr_Tokenizer
  imports Expr_Functions Expr_Parser
begin

section \<open>The tokens of expressions\<close>

text \<open>
  \<^verbatim>\<open>src/crates/common/src/expr/tokenizer.rs\<close>: the text of an expression is read byte by
  byte. The names a context knows are a map to tokens; compiling a regular expression is an argument
  of the third-party engine.
\<close>

record 'r token_env =
  token_map :: "rchar list \<Rightarrow> 'r token option"
  regex_new :: "rchar list \<Rightarrow> 'r option"
  token_functions :: text_env

datatype token_error =
  Unmatched_Close | Unmatched_Open | Invalid_Character u8 | Unexpected_Character u8 u8 | Unexpected_End
| Unterminated_String | Invalid_UTF8 | Invalid_Regex "rchar list" | Invalid_Float "rchar list"
| Invalid_Integer "rchar list" | Invalid_Name "rchar list"

record 'r tokenizer =
  iter :: bytes
  buf :: bytes
  depth :: u32
  next_token :: "'r token list"
  has_number :: bool
  has_dot :: bool
  has_alpha :: bool
  is_start :: bool
  is_eof :: bool

definition tokenizer_new :: "bytes \<Rightarrow> 'r tokenizer" where
  "tokenizer_new expr =
     \<lparr>iter = expr, buf = [], depth = 0, next_token = [], has_number = False, has_dot = False,
      has_alpha = False, is_start = True, is_eof = False\<rparr>"

subsection \<open>The names of variables\<close>

definition VARIABLES_MAP :: "(rchar list \<times> u32) list" where
  "VARIABLES_MAP =
     [(lit ''rcpt'', 0), (lit ''rcpt_domain'', 1), (lit ''sender'', 2), (lit ''sender_domain'', 3),
      (lit ''mx'', 4), (lit ''helo_domain'', 5), (lit ''authenticated_as'', 6), (lit ''listener'', 7),
      (lit ''remote_ip'', 8), (lit ''local_ip'', 10), (lit ''priority'', 12), (lit ''local_port'', 11),
      (lit ''remote_port'', 9), (lit ''protocol'', 13), (lit ''is_tls'', 14), (lit ''recipients'', 15),
      (lit ''retry_num'', 16), (lit ''notify_num'', 17), (lit ''expires_in'', 18), (lit ''last_status'', 19),
      (lit ''last_error'', 20), (lit ''url'', 21), (lit ''url_path'', 22), (lit ''headers'', 23),
      (lit ''method'', 24)]"

definition with_variables :: "u32 list \<Rightarrow> (rchar list \<Rightarrow> 'r token option) \<Rightarrow> rchar list \<Rightarrow> 'r token option" where
  "with_variables vars m =
     fold (\<lambda>(name, idx) m. if idx \<in> set vars then m(name \<mapsto> Tok_Variable idx) else m) VARIABLES_MAP m"

definition with_all_variables :: "(rchar list \<Rightarrow> 'r token option) \<Rightarrow> rchar list \<Rightarrow> 'r token option" where
  "with_all_variables = with_variables [0, 1, 2, 3, 4, 5, 6, 7, 8, 9, 10, 11, 12, 13, 14, 16, 17, 18, 19, 20]"

definition set_constants :: "(rchar list \<times> expr_constant) list \<Rightarrow> (rchar list \<Rightarrow> 'r token option) \<Rightarrow> rchar list \<Rightarrow> 'r token option" where
  "set_constants consts m = fold (\<lambda>(name, c) m. m(name \<mapsto> Tok_Constant c)) consts m"

subsection \<open>Text in quotes\<close>

definition is_space_byte :: "u8 \<Rightarrow> bool" where
  "is_space_byte c \<longleftrightarrow> c \<in> {9, 10, 12, 13, 32}"

fun find_char :: "bytes \<Rightarrow> bytes \<Rightarrow> token_error + u8 \<times> bytes" where
  "find_char chars [] = Inl Unexpected_End"
| "find_char chars (ch # it) =
     (if is_space_byte ch then find_char chars it
      else if ch \<in> set chars then Inr (ch, it)
      else Inl (Unexpected_Character (hd chars) ch))"

definition unescape :: "u8 \<Rightarrow> u8" where
  "unescape ch = (if ch = 110 then 10 else if ch = 114 then 13 else if ch = 116 then 9 else ch)"

fun string_loop :: "u8 \<Rightarrow> u8 \<Rightarrow> bytes \<Rightarrow> bytes \<Rightarrow> (bytes \<times> bytes) option" where
  "string_loop stop_ch prev_ch acc [] = None"
| "string_loop stop_ch prev_ch acc (ch # it) =
     (if prev_ch \<noteq> 92 then
        (if ch \<noteq> stop_ch then string_loop stop_ch ch (acc @ [ch]) it else Some (acc, it))
      else string_loop stop_ch ch (acc @ [unescape ch]) it)"

definition parse_string :: "u8 \<Rightarrow> bytes \<Rightarrow> token_error + rchar list \<times> bytes" where
  "parse_string stop_ch it =
     (case string_loop stop_ch 0 [] it of
        None \<Rightarrow> Inl Unterminated_String
      | Some (acc, it') \<Rightarrow>
          (case from_utf8 acc of Some s \<Rightarrow> Inr (s, it') | None \<Rightarrow> Inl Invalid_UTF8))"

subsection \<open>Words\<close>

definition find_function :: "text_env \<Rightarrow> rchar list \<Rightarrow> 'r token option" where
  "find_function env s =
     (case List.find (\<lambda>(_, name, _, _). name = s) (enumerate 0 (FUNCTIONS env)) of
        Some (idx, name, _, num_args) \<Rightarrow> Some (Tok_Function name (of_nat idx) num_args)
      | None \<Rightarrow>
          (case List.find (\<lambda>(name, _, _). name = s) ASYNC_FUNCTIONS of
             Some (name, idx, num_args) \<Rightarrow> Some (Tok_Function name (idx + of_nat (length (FUNCTIONS env))) num_args)
           | None \<Rightarrow> None))"

definition find_capture :: "rchar list \<Rightarrow> 'r token option" where
  "find_capture s =
     (case s of
        c # cs \<Rightarrow> if c = 36 then map_option (\<lambda>n. Tok_Capture (of_nat n)) (parse_unsigned (2 ^ 32) cs) else None
      | [] \<Rightarrow> None)"

definition parse_word :: "'r token_env \<Rightarrow> rchar list \<Rightarrow> token_error + 'r token" where
  "parse_word env s =
     (case find_capture s of
        Some t \<Rightarrow> Inr t
      | None \<Rightarrow>
          (case find_function (token_functions env) s of
             Some t \<Rightarrow> Inr t
           | None \<Rightarrow>
               (case token_map env s of
                  Some t \<Rightarrow> Inr t
                | None \<Rightarrow>
                    (case parse_duration s of
                       Some d \<Rightarrow> Inr (Tok_Constant (Const_Integer (i64_of_usize (unat d))))
                     | None \<Rightarrow> Inl (Invalid_Name s)))))"

definition parse_buf :: "'r token_env \<Rightarrow> 'r tokenizer \<Rightarrow> (token_error + 'r token) \<times> 'r tokenizer" where
  "parse_buf env tz =
     (let s = from_utf8_or_default (buf tz); tz = tz\<lparr>buf := []\<rparr>
      in if has_number tz \<and> \<not> has_alpha tz then
           (if has_dot tz then
              (case parse_f64 s of Some f \<Rightarrow> Inr (Tok_Constant (Const_Float f)) | None \<Rightarrow> Inl (Invalid_Float s),
               tz\<lparr>has_number := False, has_dot := False\<rparr>)
            else
              (case parse_i64 s of Some i \<Rightarrow> Inr (Tok_Constant (Const_Integer i)) | None \<Rightarrow> Inl (Invalid_Integer s),
               tz\<lparr>has_number := False\<rparr>))
         else
           (if \<not> has_number tz \<and> \<not> has_dot tz \<and> s = lit ''true'' then Inr (Tok_Constant (Const_Integer 1))
            else if \<not> has_number tz \<and> \<not> has_dot tz \<and> s = lit ''false'' then Inr (Tok_Constant (Const_Integer 0))
            else parse_word env s,
            tz\<lparr>has_alpha := False, has_number := False, has_dot := False\<rparr>))"

subsection \<open>The next token\<close>

definition skip_peek :: "u8 \<Rightarrow> bytes \<Rightarrow> bool \<times> bytes" where
  "skip_peek c it = (case it of d # it' \<Rightarrow> if d = c then (True, it') else (False, it) | [] \<Rightarrow> (False, []))"

text \<open>The token of a delimiter, with what is left of the text. After an equals sign the next byte is
  consumed whatever it is.\<close>

definition delimiter :: "u8 \<Rightarrow> bytes \<Rightarrow> 'r tokenizer \<Rightarrow> token_error + 'r token \<times> bytes \<times> 'r tokenizer" where
  "delimiter ch it tz =
     (if ch = 38 then Inr (Tok_Binary And, snd (skip_peek 38 it), tz)
      else if ch = 124 then Inr (Tok_Binary Or, snd (skip_peek 124 it), tz)
      else if ch = 33 then
        (let (eq, it') = skip_peek 61 it in Inr (if eq then Tok_Binary Ne else Tok_Unary Not, it', tz))
      else if ch = 94 then Inr (Tok_Binary Xor, it, tz)
      else if ch = 40 then Inr (OpenParen, it, tz\<lparr>depth := depth tz + 1\<rparr>)
      else if ch = 41 then
        (if depth tz = 0 then Inl Unmatched_Close else Inr (CloseParen, it, tz\<lparr>depth := depth tz - 1\<rparr>))
      else if ch = 43 then Inr (Tok_Binary Add, it, tz)
      else if ch = 42 then Inr (Tok_Binary Multiply, it, tz)
      else if ch = 47 then Inr (Tok_Binary Divide, it, tz)
      else if ch = 45 then Inr (if is_start tz then Tok_Unary Minus else Tok_Binary Subtract, it, tz)
      else if ch = 61 then
        Inr (case it of c # _ \<Rightarrow> if c = 62 then Tok_Binary Ge else if c = 60 then Tok_Binary Le else Tok_Binary Eq
             | [] \<Rightarrow> Tok_Binary Eq, tl it, tz)
      else if ch = 62 then (let (eq, it') = skip_peek 61 it in Inr (Tok_Binary (if eq then Ge else Gt), it', tz))
      else if ch = 60 then (let (eq, it') = skip_peek 61 it in Inr (Tok_Binary (if eq then Le else Lt), it', tz))
      else if ch = 44 then Inr (Comma, it, tz)
      else if ch = 91 then Inr (OpenBracket, it, tz)
      else if ch = 93 then Inr (CloseBracket, it, tz)
      else if ch = 34 \<or> ch = 39 then
        rbind (parse_string ch it) (\<lambda>(s, it'). Inr (Tok_Constant (Const_String s), it', tz))
      else Inl (Invalid_Character ch))"

definition starts_operand :: "'r token \<Rightarrow> bool" where
  "starts_operand t = (case t of OpenParen \<Rightarrow> True | Comma \<Rightarrow> True | Tok_Binary _ \<Rightarrow> True | _ \<Rightarrow> False)"

text \<open>The word before a delimiter, or a regular expression before its parenthesis.\<close>

definition word_before ::
    "'r token_env \<Rightarrow> u8 \<Rightarrow> bytes \<Rightarrow> 'r tokenizer \<Rightarrow> token_error + 'r token option \<times> bytes \<times> 'r tokenizer" where
  "word_before env ch it tz =
     (if ch = 40 \<and> buf tz = ascii ''matches'' then
        rbind (find_char [34, 39] it) (\<lambda>(stop_ch, it1).
          rbind (parse_string stop_ch it1) (\<lambda>(s, it2).
            case regex_new env s of
              None \<Rightarrow> Inl (Invalid_Regex s)
            | Some r \<Rightarrow>
                rbind (find_char [44] it2) (\<lambda>(_, it3).
                  Inr (Some (Tok_Regex r), it3, tz\<lparr>has_alpha := False, buf := []\<rparr>))))
      else if buf tz \<noteq> [] then
        (case parse_buf env (tz\<lparr>is_start := False\<rparr>) of
           (Inl e, _) \<Rightarrow> Inl e
         | (Inr t, tz') \<Rightarrow> Inr (Some t, it, tz'))
      else Inr (None, it, tz))"

definition is_blank :: "u8 \<Rightarrow> bool" where
  "is_blank ch \<longleftrightarrow> ch = 32 \<or> ch = 13 \<or> ch = 10"

definition at_delimiter ::
    "'r token_env \<Rightarrow> u8 \<Rightarrow> bytes \<Rightarrow> 'r tokenizer \<Rightarrow> token_error + 'r token option \<times> 'r tokenizer" where
  "at_delimiter env ch it tz =
     rbind (word_before env ch it tz) (\<lambda>(prev, it', tz').
       if is_blank ch then Inr (prev, tz'\<lparr>iter := it'\<rparr>)
       else
         rbind (delimiter ch it' tz') (\<lambda>(t, it'', tz'').
           let tz3 = tz''\<lparr>iter := it'', is_start := starts_operand t\<rparr>
           in case prev of
                Some _ \<Rightarrow> Inr (prev, tz3\<lparr>next_token := t # next_token tz3\<rparr>)
              | None \<Rightarrow> Inr (Some t, tz3)))"

definition at_end :: "'r token_env \<Rightarrow> 'r tokenizer \<Rightarrow> token_error + 'r token option \<times> 'r tokenizer" where
  "at_end env tz =
     (if depth tz > 0 then Inl Unmatched_Open
      else if buf tz \<noteq> [] then
        (case parse_buf env tz of (Inl e, _) \<Rightarrow> Inl e | (Inr t, tz') \<Rightarrow> Inr (Some t, tz'))
      else Inr (None, tz))"

definition is_alpha_byte :: "u8 \<Rightarrow> bool" where
  "is_alpha_byte ch \<longleftrightarrow> 65 \<le> ch \<and> ch \<le> 90 \<or> 97 \<le> ch \<and> ch \<le> 122 \<or> ch = 95 \<or> ch = 36"

definition continues_word :: "u8 \<Rightarrow> bytes \<Rightarrow> bool" where
  "continues_word ch b \<longleftrightarrow>
     ch = 45 \<and> b \<noteq> [] \<and> last b = 91 \<or>
     ch = 58 \<and> 46 \<in> set b \<or>
     ch = 93 \<and> 91 \<in> set b \<or>
     ch = 42 \<and> b \<noteq> [] \<and> (last b = 91 \<or> last b = 46)"

fun scan :: "'r token_env \<Rightarrow> bytes \<Rightarrow> 'r tokenizer \<Rightarrow> token_error + 'r token option \<times> 'r tokenizer" where
  "scan env [] tz = at_end env (tz\<lparr>iter := []\<rparr>)"
| "scan env (ch # it) tz =
     (if is_alpha_byte ch then scan env it (tz\<lparr>buf := buf tz @ [ch], has_alpha := True\<rparr>)
      else if is_ascii_digit ch then scan env it (tz\<lparr>buf := buf tz @ [ch], has_number := True\<rparr>)
      else if ch = 46 then scan env it (tz\<lparr>buf := buf tz @ [ch], has_dot := True\<rparr>)
      else if ch = 125 then at_end env (tz\<lparr>iter := it, is_eof := True\<rparr>)
      else if continues_word ch (buf tz) then scan env it (tz\<lparr>buf := buf tz @ [ch]\<rparr>)
      else if is_blank ch \<and> buf tz = [] then scan env it tz
      else at_delimiter env ch it tz)"

definition tokenizer_next :: "'r token_env \<Rightarrow> 'r tokenizer \<Rightarrow> token_error + 'r token option \<times> 'r tokenizer" where
  "tokenizer_next env tz =
     (case next_token tz of
        t # ts \<Rightarrow> Inr (Some t, tz\<lparr>next_token := ts\<rparr>)
      | [] \<Rightarrow> if is_eof tz then Inr (None, tz) else scan env (iter tz) tz)"

subsection \<open>Every token consumes text\<close>

definition remaining :: "'r tokenizer \<Rightarrow> nat" where
  "remaining tz = 2 * length (iter tz) + length (next_token tz) + (if buf tz = [] then 0 else 1)"

lemma find_char_length: "find_char chars it = Inr (c, it') \<Longrightarrow> length it' < length it"
  by (induction it) (auto split: if_splits)

lemma string_loop_length: "string_loop a b acc it = Some (s, it') \<Longrightarrow> length it' < length it"
  by (induction it arbitrary: b acc) (auto split: if_splits intro: less_SucI)

lemma parse_string_length: "parse_string c it = Inr (s, it') \<Longrightarrow> length it' < length it"
  by (auto simp: parse_string_def split: option.splits dest: string_loop_length)

lemma skip_peek_length: "skip_peek c it = (b, it') \<Longrightarrow> length it' \<le> length it"
  by (auto simp: skip_peek_def split: list.splits if_splits)

lemma parse_buf_keeps:
  "parse_buf env tz = (r, tz') \<Longrightarrow> buf tz' = [] \<and> iter tz' = iter tz \<and> next_token tz' = next_token tz"
  by (auto simp: parse_buf_def Let_def split: if_splits)

lemma delimiter_keeps:
  "delimiter ch it tz = Inr (t, it', tz') \<Longrightarrow>
   length it' \<le> length it \<and> buf tz' = buf tz \<and> next_token tz' = next_token tz"
  using skip_peek_length [of 38 it] skip_peek_length [of 124 it] skip_peek_length [of 61 it]
  by (auto simp: delimiter_def rbind_Inr_iff prod_eq_iff split: if_splits prod.splits dest: parse_string_length)

lemma word_before_keeps:
  "word_before env ch it tz = Inr (p, it', tz') \<Longrightarrow>
   length it' \<le> length it \<and> buf tz' = [] \<and> next_token tz' = next_token tz"
  by (auto simp: word_before_def rbind_Inr_iff split: if_splits prod.splits sum.splits option.splits
    dest!: find_char_length parse_string_length parse_buf_keeps)

lemma at_delimiter_keeps:
  "at_delimiter env ch it tz = Inr (p, tz') \<Longrightarrow>
   length (iter tz') \<le> length it \<and> buf tz' = [] \<and> length (next_token tz') \<le> Suc (length (next_token tz))"
proof -
  assume "at_delimiter env ch it tz = Inr (p, tz')"
  then obtain prev it' tz1 where w: "word_before env ch it tz = Inr (prev, it', tz1)"
    and d: "(if is_blank ch then Inr (prev, tz1\<lparr>iter := it'\<rparr>)
       else rbind (delimiter ch it' tz1) (\<lambda>(t, it'', tz'').
           let tz3 = tz''\<lparr>iter := it'', is_start := starts_operand t\<rparr>
           in case prev of
                Some _ \<Rightarrow> Inr (prev, tz3\<lparr>next_token := t # next_token tz3\<rparr>)
              | None \<Rightarrow> Inr (Some t, tz3))) = Inr (p, tz')"
    by (auto simp: at_delimiter_def rbind_Inr_iff)
  show ?thesis
  proof (cases "is_blank ch")
    case True
    then show ?thesis using d word_before_keeps [OF w] by auto
  next
    case False
    then obtain t it'' tz2 where "delimiter ch it' tz1 = Inr (t, it'', tz2)"
      and "(let tz3 = tz2\<lparr>iter := it'', is_start := starts_operand t\<rparr>
           in case prev of
                Some _ \<Rightarrow> Inr (prev, tz3\<lparr>next_token := t # next_token tz3\<rparr>)
              | None \<Rightarrow> Inr (Some t, tz3)) = (Inr (p, tz') :: token_error + _)"
      using d by (auto simp: rbind_Inr_iff)
    then show ?thesis using word_before_keeps [OF w] delimiter_keeps [of ch it' tz1 t it'' tz2]
      by (auto simp: Let_def split: option.splits)
  qed
qed

lemma at_end_keeps:
  "at_end env tz = Inr (p, tz') \<Longrightarrow> iter tz' = iter tz \<and> buf tz' = [] \<and> next_token tz' = next_token tz"
  by (auto simp: at_end_def split: if_splits prod.splits sum.splits dest!: parse_buf_keeps)

lemma scan_keeps:
  "scan env it tz = Inr (Some t, tz') \<Longrightarrow>
   buf tz' = [] \<and> (2 * length (iter tz') + length (next_token tz') < 2 * length it + length (next_token tz) \<or>
     it = [] \<and> buf tz \<noteq> [] \<and> iter tz' = [] \<and> next_token tz' = next_token tz)"
proof (induction env it tz rule: scan.induct)
  case (1 env tz)
  then have "buf tz \<noteq> []" by (auto simp: at_end_def split: if_splits)
  then show ?case using 1 at_end_keeps [of env "tz\<lparr>iter := []\<rparr>" "Some t" tz'] by simp
next
  case (2 env ch it tz)
  then show ?case
    by (auto split: if_splits dest!: at_end_keeps at_delimiter_keeps)
qed

lemma tokenizer_next_decreases:
  "tokenizer_next env tz = Inr (Some t, tz') \<Longrightarrow> remaining tz' < remaining tz"
  by (auto simp: tokenizer_next_def remaining_def split: list.splits if_splits dest!: scan_keeps)

subsection \<open>Parsing a text\<close>

datatype expr_error = Token_Error token_error | Syntax_Error parse_error

definition lift_error :: "('a \<Rightarrow> 'b) \<Rightarrow> 'a + 'c \<Rightarrow> 'b + 'c" where
  "lift_error f r = (case r of Inl e \<Rightarrow> Inl (f e) | Inr x \<Rightarrow> Inr x)"

text \<open>\<open>ExpressionParser::parse\<close>.\<close>

function parse_loop :: "'r token_env \<Rightarrow> 'r tokenizer \<Rightarrow> 'r expression_parser \<Rightarrow> expr_error + 'r expression_item list" where
  "parse_loop env tz st =
     (case tokenizer_next env tz of
        Inl e \<Rightarrow> Inl (Token_Error e)
      | Inr (None, _) \<Rightarrow> lift_error Syntax_Error (parse_end st)
      | Inr (Some t, tz') \<Rightarrow>
          (case parse_step t st of
             Inl e \<Rightarrow> Inl (Syntax_Error e)
           | Inr st' \<Rightarrow> parse_loop env tz' st'))"
  by pat_completeness auto

termination
  by (relation "measure (\<lambda>(_, tz, _). remaining tz)") (auto dest: tokenizer_next_decreases)

declare parse_loop.simps [simp del]

definition expression_parse :: "'r token_env \<Rightarrow> bytes \<Rightarrow> expr_error + 'r expression_item list" where
  "expression_parse env text = parse_loop env (tokenizer_new text) expression_parser_new"

end
