(* ===== verification/Expr_Grammar.thy ===== *)
theory Expr_Grammar
  imports Expr_Parser
begin

section \<open>The grammar of expressions\<close>

text \<open>
  What the parser of \<open>Expr_Parser\<close> is meant to do: expressions as trees, their tokens in the
  usual notation with parentheses where the precedence of operators needs them, and the program of a
  tree. The parser turns the tokens of a tree into its program, and it never panics.
\<close>

datatype 'r expr =
  E_Constant expr_constant | E_Variable u32 | E_Capture u32
| E_Unary unary_operator "'r expr" | E_Binary binary_operator "'r expr" "'r expr"
| E_Function "rchar list" u32 "'r expr list" | E_Matches 'r "'r expr"
| E_Array "'r expr list" | E_Index "'r expr" "'r expr"

definition in_parens :: "bool \<Rightarrow> 'r token list \<Rightarrow> 'r token list" where
  "in_parens b ts = (if b then OpenParen # ts @ [CloseParen] else ts)"

text \<open>An index can follow a variable or anything that ends with a closing bracket.\<close>

definition indexable :: "'r expr \<Rightarrow> bool" where
  "indexable e =
     (case e of E_Variable _ \<Rightarrow> True | E_Function _ _ _ \<Rightarrow> True | E_Matches _ _ \<Rightarrow> True
      | E_Array _ \<Rightarrow> True | E_Index _ _ \<Rightarrow> True | _ \<Rightarrow> False)"

text \<open>The tokens of a tree where operators of a precedence below \<open>p\<close> need parentheses. A minus
  sign is a sign only at the start of an operand, which \<open>s\<close> tells.\<close>

fun separate :: "'r token list list \<Rightarrow> 'r token list" where
  "separate [] = []"
| "separate [ts] = ts"
| "separate (ts # us # tss) = ts @ Comma # separate (us # tss)"

fun tokens :: "nat \<Rightarrow> bool \<Rightarrow> 'r expr \<Rightarrow> 'r token list" where
  "tokens p s (E_Constant c) = [Tok_Constant c]"
| "tokens p s (E_Variable v) = [Tok_Variable v]"
| "tokens p s (E_Capture c) = [Tok_Capture c]"
| "tokens p s (E_Unary op e) =
     in_parens (\<not> s \<and> op = Minus) (Tok_Unary op # tokens 8 False e)"
| "tokens p s (E_Binary op l r) =
     (let b = (precedence op < p)
      in in_parens b (tokens (precedence op) (b \<or> s) l @ Tok_Binary op # tokens (Suc (precedence op)) True r))"
| "tokens p s (E_Function name f es) =
     Tok_Function name f (of_nat (length es)) # OpenParen # separate (map (tokens 1 True) es) @ [CloseParen]"
| "tokens p s (E_Matches r e) = Tok_Regex r # OpenParen # tokens 1 True e @ [CloseParen]"
| "tokens p s (E_Array es) =
     OpenBracket #
     separate (case es of [] \<Rightarrow> [] | e # es' \<Rightarrow> tokens 1 False e # map (tokens 1 True) es') @ [CloseBracket]"
| "tokens p s (E_Index e i) =
     (if indexable e then tokens 8 s e else OpenParen # tokens 1 True e @ [CloseParen]) @
     OpenBracket # tokens 1 False i @ [CloseBracket]"

definition jump_of :: "binary_operator \<Rightarrow> bool option" where
  "jump_of op = (case op of And \<Rightarrow> Some False | Or \<Rightarrow> Some True | _ \<Rightarrow> None)"

fun compile_expr :: "'r expr \<Rightarrow> 'r expression_item list" where
  "compile_expr (E_Constant c) = [Item_Constant c]"
| "compile_expr (E_Variable v) = [Item_Variable v]"
| "compile_expr (E_Capture c) = [Item_Capture c]"
| "compile_expr (E_Unary op e) = compile_expr e @ [Item_Unary op]"
| "compile_expr (E_Binary op l r) =
     compile_expr l @
     (case jump_of op of Some v \<Rightarrow> [JmpIf v (of_nat (Suc (length (compile_expr r))))] | None \<Rightarrow> []) @
     compile_expr r @ [Item_Binary op]"
| "compile_expr (E_Function name f es) = concat (map compile_expr es) @ [Item_Function f (of_nat (length es))]"
| "compile_expr (E_Matches r e) = compile_expr e @ [Item_Regex r]"
| "compile_expr (E_Array es) = concat (map compile_expr es) @ [ArrayBuild (of_nat (length es))]"
| "compile_expr (E_Index e i) = compile_expr e @ compile_expr i @ [ArrayAccess]"

text \<open>The first token of an item of an array must not be an operator or a parenthesis: the code
  counts the items of an array by their first tokens.\<close>

definition plain_start :: "'r token list \<Rightarrow> bool" where
  "plain_start ts = (case ts of [] \<Rightarrow> False | t # _ \<Rightarrow> (case t of Tok_Unary _ \<Rightarrow> False | OpenParen \<Rightarrow> False | _ \<Rightarrow> True))"

fun well_formed :: "'r expr \<Rightarrow> bool" where
  "well_formed (E_Unary op e) = well_formed e"
| "well_formed (E_Binary op l r) = (well_formed l \<and> well_formed r)"
| "well_formed (E_Function name f es) =
     (f \<noteq> ID_ARRAY_ACCESS \<and> f \<noteq> ID_ARRAY_BUILD \<and> length es < 2 ^ 31 \<and> list_all well_formed es)"
| "well_formed (E_Matches r e) = well_formed e"
| "well_formed (E_Array es) =
     (length es < 2 ^ 31 \<and> list_all (\<lambda>e. well_formed e \<and> (\<forall>s. plain_start (tokens 1 s e))) es)"
| "well_formed (E_Index e i) = (well_formed e \<and> well_formed i)"
| "well_formed _ = True"

subsection \<open>The parser follows the grammar\<close>

text \<open>The states in which an operand may start. The token below the top of the stack tells whether
  it is an item of an array.\<close>

definition ready :: "nat \<Rightarrow> 'r operators \<Rightarrow> bool" where
  "ready p ops =
     (case ops of
        [] \<Rightarrow> True
      | (t, _) # _ \<Rightarrow>
          (case t of Tok_Binary op \<Rightarrow> precedence op < p | Tok_Unary _ \<Rightarrow> 8 \<le> p
           | OpenParen \<Rightarrow> True | OpenBracket \<Rightarrow> True | _ \<Rightarrow> False))"

definition in_array :: "'r operators \<Rightarrow> bool" where
  "in_array ops = (case ops of _ # (Tok_Function _ f _, _) # _ \<Rightarrow> f = ID_ARRAY_BUILD | _ \<Rightarrow> False)"

definition room :: "int list \<Rightarrow> bool" where
  "room acs = (case acs of [] \<Rightarrow> True | x # _ \<Rightarrow> 0 \<le> x \<and> x < 2 ^ 31 - 1)"

definition start_ok :: "nat \<Rightarrow> 'r token list \<Rightarrow> 'r expression_parser \<Rightarrow> bool" where
  "start_ok p ts st \<longleftrightarrow>
     ready p (operator_stack st) \<and> room (arg_count st) \<and> \<not> last_is_var_or_fnc st \<and>
     (in_array (operator_stack st) \<longrightarrow> plain_start ts)"

text \<open>What the tokens of an operand do: it is counted as an argument, and its program is in the
  output once the operators that still wait are moved there, as any operator that binds no stronger
  than \<open>p\<close> does.\<close>

definition parses :: "nat \<Rightarrow> 'r token list \<Rightarrow> 'r expression_item list \<Rightarrow> 'r expression_parser \<Rightarrow> bool" where
  "parses p ts c st \<longleftrightarrow>
     (\<exists>st'. parse_steps ts st = Inr st' \<and> arg_count st' = arg_count (inc_arg_count st) \<and>
        (\<forall>q \<le> p. pop_operators q (operator_stack st') (out_items st') =
                  pop_operators q (operator_stack (inc_arg_count st)) (out_items st @ c)))"

definition parses_exactly :: "bool \<Rightarrow> 'r token list \<Rightarrow> 'r expression_item list \<Rightarrow> 'r expression_parser \<Rightarrow> bool" where
  "parses_exactly v ts c st \<longleftrightarrow>
     parse_steps ts st = Inr ((inc_arg_count st)\<lparr>out_items := out_items st @ c, last_is_var_or_fnc := v\<rparr>)"

lemma parse_steps_append: "parse_steps (ts @ us) st = rbind (parse_steps ts st) (parse_steps us)"
  by (induction ts arbitrary: st) (auto simp: rbind_def split: sum.splits)

lemma parses_exactlyD: "parses_exactly v ts c st \<Longrightarrow> parses p ts c st"
  by (simp add: parses_def parses_exactly_def)

lemma precedence_bounds: "1 \<le> precedence op" "precedence op \<le> 7"
  by (cases op; simp add: precedence_def)+

lemma ready_stop: "ready p ops \<Longrightarrow> p \<le> k \<Longrightarrow> k \<le> 7 \<Longrightarrow> pop_operators k ops out = Inr (ops, out)"
  by (cases "(k, ops, out)" rule: pop_operators.cases) (auto simp: ready_def)

lemma ready_not_call:
  "ready p ((t, j) # ops) \<Longrightarrow> count_item (t, j) = (t, j)"
  by (auto simp: ready_def count_item_def split: token.splits)

lemma count_below_fixed: "ready p ops \<Longrightarrow> \<not> in_array ops \<Longrightarrow> count_below ops = ops"
  by (auto simp: count_below_def in_array_def count_item_def ready_def split: list.splits token.splits prod.splits)

lemma count_below_Cons: "ready p ops \<Longrightarrow> count_item x = x \<Longrightarrow> count_below (x # ops) = x # ops"
  by (cases ops) (auto simp: count_below_def ready_not_call)

lemma not_in_array_Cons: "ready p ops \<Longrightarrow> \<not> in_array (x # ops)"
  by (auto simp: ready_def in_array_def split: list.splits token.splits prod.splits)

lemma count_item_simps [simp]:
  "count_item (Tok_Binary op, j) = (Tok_Binary op, j)"
  "count_item (Tok_Unary u, j) = (Tok_Unary u, j)"
  "count_item (OpenParen, j) = (OpenParen, j)"
  "count_item (OpenBracket, j) = (OpenBracket, j)"
  by (simp_all add: count_item_def)

lemma tokens_nonempty: "tokens p s e \<noteq> []"
  by (cases e) (auto simp: in_parens_def Let_def)

lemma plain_start_append: "ts \<noteq> [] \<Longrightarrow> plain_start (ts @ us) = plain_start ts"
  by (cases ts) (auto simp: plain_start_def)

definition inc_args :: "int list \<Rightarrow> int list" where
  "inc_args acs = (case acs of [] \<Rightarrow> [] | x # xs \<Rightarrow> min (2 ^ 31 - 1) (x + 1) # xs)"

lemma inc_arg_count_simps [simp]:
  "arg_count (inc_arg_count st) = inc_args (arg_count st)"
  "out_items (inc_arg_count st) = out_items st"
  "last_is_var_or_fnc (inc_arg_count st) = last_is_var_or_fnc st"
  by (simp_all add: inc_arg_count_def inc_args_def split: list.splits)

lemma inc_arg_count_stack:
  "operator_stack (inc_arg_count st) = (if arg_count st = [] then operator_stack st else count_below (operator_stack st))"
  by (simp add: inc_arg_count_def split: list.splits)

lemma push_simps [simp]:
  "arg_count (push_operator t j st) = arg_count st"
  "out_items (push_operator t j st) = out_items st"
  "operator_stack (push_operator t j st) = (t, j) # operator_stack st"
  "last_is_var_or_fnc (push_operator t j st) = False"
  "arg_count (push_item v i st) = arg_count st"
  "out_items (push_item v i st) = out_items st @ [i]"
  "operator_stack (push_item v i st) = operator_stack st"
  "last_is_var_or_fnc (push_item v i st) = v"
  "arg_count (open_call n t st) = n # arg_count st"
  "out_items (open_call n t st) = out_items st"
  "operator_stack (open_call n t st) = (t, None) # operator_stack st"
  "last_is_var_or_fnc (open_call n t st) = False"
  by (simp_all add: push_operator_def push_item_def open_call_def)

lemma stack_unchanged:
  "ready p (operator_stack st) \<Longrightarrow> \<not> in_array (operator_stack st) \<Longrightarrow>
   operator_stack (inc_arg_count st) = operator_stack st"
  by (simp add: inc_arg_count_stack count_below_fixed)

lemma inc_push_operator:
  "ready p (operator_stack st) \<Longrightarrow> count_item (t, j) = (t, j) \<Longrightarrow>
   operator_stack (inc_arg_count (push_operator t j st)) = (t, j) # operator_stack st"
  by (simp add: inc_arg_count_stack count_below_Cons)

lemma ready_paren [simp]: "ready p ((OpenParen, j) # ops)" "ready p ((OpenBracket, j) # ops)"
  by (simp_all add: ready_def)

lemma start_ok_paren:
  "start_ok p ts st \<Longrightarrow> start_ok q us (push_operator OpenParen None st)"
  by (auto simp: start_ok_def not_in_array_Cons)

lemma close_call_plain:
  "ready p (operator_stack st) \<Longrightarrow> close_call st = Inr (st\<lparr>last_is_var_or_fnc := True\<rparr>)"
  by (auto simp: close_call_def ready_def split: list.splits token.splits prod.splits)

text \<open>An operand in parentheses.\<close>

lemma parses_group:
  assumes "parses q ts c (push_operator OpenParen None st)" "ready p (operator_stack st)"
  shows "parse_steps (OpenParen # ts @ [CloseParen]) st =
    Inr (st\<lparr>arg_count := inc_args (arg_count st), out_items := out_items st @ c, last_is_var_or_fnc := True\<rparr>)"
proof -
  let ?st1 = "push_operator OpenParen None st"
  obtain st' where st': "parse_steps ts ?st1 = Inr st'" "arg_count st' = inc_args (arg_count st)"
    and pop: "\<forall>r \<le> q. pop_operators r (operator_stack st') (out_items st') =
       pop_operators r (operator_stack (inc_arg_count ?st1)) (out_items st @ c)"
    using assms(1) unfolding parses_def by auto
  have "pop_operators 0 (operator_stack st') (out_items st') = Inr ((OpenParen, None) # operator_stack st, out_items st @ c)"
    using pop inc_push_operator [OF assms(2), of OpenParen None] by simp
  then have "close_group True st' =
      close_call (st'\<lparr>operator_stack := operator_stack st, out_items := out_items st @ c\<rparr>)"
    by (simp add: close_group_def close_token_def)
  also have "\<dots> = Inr (st'\<lparr>operator_stack := operator_stack st, out_items := out_items st @ c, last_is_var_or_fnc := True\<rparr>)"
    by (subst close_call_plain) (use assms(2) in auto)
  also have "st'\<lparr>operator_stack := operator_stack st, out_items := out_items st @ c, last_is_var_or_fnc := True\<rparr> =
      st\<lparr>arg_count := inc_args (arg_count st), out_items := out_items st @ c, last_is_var_or_fnc := True\<rparr>"
    using st'(2) by (cases st'; cases st) simp
  finally show ?thesis using st'(1) by (simp add: parse_steps_append)
qed

lemma parses_group_exactly:
  assumes "parses q ts c (push_operator OpenParen None st)" "start_ok p (OpenParen # ts @ [CloseParen]) st"
  shows "parses_exactly True (OpenParen # ts @ [CloseParen]) c st"
proof -
  have r: "ready p (operator_stack st)" "\<not> in_array (operator_stack st)"
    using assms(2) by (auto simp: start_ok_def plain_start_def)
  have "(inc_arg_count st)\<lparr>out_items := out_items st @ c, last_is_var_or_fnc := True\<rparr> =
      st\<lparr>arg_count := inc_args (arg_count st), out_items := out_items st @ c, last_is_var_or_fnc := True\<rparr>"
    using stack_unchanged [OF r] inc_arg_count_simps(1) [of st]
    by (cases st; cases "inc_arg_count st") (simp add: inc_arg_count_def split: list.splits)
  then show ?thesis using parses_group [OF assms(1) r(1)] by (simp add: parses_exactly_def)
qed

text \<open>A sign.\<close>

lemma parses_unary:
  assumes "start_ok p (Tok_Unary op # ts) st"
    and e: "start_ok 8 ts (push_operator (Tok_Unary op) None st) \<Longrightarrow> parses 8 ts c (push_operator (Tok_Unary op) None st)"
    and "p \<le> 8"
  shows "parses p (Tok_Unary op # ts) (c @ [Item_Unary op]) st"
proof -
  let ?st1 = "push_operator (Tok_Unary op) None st"
  have r: "ready p (operator_stack st)" "\<not> in_array (operator_stack st)"
    using assms(1) by (auto simp: start_ok_def plain_start_def)
  have "start_ok 8 ts ?st1"
    using assms(1) not_in_array_Cons [OF r(1)] by (simp add: start_ok_def) (simp add: ready_def)
  from e [OF this] obtain st' where st': "parse_steps ts ?st1 = Inr st'" "arg_count st' = inc_args (arg_count st)"
    and pop: "\<forall>q \<le> 8. pop_operators q (operator_stack st') (out_items st') =
       pop_operators q (operator_stack (inc_arg_count ?st1)) (out_items st @ c)"
    unfolding parses_def by auto
  show ?thesis unfolding parses_def
    using st' pop inc_push_operator [OF r(1), of "Tok_Unary op" None] stack_unchanged [OF r] assms(3)
    by (auto intro!: exI [of _ st'])
qed

text \<open>A binary operator: it moves the operators of its first operand to the output and waits
  itself for its second operand, with the place of its jump.\<close>

lemma ready_mono: "ready p ops \<Longrightarrow> p \<le> k \<Longrightarrow> ready k ops"
  by (auto simp: ready_def split: list.splits token.splits)

lemma ready_inc: "ready p (operator_stack st) \<Longrightarrow> ready p (operator_stack (inc_arg_count st))"
  by (auto simp: inc_arg_count_stack count_below_def ready_def count_item_def split: list.splits token.splits prod.splits)

lemma parses_mono: "parses k ts c st \<Longrightarrow> p \<le> k \<Longrightarrow> parses p ts c st"
  unfolding parses_def by (meson order_trans)

definition jump_items :: "binary_operator \<Rightarrow> u32 \<Rightarrow> 'r expression_item list" where
  "jump_items op n = (case jump_of op of Some v \<Rightarrow> [JmpIf v n] | None \<Rightarrow> [])"

definition jump_pos :: "binary_operator \<Rightarrow> nat \<Rightarrow> nat option" where
  "jump_pos op n = map_option (\<lambda>_. n) (jump_of op)"

lemma push_binary_simps [simp]:
  "operator_stack (push_binary op st) = (Tok_Binary op, jump_pos op (length (out_items st))) # operator_stack st"
  "out_items (push_binary op st) = out_items st @ jump_items op 0"
  "arg_count (push_binary op st) = arg_count st"
  "\<not> last_is_var_or_fnc (push_binary op st)"
  by (cases op; simp add: push_binary_def jump_pos_def jump_items_def jump_of_def)+

lemma update_jump:
  "update_jmp_pos (jump_pos op (length out)) (out @ jump_items op 0 @ c) =
     Inr (out @ jump_items op (of_nat (Suc (length c))) @ c)"
  by (cases op; simp add: jump_pos_def jump_items_def jump_of_def update_jmp_pos_def)

lemma dec_inc_args:
  "room acs \<Longrightarrow> arg_count st = inc_args acs \<Longrightarrow> arg_count (dec_arg_count st) = acs"
  by (auto simp: room_def inc_args_def dec_arg_count_def split: list.splits)

lemma start_ok_prefix: "start_ok p (ts @ us) st \<Longrightarrow> ts \<noteq> [] \<Longrightarrow> start_ok p ts st"
  by (auto simp: start_ok_def plain_start_append)

lemma start_ok_mono: "start_ok p ts st \<Longrightarrow> p \<le> k \<Longrightarrow> start_ok k ts st"
  by (auto simp: start_ok_def ready_mono)

lemma parses_binary:
  assumes ok: "start_ok p (ts @ Tok_Binary op # us) st" "ts \<noteq> []" "p \<le> precedence op"
    and l: "start_ok (precedence op) ts st \<Longrightarrow> parses (precedence op) ts cl st"
    and r: "\<And>st. start_ok (Suc (precedence op)) us st \<Longrightarrow> parses (Suc (precedence op)) us cr st"
  shows "parses (precedence op) (ts @ Tok_Binary op # us)
    (cl @ jump_items op (of_nat (Suc (length cr))) @ cr @ [Item_Binary op]) st"
proof -
  let ?k = "precedence op" and ?ops = "operator_stack (inc_arg_count st)"
  note okl = start_ok_mono [OF start_ok_prefix [OF ok(1,2)] ok(3)]
  from l [OF okl] obtain st1 where st1: "parse_steps ts st = Inr st1" "arg_count st1 = inc_args (arg_count st)"
    and pop1: "pop_operators ?k (operator_stack st1) (out_items st1) = pop_operators ?k ?ops (out_items st @ cl)"
    unfolding parses_def by auto
  have rd: "ready ?k ?ops" and room: "room (arg_count st)"
    using okl by (auto simp: start_ok_def intro: ready_inc)
  define st2 where "st2 = push_binary op ((dec_arg_count st1)\<lparr>operator_stack := ?ops, out_items := out_items st @ cl\<rparr>)"
  have step: "parse_step (Tok_Binary op) st1 = Inr st2"
    using pop1 ready_stop [OF rd order_refl precedence_bounds(2)] by (simp add: st2_def)
  have st2: "operator_stack st2 = (Tok_Binary op, jump_pos op (length (out_items st @ cl))) # ?ops"
    "out_items st2 = out_items st @ cl @ jump_items op 0" "arg_count st2 = arg_count st" "\<not> last_is_var_or_fnc st2"
    using dec_inc_args [OF room st1(2)] by (simp_all add: st2_def)
  have "start_ok (Suc ?k) us st2"
    using st2 room not_in_array_Cons [OF rd] by (simp add: start_ok_def) (simp add: ready_def)
  from r [OF this] obtain st3 where st3: "parse_steps us st2 = Inr st3" "arg_count st3 = inc_args (arg_count st)"
    and pop3: "\<forall>q \<le> Suc ?k. pop_operators q (operator_stack st3) (out_items st3) =
       pop_operators q (operator_stack (inc_arg_count st2)) (out_items st2 @ cr)"
    unfolding parses_def using st2(3) by auto
  have "operator_stack (inc_arg_count st2) = operator_stack st2"
    using st2(1) count_below_Cons [OF rd] by (simp add: inc_arg_count_stack)
  then have "pop_operators q (operator_stack st3) (out_items st3) =
      pop_operators q ?ops (out_items st @ cl @ jump_items op (of_nat (Suc (length cr))) @ cr @ [Item_Binary op])"
    if "q \<le> ?k" for q
    using pop3 that st2(1,2) update_jump [of op "out_items st @ cl" cr] by simp
  then show ?thesis
    unfolding parses_def using st1(1) step st3 by (auto simp: parse_steps_append intro!: exI [of _ st3])
qed

text \<open>The arguments of a call or the items of an array, and the bracket that ends them.\<close>

lemma parses_list:
  assumes "\<And>ts c st. (ts, c) \<in> set xs \<Longrightarrow> start_ok 1 ts st \<Longrightarrow> parses 1 ts c st"
    and "\<And>ts c. (ts, c) \<in> set xs \<Longrightarrow> in_array (operator_stack st) \<Longrightarrow> plain_start ts"
    and "operator_stack st = (t, None) # ops" "t = OpenParen \<or> t = OpenBracket"
    and "arg_count st = n # ns" "0 \<le> n" "n + int (length xs) < 2 ^ 31" "\<not> last_is_var_or_fnc st"
  shows "\<exists>st'. parse_steps (separate (map fst xs)) st = Inr st' \<and> arg_count st' = (n + int (length xs)) # ns \<and>
    pop_operators 0 (operator_stack st') (out_items st') =
      Inr ((count_below ^^ length xs) (operator_stack st), out_items st @ concat (map snd xs))"
  using assms
proof (induction xs arbitrary: st n ops)
  case Nil
  then show ?case by auto
next
  case (Cons x xs)
  obtain ts c where x: "x = (ts, c)" by (cases x)
  have inc: "inc_args (arg_count st) = (n + 1) # ns" "operator_stack (inc_arg_count st) = count_below (operator_stack st)"
    using Cons.prems(5-7) by (simp_all add: inc_args_def inc_arg_count_stack)
  have "start_ok 1 ts st"
    using Cons.prems(2-8) x by (auto simp: start_ok_def ready_def room_def)
  from Cons.prems(1) [OF _ this, of c] obtain st1 where st1: "parse_steps ts st = Inr st1" "arg_count st1 = (n + 1) # ns"
    and "pop_operators 0 (operator_stack st1) (out_items st1) =
      pop_operators 0 (count_below (operator_stack st)) (out_items st @ c)"
    unfolding parses_def x using inc by auto
  moreover obtain ops' where ops': "count_below (operator_stack st) = (t, None) # ops'"
    using Cons.prems(3,4) by (cases ops) (auto simp: count_below_def)
  ultimately have pop1: "pop_operators 0 (operator_stack st1) (out_items st1) =
      Inr (count_below (operator_stack st), out_items st @ c)"
    using Cons.prems(4) by auto
  show ?case
  proof (cases xs)
    case Nil
    then show ?thesis using st1 pop1 x by auto
  next
    case (Cons y ys)
    let ?st2 = "st1\<lparr>operator_stack := count_below (operator_stack st), out_items := out_items st @ c, last_is_var_or_fnc := False\<rparr>"
    have arr: "in_array (operator_stack ?st2) = in_array (operator_stack st)"
      using Cons.prems(3,4)
      by (auto simp: in_array_def count_below_def count_item_def split: list.splits token.splits prod.splits)
    have "\<exists>st'. parse_steps (separate (map fst xs)) ?st2 = Inr st' \<and> arg_count st' = (n + 1 + int (length xs)) # ns \<and>
        pop_operators 0 (operator_stack st') (out_items st') =
          Inr ((count_below ^^ length xs) (operator_stack ?st2), out_items ?st2 @ concat (map snd xs))"
    proof (rule Cons.IH [of _ ops'])
      show "parses 1 ts c st" if "(ts, c) \<in> set xs" "start_ok 1 ts st" for ts c st
        using Cons.prems(1) that by simp
      show "plain_start ts" if "(ts, c) \<in> set xs" "in_array (operator_stack ?st2)" for ts c
        using Cons.prems(2) [of ts c] that arr by simp
    qed (use Cons.prems(4-8) st1(2) ops' in auto)
    then show ?thesis
      using st1(1) pop1 x Cons by (auto simp: parse_steps_append funpow_swap1)
  qed
qed

lemma call_closes:
  assumes "parse_steps ts st = Inr st'" "arg_count st' = n # ns"
    "pop_operators 0 (operator_stack st') (out_items st') = Inr ((t, j) # (u, k) # ops, out)"
    "close_token (c = CloseParen) t" "c = CloseParen \<or> c = CloseBracket"
    "u = Tok_Function name f num_args \<and> n = sint num_args \<and> i = function_item f num_args \<or>
     u = Tok_Regex r \<and> n = 1 \<and> i = Item_Regex r"
  shows "parse_steps (ts @ [c]) st =
    Inr \<lparr>out_items = out @ [i], operator_stack = ops, arg_count = ns, last_is_var_or_fnc = True\<rparr>"
  using assms by (cases st') (auto simp: parse_steps_append close_group_def close_call_def push_item_def)

lemma count_below_call:
  "count_item u = u \<Longrightarrow> (count_below ^^ n) (t # u # ops) = t # u # ops"
  by (induction n) (auto simp: count_below_def)

lemma count_below_array:
  "(count_below ^^ n) (t # (array_token ID_ARRAY_BUILD k, j) # ops) = t # (array_token ID_ARRAY_BUILD (k + of_nat n), j) # ops"
proof (induction n)
  case (Suc n)
  have "count_below (t # (array_token ID_ARRAY_BUILD m, j) # ops) = t # (array_token ID_ARRAY_BUILD (m + 1), j) # ops" for m
    by (simp add: count_below_def count_item_def array_token_def)
  then show ?case using Suc by (simp add: algebra_simps)
qed simp

lemma sint_of_nat_u32: "n < 2 ^ 31 \<Longrightarrow> sint (of_nat n :: u32) = int n"
  by (simp add: signed_of_nat signed_take_bit_int_eq_self)

lemma inc_record:
  "(inc_arg_count st)\<lparr>out_items := out, last_is_var_or_fnc := v\<rparr> =
   \<lparr>out_items = out, operator_stack = operator_stack (inc_arg_count st), arg_count = inc_args (arg_count st),
    last_is_var_or_fnc = v\<rparr>"
  using inc_arg_count_simps(1) [of st] by (cases "inc_arg_count st") simp

text \<open>Calls, arrays and indices end with a bracket, so they leave no operator to wait.\<close>

lemma parses_call:
  assumes "\<And>e st. e \<in> set es \<Longrightarrow> start_ok 1 (tokens 1 True e) st \<Longrightarrow> parses 1 (tokens 1 True e) (compile_expr e) st"
    and "u = Tok_Function name f (of_nat (length es)) \<and> f \<noteq> ID_ARRAY_BUILD \<and> length es < 2 ^ 31 \<and>
           i = function_item f (of_nat (length es)) \<or>
         u = Tok_Regex r \<and> length es = 1 \<and> i = Item_Regex r"
  shows "parses_exactly True (u # OpenParen # separate (map (tokens 1 True) es) @ [CloseParen])
    (concat (map compile_expr es) @ [i]) st"
proof -
  let ?st1 = "push_operator OpenParen None (open_call 0 u (inc_arg_count st))"
  let ?xs = "map (\<lambda>e. (tokens 1 True e, compile_expr e)) es"
  have u: "count_item (u, None) = (u, None)" "\<not> in_array (operator_stack ?st1)"
    using assms(2) by (auto simp: count_item_def in_array_def)
  have "\<exists>st'. parse_steps (separate (map fst ?xs)) ?st1 = Inr st' \<and>
      arg_count st' = (0 + int (length ?xs)) # arg_count (inc_arg_count st) \<and>
      pop_operators 0 (operator_stack st') (out_items st') =
        Inr ((count_below ^^ length ?xs) (operator_stack ?st1), out_items ?st1 @ concat (map snd ?xs))"
    by (rule parses_list [where t = OpenParen]) (use assms u in auto)
  then obtain st' where st': "parse_steps (separate (map (tokens 1 True) es)) ?st1 = Inr st'"
    "arg_count st' = int (length es) # inc_args (arg_count st)"
    "pop_operators 0 (operator_stack st') (out_items st') =
       Inr ((OpenParen, None) # (u, None) # operator_stack (inc_arg_count st), out_items st @ concat (map compile_expr es))"
    by (auto simp: comp_def count_below_call [OF u(1)])
  have "parse_steps (separate (map (tokens 1 True) es) @ [CloseParen]) ?st1 =
      Inr \<lparr>out_items = (out_items st @ concat (map compile_expr es)) @ [i],
        operator_stack = operator_stack (inc_arg_count st), arg_count = inc_args (arg_count st), last_is_var_or_fnc = True\<rparr>"
    by (rule call_closes [OF st']) (use assms(2) sint_of_nat_u32 in \<open>auto simp: close_token_def\<close>)
  moreover have "parse_steps (u # OpenParen # ts) st = parse_steps ts ?st1" for ts
    using assms(2) by auto
  ultimately show ?thesis by (simp add: parses_exactly_def inc_record)
qed

lemma parses_array:
  assumes "\<And>ts c st. (ts, c) \<in> set xs \<Longrightarrow> start_ok 1 ts st \<Longrightarrow> parses 1 ts c st"
    and "\<And>ts c. (ts, c) \<in> set xs \<Longrightarrow> plain_start ts" "length xs < 2 ^ 31" "\<not> last_is_var_or_fnc st"
  shows "parses_exactly True (OpenBracket # separate (map fst xs) @ [CloseBracket])
    (concat (map snd xs) @ [ArrayBuild (of_nat (length xs))]) st"
proof -
  let ?st1 = "push_operator OpenBracket None (open_call 0 (array_token ID_ARRAY_BUILD 0) (inc_arg_count st))"
  have "\<exists>st'. parse_steps (separate (map fst xs)) ?st1 = Inr st' \<and>
      arg_count st' = (0 + int (length xs)) # arg_count (inc_arg_count st) \<and>
      pop_operators 0 (operator_stack st') (out_items st') =
        Inr ((count_below ^^ length xs) (operator_stack ?st1), out_items ?st1 @ concat (map snd xs))"
    by (rule parses_list [where t = OpenBracket]) (use assms in auto)
  then obtain st' where st': "parse_steps (separate (map fst xs)) ?st1 = Inr st'"
    "arg_count st' = int (length xs) # inc_args (arg_count st)"
    "pop_operators 0 (operator_stack st') (out_items st') =
       Inr ((OpenBracket, None) # (array_token ID_ARRAY_BUILD (of_nat (length xs)), None) # operator_stack (inc_arg_count st),
            out_items st @ concat (map snd xs))"
    by (auto simp: count_below_array)
  have build: "function_item ID_ARRAY_BUILD k = ArrayBuild k" for k :: u32
    by (simp add: function_item_def ID_ARRAY_BUILD_def ID_ARRAY_ACCESS_def)
  have "parse_steps (separate (map fst xs) @ [CloseBracket]) ?st1 =
      Inr \<lparr>out_items = (out_items st @ concat (map snd xs)) @ [ArrayBuild (of_nat (length xs))],
        operator_stack = operator_stack (inc_arg_count st), arg_count = inc_args (arg_count st), last_is_var_or_fnc = True\<rparr>"
    by (intro call_closes [OF st']) (use assms(3) sint_of_nat_u32 in \<open>auto simp: close_token_def array_token_def build\<close>)
  then show ?thesis using assms(4) by (simp add: parses_exactly_def inc_record)
qed

lemma parses_index:
  fixes st :: "'r expression_parser"
  assumes "parses_exactly True bs c st"
    and "\<And>st. start_ok 1 ts st \<Longrightarrow> parses 1 ts d st"
  shows "parses_exactly True (bs @ OpenBracket # ts @ [CloseBracket]) (c @ d @ [ArrayAccess]) st"
proof -
  let ?st0 = "(inc_arg_count st)\<lparr>out_items := out_items st @ c, last_is_var_or_fnc := True\<rparr>"
  let ?st1 = "push_operator OpenBracket None (open_call 1 (array_token ID_ARRAY_ACCESS 2) ?st0)"
  have u: "count_item (array_token ID_ARRAY_ACCESS 2 :: 'r token, None) = (array_token ID_ARRAY_ACCESS 2, None)"
    "\<not> in_array (operator_stack ?st1)"
    by (simp_all add: count_item_def array_token_def in_array_def ID_ARRAY_BUILD_def ID_ARRAY_ACCESS_def)
  have "\<exists>st'. parse_steps (separate (map fst [(ts, d)])) ?st1 = Inr st' \<and>
      arg_count st' = (1 + int (length [(ts, d)])) # arg_count (inc_arg_count st) \<and>
      pop_operators 0 (operator_stack st') (out_items st') =
        Inr ((count_below ^^ length [(ts, d)]) (operator_stack ?st1), out_items ?st1 @ concat (map snd [(ts, d)]))"
    by (rule parses_list [where t = OpenBracket]) (use assms(2) u(2) in auto)
  then obtain st' where st': "parse_steps ts ?st1 = Inr st'" "arg_count st' = 2 # inc_args (arg_count st)"
    "pop_operators 0 (operator_stack st') (out_items st') =
       Inr ((OpenBracket, None) # (array_token ID_ARRAY_ACCESS 2, None) # operator_stack (inc_arg_count st), (out_items st @ c) @ d)"
    using count_below_call [OF u(1), of 1 "(OpenBracket, None)"] by auto
  have "parse_steps (ts @ [CloseBracket]) ?st1 =
      Inr \<lparr>out_items = ((out_items st @ c) @ d) @ [ArrayAccess],
        operator_stack = operator_stack (inc_arg_count st), arg_count = inc_args (arg_count st), last_is_var_or_fnc = True\<rparr>"
    by (rule call_closes [OF st']) (auto simp: close_token_def array_token_def function_item_def)
  then show ?thesis using assms(1) by (simp add: parses_exactly_def inc_record parse_steps_append)
qed

lemma parses_tokens:
  "well_formed e \<Longrightarrow> p \<le> 8 \<Longrightarrow> start_ok p (tokens p s e) st \<Longrightarrow>
     parses p (tokens p s e) (compile_expr e) st \<and>
     (indexable e \<longrightarrow> parses_exactly True (tokens p s e) (compile_expr e) st)"
proof (induction e arbitrary: p s st)
  case (E_Constant c)
  then show ?case by (simp add: parses_def indexable_def)
next
  case (E_Variable v)
  have "parses_exactly True (tokens p s (E_Variable v)) (compile_expr (E_Variable v)) st"
    by (simp add: parses_exactly_def push_item_def)
  then show ?case using parses_exactlyD by blast
next
  case (E_Capture c)
  then show ?case by (simp add: parses_def indexable_def)
next
  case (E_Unary op e)
  have sub: "parses p (Tok_Unary op # tokens 8 False e) (compile_expr e @ [Item_Unary op]) st"
    if "start_ok p (Tok_Unary op # tokens 8 False e) st" "p \<le> 8" for p st
    by (rule parses_unary [OF that(1) _ that(2)]) (use E_Unary in simp)
  show ?case
  proof (cases "\<not> s \<and> op = Minus")
    case False
    then have "tokens p s (E_Unary op e) = Tok_Unary op # tokens 8 False e" by (auto simp: in_parens_def)
    then show ?thesis using E_Unary.prems sub by (simp add: indexable_def)
  next
    case True
    have "parses 8 (Tok_Unary op # tokens 8 False e) (compile_expr e @ [Item_Unary op]) (push_operator OpenParen None st)"
      by (rule sub) (use E_Unary.prems start_ok_paren in blast)+
    from parses_exactlyD [OF parses_group_exactly [OF this]] show ?thesis
      using E_Unary.prems True by (simp add: in_parens_def indexable_def)
  qed
next
  case (E_Binary op l r)
  let ?k = "precedence op"
  have core: "parses ?k (tokens ?k t l @ Tok_Binary op # tokens (Suc ?k) True r) (compile_expr (E_Binary op l r)) st"
    if "start_ok p (tokens ?k t l @ Tok_Binary op # tokens (Suc ?k) True r) st" "p \<le> ?k" for p t st
    using parses_binary [OF that(1) tokens_nonempty that(2), of "compile_expr l" "compile_expr r"]
      E_Binary.IH E_Binary.prems(1) precedence_bounds(2) [of op]
    by (simp add: jump_items_def del: of_nat_Suc)
  show ?case
  proof (cases "?k < p")
    case False
    then have t: "tokens p s (E_Binary op l r) = tokens ?k s l @ Tok_Binary op # tokens (Suc ?k) True r"
      by (simp add: in_parens_def)
    have "parses p (tokens p s (E_Binary op l r)) (compile_expr (E_Binary op l r)) st"
      unfolding t by (rule parses_mono [OF core]) (use E_Binary.prems(3) t False in auto)
    then show ?thesis by (simp add: indexable_def)
  next
    case True
    have "parses ?k (tokens ?k True l @ Tok_Binary op # tokens (Suc ?k) True r) (compile_expr (E_Binary op l r))
        (push_operator OpenParen None st)"
      by (rule core [of ?k]) (use E_Binary.prems start_ok_paren in blast)+
    from parses_exactlyD [OF parses_group_exactly [OF this]] show ?thesis
      using E_Binary.prems(3) True by (simp add: in_parens_def indexable_def)
  qed
next
  case (E_Function name f es)
  have "parses_exactly True (tokens p s (E_Function name f es)) (compile_expr (E_Function name f es)) st"
    unfolding tokens.simps compile_expr.simps
    by (rule parses_call) (use E_Function in \<open>auto simp: list_all_iff function_item_def\<close>)
  then show ?case using parses_exactlyD by blast
next
  case (E_Matches r e)
  have "parses_exactly True (Tok_Regex r # OpenParen # separate (map (tokens 1 True) [e]) @ [CloseParen])
      (concat (map compile_expr [e]) @ [Item_Regex r]) st"
    by (rule parses_call) (use E_Matches in auto)
  then show ?case using parses_exactlyD by fastforce
next
  case (E_Array es)
  let ?xs = "case es of [] \<Rightarrow> [] | e # es' \<Rightarrow> (tokens 1 False e, compile_expr e) # map (\<lambda>e. (tokens 1 True e, compile_expr e)) es'"
  have xs: "map fst ?xs = (case es of [] \<Rightarrow> [] | e # es' \<Rightarrow> tokens 1 False e # map (tokens 1 True) es')"
    "map snd ?xs = map compile_expr es" "length ?xs = length es"
    by (cases es; simp add: comp_def)+
  have mem: "\<exists>e \<in> set es. \<exists>s. ts = tokens 1 s e \<and> c = compile_expr e" if "(ts, c) \<in> set ?xs" for ts c
    using that by (cases es) auto
  have "parses_exactly True (OpenBracket # separate (map fst ?xs) @ [CloseBracket])
      (concat (map snd ?xs) @ [ArrayBuild (of_nat (length ?xs))]) st"
  proof (rule parses_array)
    show "parses 1 ts c st" if "(ts, c) \<in> set ?xs" "start_ok 1 ts st" for ts c st
      using mem [OF that(1)] that(2) E_Array.IH E_Array.prems(1) by (auto simp: list_all_iff)
    show "plain_start ts" if "(ts, c) \<in> set ?xs" for ts c
      using mem [OF that] E_Array.prems(1) by (auto simp: list_all_iff)
  qed (use E_Array.prems xs(3) in \<open>auto simp: start_ok_def\<close>)
  then have "parses_exactly True (tokens p s (E_Array es)) (compile_expr (E_Array es)) st"
    unfolding xs by simp
  then show ?case using parses_exactlyD by blast
next
  case (E_Index e i)
  have "parses_exactly True (if indexable e then tokens 8 s e else OpenParen # tokens 1 True e @ [CloseParen]) (compile_expr e) st"
  proof (cases "indexable e")
    case True
    have "start_ok 8 (tokens 8 s e) st"
      using E_Index.prems(2,3) True start_ok_mono start_ok_prefix [OF _ tokens_nonempty] by fastforce
    then show ?thesis using E_Index.IH(1) E_Index.prems(1) True by simp
  next
    case False
    then have "start_ok p (OpenParen # tokens 1 True e @ [CloseParen]) st"
      using E_Index.prems(3) by (simp add: start_ok_def plain_start_def)
    then show ?thesis
      using parses_group_exactly [of 1 "tokens 1 True e" "compile_expr e" st p] False E_Index.IH(1) E_Index.prems(1)
        start_ok_paren [of p "OpenParen # tokens 1 True e @ [CloseParen]" st 1]
      by simp
  qed
  from parses_index [OF this, of "tokens 1 False i" "compile_expr i"]
  have "parses_exactly True (tokens p s (E_Index e i)) (compile_expr (E_Index e i)) st"
    using E_Index.IH(2) E_Index.prems(1) by simp
  then show ?case using parses_exactlyD by blast
qed

text \<open>The parser turns the tokens of a tree into its program.\<close>

lemma parse_tokens_compile:
  assumes "well_formed e"
  shows "parse_tokens (tokens 1 True e) = Inr (compile_expr e)"
proof -
  have "start_ok 1 (tokens 1 True e) expression_parser_new"
    by (simp add: start_ok_def expression_parser_new_def ready_def room_def in_array_def)
  from parses_tokens [OF assms _ this] obtain st where
    "parse_steps (tokens 1 True e) expression_parser_new = Inr st"
    "pop_operators 0 (operator_stack st) (out_items st) =
       pop_operators 0 (operator_stack (inc_arg_count expression_parser_new)) (out_items expression_parser_new @ compile_expr e)"
    unfolding parses_def by auto
  then show ?thesis
    by (simp add: parse_tokens_def parse_end_def expression_parser_new_def inc_arg_count_def)
qed

subsection \<open>The parser never panics\<close>

text \<open>Whatever the tokens are: a jump that waits is inside of the output, and there is a counter of
  arguments for each call that is open.\<close>

definition is_call :: "'r token \<times> nat option \<Rightarrow> bool" where
  "is_call op = (case fst op of Tok_Function _ _ _ \<Rightarrow> True | Tok_Regex _ \<Rightarrow> True | _ \<Rightarrow> False)"

definition calls :: "'r operators \<Rightarrow> nat" where
  "calls ops = length (filter is_call ops)"

definition jumps_below :: "nat \<Rightarrow> 'r operators \<Rightarrow> bool" where
  "jumps_below n ops \<longleftrightarrow> (\<forall>(t, j) \<in> set ops. \<forall>m. j = Some m \<longrightarrow> m < n)"

definition parser_inv :: "'r expression_parser \<Rightarrow> bool" where
  "parser_inv st \<longleftrightarrow>
     jumps_below (length (out_items st)) (operator_stack st) \<and> calls (operator_stack st) = length (arg_count st)"

lemma calls_simps [simp]:
  "calls [] = 0"
  "calls ((Tok_Binary op, j) # ops) = calls ops"
  "calls ((Tok_Unary u, j) # ops) = calls ops"
  "calls ((OpenParen, j) # ops) = calls ops"
  "calls ((OpenBracket, j) # ops) = calls ops"
  "calls ((Tok_Function n f k, j) # ops) = Suc (calls ops)"
  "calls ((Tok_Regex r, j) # ops) = Suc (calls ops)"
  by (simp_all add: calls_def is_call_def)

lemma jumps_below_simps [simp]:
  "jumps_below n []"
  "jumps_below n ((t, j) # ops) \<longleftrightarrow> (\<forall>m. j = Some m \<longrightarrow> m < n) \<and> jumps_below n ops"
  by (auto simp: jumps_below_def)

lemma jumps_below_mono: "jumps_below m ops \<Longrightarrow> m \<le> n \<Longrightarrow> jumps_below n ops"
  by (fastforce simp: jumps_below_def)

lemma jumps_below_Suc: "jumps_below n ops \<Longrightarrow> jumps_below (Suc n) ops"
  by (erule jumps_below_mono) simp

lemma update_jmp_pos_defined:
  "(\<forall>m. j = Some m \<longrightarrow> m < length out) \<Longrightarrow> \<exists>out'. update_jmp_pos j out = Inr out' \<and> length out' = length out"
  by (auto simp: update_jmp_pos_def split: option.splits expression_item.splits)

lemma pop_operators_defined:
  "jumps_below (length out) ops \<Longrightarrow>
   \<exists>ops' out'. pop_operators k ops out = Inr (ops', out') \<and> jumps_below (length out') ops' \<and> calls ops' = calls ops"
proof (induction k ops out rule: pop_operators.induct)
  case (1 k op j ops out)
  obtain out' where out': "update_jmp_pos j out = Inr out'" "length out' = length out"
    using 1(2) update_jmp_pos_defined [of j out] by auto
  show ?case
  proof (cases "k \<le> precedence op")
    case True
    then show ?thesis using 1(1) [OF True, of out'] 1(2) out' jumps_below_mono [of "length out" ops "Suc (length out)"] by simp
  next
    case False
    then show ?thesis using 1(2) by simp
  qed
next
  case (2 k op j ops out)
  then show ?case using jumps_below_mono [of "length out" ops "Suc (length out)"] by simp
qed auto

lemma close_call_inv:
  "jumps_below (length (out_items st)) (operator_stack st) \<Longrightarrow> calls (operator_stack st) = length (arg_count st) \<Longrightarrow>
   close_call st \<noteq> Inl Parse_Panic \<and> (\<forall>st'. close_call st = Inr st' \<longrightarrow> parser_inv st')"
  by (cases "operator_stack st"; cases "arg_count st")
    (auto simp: close_call_def parser_inv_def push_item_def calls_def is_call_def jumps_below_Suc split: token.splits prod.splits)

lemma count_item_inv: "is_call (count_item x) = is_call x" "snd (count_item x) = snd x"
  by (auto simp: count_item_def is_call_def split: token.splits prod.splits)

lemma count_below_inv: "calls (count_below ops) = calls ops" "jumps_below n (count_below ops) = jumps_below n ops"
proof -
  have "jumps_below n (count_item x # ops) = jumps_below n (x # ops)" for x :: "'a token \<times> nat option" and ops
    using count_item_inv(2) [of x] by (cases x; cases "count_item x") simp
  then show "calls (count_below ops) = calls ops" "jumps_below n (count_below ops) = jumps_below n ops"
    by (cases ops; cases "tl ops"; auto simp: count_below_def calls_def count_item_inv)+
qed

lemma inc_arg_count_inv:
  "calls (operator_stack (inc_arg_count st)) = calls (operator_stack st)"
  "jumps_below n (operator_stack (inc_arg_count st)) = jumps_below n (operator_stack st)"
  "length (inc_args acs) = length acs"
  by (auto simp: inc_arg_count_stack count_below_inv inc_args_def split: list.splits)

lemma close_group_inv:
  assumes "parser_inv st"
  shows "close_group paren st \<noteq> Inl Parse_Panic \<and> (\<forall>st'. close_group paren st = Inr st' \<longrightarrow> parser_inv st')"
proof -
  obtain ops out where pop: "pop_operators 0 (operator_stack st) (out_items st) = Inr (ops, out)"
    "jumps_below (length out) ops" "calls ops = length (arg_count st)"
    using pop_operators_defined [of "out_items st" "operator_stack st" 0] assms by (auto simp: parser_inv_def)
  show ?thesis
  proof (cases "\<exists>t j ops'. ops = (t, j) # ops' \<and> close_token paren t")
    case True
    then obtain t j ops' where "ops = (t, j) # ops'" "close_token paren t" by blast
    then show ?thesis
      using pop close_call_inv [of "st\<lparr>operator_stack := ops', out_items := out\<rparr>"]
      by (auto simp: close_group_def close_token_def split: token.splits)
  next
    case False
    then show ?thesis using pop by (auto simp: close_group_def split: list.splits)
  qed
qed

lemma parse_step_inv:
  fixes st :: "'r expression_parser"
  assumes "parser_inv st"
  shows "parse_step t st \<noteq> Inl Parse_Panic \<and> (\<forall>st'. parse_step t st = Inr st' \<longrightarrow> parser_inv st')"
proof -
  have inv: "jumps_below (length (out_items st)) (operator_stack st)" "calls (operator_stack st) = length (arg_count st)"
    using assms by (auto simp: parser_inv_def)
  note mono = jumps_below_mono [OF inv(1), of "Suc (length (out_items st))"]
  have pop: "\<exists>ops out. pop_operators k (operator_stack st) (out_items st) = Inr (ops, out) \<and>
      jumps_below (length out) ops \<and> calls ops = length (arg_count st)" for k
    using pop_operators_defined [OF inv(1), of k] inv(2) by auto
  show ?thesis
  proof (cases t)
    case (Tok_Binary op)
    obtain ops out where o: "pop_operators (precedence op) (operator_stack st) (out_items st) = Inr (ops, out)"
      "jumps_below (length out) ops" "calls ops = length (arg_count st)"
      using pop by blast
    have "length (arg_count (dec_arg_count st)) = length (arg_count st)"
      by (simp add: dec_arg_count_def split: list.splits)
    moreover have "jumps_below (length out + length (jump_items op 0 :: 'r expression_item list)) ops" using o(2) by (rule jumps_below_mono) simp
    moreover have "jump_pos op (length out) = Some m \<Longrightarrow> m < length out + length (jump_items op 0 :: 'r expression_item list)" for m
      by (cases op; simp add: jump_pos_def jump_of_def jump_items_def)
    ultimately show ?thesis using o Tok_Binary by (simp add: parser_inv_def)
  next
    case Comma
    then show ?thesis using pop [of 0] by (auto simp: parser_inv_def)
  next
    case CloseParen
    then show ?thesis using close_group_inv [OF assms] by simp
  next
    case CloseBracket
    then show ?thesis using close_group_inv [OF assms] by simp
  qed (use inv mono in \<open>auto simp: parser_inv_def inc_arg_count_inv array_token_def\<close>)
qed

lemma parse_steps_inv:
  "parser_inv st \<Longrightarrow> parse_steps ts st \<noteq> Inl Parse_Panic \<and> (\<forall>st'. parse_steps ts st = Inr st' \<longrightarrow> parser_inv st')"
proof (induction ts arbitrary: st)
  case (Cons t ts)
  then show ?case using parse_step_inv [OF Cons.prems, of t] by (cases "parse_step t st") auto
qed simp

lemma parse_tokens_no_panic: "parse_tokens ts \<noteq> Inl Parse_Panic"
proof -
  have "parser_inv expression_parser_new" by (simp add: parser_inv_def expression_parser_new_def)
  from parse_steps_inv [OF this, of ts] have "parse_end st \<noteq> Inl Parse_Panic"
    if "parse_steps ts expression_parser_new = Inr st" for st
    using that pop_operators_defined [of "out_items st" "operator_stack st" 0] by (auto simp: parser_inv_def parse_end_def split: if_splits)
  then show ?thesis
    using parse_steps_inv [of expression_parser_new ts] \<open>parser_inv expression_parser_new\<close>
    by (auto simp: parse_tokens_def rbind_Inl_iff)
qed

text \<open>The functions of a program are those of the tokens, with their numbers of arguments.\<close>

definition functions_in :: "(u32 \<Rightarrow> u32 \<Rightarrow> bool) \<Rightarrow> 'r expression_item list \<Rightarrow> bool" where
  "functions_in F items \<longleftrightarrow> (\<forall>f k. Item_Function f k \<in> set items \<longrightarrow> F f k)"

definition token_in :: "(u32 \<Rightarrow> u32 \<Rightarrow> bool) \<Rightarrow> 'r token \<Rightarrow> bool" where
  "token_in F t =
     (case t of Tok_Function _ f k \<Rightarrow> f = ID_ARRAY_ACCESS \<or> f = ID_ARRAY_BUILD \<or> F f k | _ \<Rightarrow> True)"

definition parser_in :: "(u32 \<Rightarrow> u32 \<Rightarrow> bool) \<Rightarrow> 'r expression_parser \<Rightarrow> bool" where
  "parser_in F st \<longleftrightarrow>
     functions_in F (out_items st) \<and> list_all (\<lambda>(t, _). token_in F t) (operator_stack st)"

lemma functions_in_append [simp]: "functions_in F (xs @ ys) \<longleftrightarrow> functions_in F xs \<and> functions_in F ys"
  by (auto simp: functions_in_def)

lemma functions_in_item [simp]:
  "functions_in F []" "functions_in F [Item_Variable v]" "functions_in F [Item_Constant c]" "functions_in F [Item_Capture n]"
  "functions_in F [Item_Unary u]" "functions_in F [Item_Binary op]" "functions_in F [Item_Regex r]"
  "functions_in F [JmpIf b p]" "functions_in F [Item_Function f k] = F f k" "functions_in F [ArrayAccess]"
  "functions_in F [ArrayBuild k]"
  by (auto simp: functions_in_def)

lemma token_in_simps [simp]:
  "token_in F (Tok_Unary u)" "token_in F (Tok_Binary op)" "token_in F (Tok_Variable v)" "token_in F (Tok_Constant c)"
  "token_in F (Tok_Capture n)" "token_in F (Tok_Regex r)" "token_in F OpenParen" "token_in F CloseParen"
  "token_in F OpenBracket" "token_in F CloseBracket" "token_in F Comma"
  by (simp_all add: token_in_def)

lemma update_jmp_pos_in:
  "update_jmp_pos j out = Inr out' \<Longrightarrow> functions_in F out \<Longrightarrow> functions_in F out'"
  by (auto simp: update_jmp_pos_def functions_in_def split: option.splits if_splits expression_item.splits
    dest!: set_update_subset_insert [THEN subsetD])

lemma pop_operators_in:
  "pop_operators k ops out = Inr (ops', out') \<Longrightarrow> functions_in F out \<Longrightarrow> list_all (\<lambda>(t, _). token_in F t) ops \<Longrightarrow>
   functions_in F out' \<and> list_all (\<lambda>(t, _). token_in F t) ops'"
  by (induction k ops out rule: pop_operators.induct)
    (auto simp: rbind_Inr_iff split: if_splits dest: update_jmp_pos_in)

lemma count_item_in: "(case count_item x of (t, _) \<Rightarrow> token_in F t) = (case x of (t, _) \<Rightarrow> token_in F t)"
  by (auto simp: count_item_def token_in_def split: token.splits prod.splits)

lemma inc_arg_count_in [simp]: "parser_in F (inc_arg_count st) = parser_in F st"
  by (auto simp: parser_in_def inc_arg_count_stack count_below_def count_item_in split: list.splits)

lemma close_group_in:
  assumes "parser_in F st" "close_group paren st = Inr st'"
  shows "parser_in F st'"
proof -
  obtain ops out where pop: "pop_operators 0 (operator_stack st) (out_items st) = Inr (ops, out)"
    and c: "(case ops of (t, _) # ops' \<Rightarrow>
           if close_token paren t then close_call (st\<lparr>operator_stack := ops', out_items := out\<rparr>)
           else Inl Mismatched_Parentheses
       | [] \<Rightarrow> Inl Mismatched_Parentheses) = Inr st'"
    using assms(2) by (auto simp: close_group_def rbind_Inr_iff)
  have "functions_in F out" "list_all (\<lambda>(t, _). token_in F t) ops"
    using pop_operators_in [OF pop] assms(1) by (auto simp: parser_in_def)
  then show ?thesis using c
    by (auto simp: close_call_def parser_in_def push_item_def function_item_def token_in_def
      split: list.splits if_splits prod.splits token.splits)
qed

lemma parse_step_in:
  assumes "parser_in F st" "token_in F t" "parse_step t st = Inr st'"
  shows "parser_in F st'"
proof (cases t)
  case (Tok_Binary op)
  then obtain ops out where pop: "pop_operators (precedence op) (operator_stack st) (out_items st) = Inr (ops, out)"
    and st': "st' = push_binary op ((dec_arg_count st)\<lparr>operator_stack := ops, out_items := out\<rparr>)"
    using assms(3) by (auto simp: rbind_Inr_iff)
  have "functions_in F out" "list_all (\<lambda>(t, _). token_in F t) ops"
    using pop_operators_in [OF pop] assms(1) by (auto simp: parser_in_def)
  moreover have "functions_in F (jump_items op 0)" by (cases op) (simp_all add: jump_items_def jump_of_def)
  ultimately show ?thesis by (simp add: st' parser_in_def)
next
  case Comma
  then show ?thesis using assms(1,3) by (auto simp: rbind_Inr_iff parser_in_def dest!: pop_operators_in)
qed (use assms close_group_in [OF assms(1)] inc_arg_count_in [of F st] in
  \<open>auto simp: parser_in_def array_token_def token_in_def [of F "Tok_Function _ _ _"]\<close>)

lemma parse_end_in: "parser_in F st \<Longrightarrow> parse_end st = Inr items \<Longrightarrow> functions_in F items"
  by (auto simp: parse_end_def rbind_Inr_iff parser_in_def split: if_splits dest!: pop_operators_in)

lemma parser_new_in [simp]: "parser_in F expression_parser_new"
  by (simp add: parser_in_def expression_parser_new_def)

lemma parse_end_no_panic: "parser_inv st \<Longrightarrow> parse_end st \<noteq> Inl Parse_Panic"
  using pop_operators_defined [of "out_items st" "operator_stack st" 0]
  by (auto simp: parser_inv_def parse_end_def split: if_splits)

lemma parser_new_inv [simp]: "parser_inv expression_parser_new"
  by (simp add: parser_inv_def expression_parser_new_def)

end
