(* ===== verification/Expr_Eval.thy ===== *)
theory Expr_Eval
  imports Expr_Functions Expr_Grammar
begin

section \<open>Evaluation of expressions\<close>

text \<open>
  \<^verbatim>\<open>src/crates/common/src/expr/eval.rs\<close>: the stack machine that runs the program of an
  expression, and blocks of conditions. The variables of a session, the functions that ask the
  directory, the stores or the resolver, and the matches of a regular expression are the record
  \<open>eval_env\<close>; those functions work on a state \<open>'w\<close> and may fail with an
  \<open>'e\<close>. The other functions are the table of \<open>Expr_Functions\<close>.
\<close>

record ('r, 'w, 'e) eval_env =
  resolve_variable :: "u32 \<Rightarrow> variable"
  text_functions :: text_env
  regex_captures :: "'r \<Rightarrow> rchar list \<Rightarrow> rchar list option list option"
  eval_fnc :: "u32 \<Rightarrow> variable list \<Rightarrow> 'w \<Rightarrow> ('e + variable) \<times> 'w"

datatype ('e, 'a) eval_result = Value 'a | Error 'e | Eval_Panic

type_synonym captures = "rchar list list"

text \<open>A computation on the captures and the state.\<close>

type_synonym ('w, 'e, 'a) evaluation = "captures \<Rightarrow> 'w \<Rightarrow> ('e, 'a) eval_result \<times> captures \<times> 'w"

definition eval_bind :: "('e, 'a) eval_result \<times> captures \<times> 'w \<Rightarrow> ('a \<Rightarrow> ('w, 'e, 'b) evaluation) \<Rightarrow> ('e, 'b) eval_result \<times> captures \<times> 'w" where
  "eval_bind r f =
     (case r of
        (Value x, caps, w) \<Rightarrow> f x caps w
      | (Error e, caps, w) \<Rightarrow> (Error e, caps, w)
      | (Eval_Panic, caps, w) \<Rightarrow> (Eval_Panic, caps, w))"

definition pop_value :: "variable list \<Rightarrow> variable \<times> variable list" where
  "pop_value stack = (case stack of [] \<Rightarrow> (variable_default, []) | v # vs \<Rightarrow> (v, vs))"

text \<open>The last \<open>n\<close> values, in the order in which they were pushed.\<close>

fun pop_values :: "nat \<Rightarrow> variable list \<Rightarrow> variable list \<times> variable list" where
  "pop_values 0 stack = ([], stack)"
| "pop_values (Suc n) stack =
     (let (v, stack1) = pop_value stack; (vs, stack2) = pop_values n stack1 in (vs @ [v], stack2))"

definition apply_unary :: "unary_operator \<Rightarrow> variable \<Rightarrow> variable" where
  "apply_unary op v = (case op of Not \<Rightarrow> op_not v | Minus \<Rightarrow> op_minus v)"

definition apply_binary :: "binary_operator \<Rightarrow> variable \<Rightarrow> variable \<Rightarrow> variable" where
  "apply_binary op =
     (case op of
        Add \<Rightarrow> op_add | Subtract \<Rightarrow> op_subtract | Multiply \<Rightarrow> op_multiply | Divide \<Rightarrow> op_divide
      | And \<Rightarrow> op_and | Or \<Rightarrow> op_or | Xor \<Rightarrow> op_xor
      | Eq \<Rightarrow> op_eq | Ne \<Rightarrow> op_ne | Lt \<Rightarrow> op_lt | Le \<Rightarrow> op_le | Gt \<Rightarrow> op_gt | Ge \<Rightarrow> op_ge)"

definition apply_function :: "('r, 'w, 'e) eval_env \<Rightarrow> u32 \<Rightarrow> variable list \<Rightarrow> ('w, 'e, variable) evaluation" where
  "apply_function env f args caps w =
     (case nth_opt (FUNCTIONS (text_functions env)) (unat f) of
        Some (_, fnc, _) \<Rightarrow> ((case fnc args of Some v \<Rightarrow> Value v | None \<Rightarrow> Eval_Panic), caps, w)
      | None \<Rightarrow>
          (case eval_fnc env (f - of_nat (length (FUNCTIONS (text_functions env)))) args w of
             (Inr v, w') \<Rightarrow> (Value v, caps, w')
           | (Inl e, w') \<Rightarrow> (Error e, caps, w')))"

definition array_access :: "variable \<Rightarrow> variable \<Rightarrow> variable" where
  "array_access array index =
     (case nth_opt (var_into_array array) (usize_or_default index) of Some v \<Rightarrow> v | None \<Rightarrow> variable_default)"

definition capture_texts :: "('r, 'w, 'e) eval_env \<Rightarrow> 'r \<Rightarrow> variable \<Rightarrow> captures" where
  "capture_texts env r v =
     (case regex_captures env r (var_to_string v) of
        Some cs \<Rightarrow> map (\<lambda>c. case c of Some s \<Rightarrow> s | None \<Rightarrow> []) cs
      | None \<Rightarrow> [])"

definition capture_value :: "captures \<Rightarrow> u32 \<Rightarrow> variable" where
  "capture_value caps c = Var_String (case nth_opt caps (unat c) of Some s \<Rightarrow> s | None \<Rightarrow> [])"

text \<open>One item of the program that is not a jump.\<close>

definition eval_item :: "('r, 'w, 'e) eval_env \<Rightarrow> 'r expression_item \<Rightarrow> variable list \<Rightarrow> ('w, 'e, variable list) evaluation" where
  "eval_item env i stack caps w =
     (case i of
        Item_Variable v \<Rightarrow> (Value (resolve_variable env v # stack), caps, w)
      | Item_Constant c \<Rightarrow> (Value (variable_of_constant c # stack), caps, w)
      | Item_Capture c \<Rightarrow> (Value (capture_value caps c # stack), caps, w)
      | Item_Unary op \<Rightarrow> let (v, s) = pop_value stack in (Value (apply_unary op v # s), caps, w)
      | Item_Binary op \<Rightarrow>
          let (right, s) = pop_value stack; (left, s') = pop_value s
          in (Value (apply_binary op left right # s'), caps, w)
      | Item_Function f num_args \<Rightarrow>
          let (args, s) = pop_values (unat num_args) stack
          in eval_bind (apply_function env f args caps w) (\<lambda>v caps w. (Value (v # s), caps, w))
      | ArrayAccess \<Rightarrow>
          let (index, s) = pop_value stack; (array, s') = pop_value s
          in (Value (array_access array index # s'), caps, w)
      | ArrayBuild n \<Rightarrow> let (items, s) = pop_values (unat n) stack in (Value (Var_Array items # s), caps, w)
      | Item_Regex r \<Rightarrow>
          let (v, s) = pop_value stack; caps' = capture_texts env r v
          in (Value (variable_of_bool (caps' \<noteq> []) # s), caps', w)
      | JmpIf _ _ \<Rightarrow> (Value stack, caps, w))"

definition jump_taken :: "bool \<Rightarrow> variable list \<Rightarrow> bool" where
  "jump_taken val stack \<longleftrightarrow> (case stack of [] \<Rightarrow> False | v # _ \<Rightarrow> var_to_bool v) = val"

function eval_items :: "('r, 'w, 'e) eval_env \<Rightarrow> 'r expression_item list \<Rightarrow> variable list \<Rightarrow> ('w, 'e, variable) evaluation" where
  "eval_items env [] stack caps w = (Value (fst (pop_value stack)), caps, w)"
| "eval_items env (i # is) stack caps w =
     (case i of
        JmpIf val pos \<Rightarrow> eval_items env (if jump_taken val stack then drop (unat pos) is else is) stack caps w
      | _ \<Rightarrow>
          (case eval_item env i stack caps w of
             (Value stack', caps', w') \<Rightarrow> eval_items env is stack' caps' w'
           | (Error e, caps', w') \<Rightarrow> (Error e, caps', w')
           | (Eval_Panic, caps', w') \<Rightarrow> (Eval_Panic, caps', w')))"
  by pat_completeness auto

termination
  by (relation "measure (\<lambda>(_, is, _). length is)") auto

definition eval_expression :: "('r, 'w, 'e) eval_env \<Rightarrow> 'r expression_item list \<Rightarrow> ('w, 'e, variable) evaluation" where
  "eval_expression env items = eval_items env items []"

subsection \<open>Blocks of conditions\<close>

record 'r if_block =
  if_then :: "('r expression_item list \<times> 'r expression_item list) list"
  if_default :: "'r expression_item list"

fun eval_branches ::
    "('r, 'w, 'e) eval_env \<Rightarrow> ('r expression_item list \<times> 'r expression_item list) list \<Rightarrow> 'r expression_item list \<Rightarrow>
     ('w, 'e, variable) evaluation" where
  "eval_branches env [] dflt caps w = eval_expression env dflt caps w"
| "eval_branches env ((cond, body) # branches) dflt caps w =
     eval_bind (eval_expression env cond caps w) (\<lambda>v caps w.
       if var_to_bool v then eval_expression env body caps w
       else eval_branches env branches dflt caps w)"

definition eval_if_block :: "('r, 'w, 'e) eval_env \<Rightarrow> 'r if_block \<Rightarrow> 'w \<Rightarrow> ('e, variable) eval_result \<times> captures \<times> 'w" where
  "eval_if_block env b w = eval_branches env (if_then b) (if_default b) [] w"

text \<open>\<open>Server::eval_if\<close> and \<open>Server::eval_expr\<close>: the value of the type that is asked
  for, \<open>None\<close> for an error or a value that cannot be converted.\<close>

datatype 'a settled = Settled "'a option" | Settle_Panic

definition convert_result :: "(variable \<Rightarrow> 'a option) \<Rightarrow> ('e, variable) eval_result \<times> captures \<times> 'w \<Rightarrow> 'a settled \<times> 'w" where
  "convert_result conv r =
     (case r of
        (Value v, _, w) \<Rightarrow> (Settled (conv v), w)
      | (Error _, _, w) \<Rightarrow> (Settled None, w)
      | (Eval_Panic, _, w) \<Rightarrow> (Settle_Panic, w))"

definition eval_if :: "('r, 'w, 'e) eval_env \<Rightarrow> (variable \<Rightarrow> 'a option) \<Rightarrow> 'r if_block \<Rightarrow> 'w \<Rightarrow> 'a settled \<times> 'w" where
  "eval_if env conv b w =
     (if if_then b = [] \<and> if_default b = [] then (Settled None, w)
      else convert_result conv (eval_if_block env b w))"

definition eval_expr :: "('r, 'w, 'e) eval_env \<Rightarrow> (variable \<Rightarrow> 'a option) \<Rightarrow> 'r expression_item list \<Rightarrow> 'w \<Rightarrow> 'a settled \<times> 'w" where
  "eval_expr env conv items w =
     (if items = [] then (Settled None, w) else convert_result conv (eval_expression env items [] w))"

subsection \<open>The value of a tree\<close>

text \<open>The meaning of an expression, without a stack: operands from left to right, the second one of
  \<open>&&\<close> and \<open>||\<close> only when it is needed. When it is not, the result is the value of
  the first operand as it is.\<close>

fun tree_eval :: "('r, 'w, 'e) eval_env \<Rightarrow> 'r expr \<Rightarrow> ('w, 'e, variable) evaluation"
  and trees_eval :: "('r, 'w, 'e) eval_env \<Rightarrow> 'r expr list \<Rightarrow> ('w, 'e, variable list) evaluation" where
  "tree_eval env (E_Constant c) caps w = (Value (variable_of_constant c), caps, w)"
| "tree_eval env (E_Variable v) caps w = (Value (resolve_variable env v), caps, w)"
| "tree_eval env (E_Capture c) caps w = (Value (capture_value caps c), caps, w)"
| "tree_eval env (E_Unary op e) caps w =
     eval_bind (tree_eval env e caps w) (\<lambda>v caps w. (Value (apply_unary op v), caps, w))"
| "tree_eval env (E_Binary op l r) caps w =
     eval_bind (tree_eval env l caps w) (\<lambda>a caps w.
       if jump_of op = Some (var_to_bool a) then (Value a, caps, w)
       else eval_bind (tree_eval env r caps w) (\<lambda>b caps w. (Value (apply_binary op a b), caps, w)))"
| "tree_eval env (E_Function name f es) caps w =
     eval_bind (trees_eval env es caps w) (\<lambda>vs caps w. apply_function env f vs caps w)"
| "tree_eval env (E_Matches r e) caps w =
     eval_bind (tree_eval env e caps w) (\<lambda>v _ w.
       (Value (variable_of_bool (capture_texts env r v \<noteq> [])), capture_texts env r v, w))"
| "tree_eval env (E_Array es) caps w =
     eval_bind (trees_eval env es caps w) (\<lambda>vs caps w. (Value (Var_Array vs), caps, w))"
| "tree_eval env (E_Index e i) caps w =
     eval_bind (tree_eval env e caps w) (\<lambda>a caps w.
       eval_bind (tree_eval env i caps w) (\<lambda>b caps w. (Value (array_access a b), caps, w)))"
| "trees_eval env [] caps w = (Value [], caps, w)"
| "trees_eval env (e # es) caps w =
     eval_bind (tree_eval env e caps w) (\<lambda>v caps w.
       eval_bind (trees_eval env es caps w) (\<lambda>vs caps w. (Value (v # vs), caps, w)))"

lemma eval_bind_simps [simp]:
  "eval_bind (Value x, caps, w) f = f x caps w"
  "eval_bind (Error e, caps, w) f = (Error e, caps, w)"
  "eval_bind (Eval_Panic, caps, w) f = (Eval_Panic, caps, w)"
  by (simp_all add: eval_bind_def)

lemma eval_bind_assoc: "eval_bind (eval_bind r f) g = eval_bind r (\<lambda>x caps w. eval_bind (f x caps w) g)"
  by (cases r; cases "fst r") auto

lemma eval_items_Cons:
  "(\<And>v p. i \<noteq> JmpIf v p) \<Longrightarrow>
   eval_items env (i # is) stack = (\<lambda>caps w. eval_bind (eval_item env i stack caps w) (eval_items env is))"
  by (cases i) (auto simp: eval_bind_def fun_eq_iff split: eval_result.splits)

lemma pop_value_Cons [simp]: "pop_value (v # vs) = (v, vs)"
  by (simp add: pop_value_def)

lemma pop_values_rev: "pop_values (length vs) (rev vs @ stack) = (vs, stack)"
  by (induction vs arbitrary: stack rule: rev_induct) (simp_all)

text \<open>The programs whose jumps fit into their 32 bits.\<close>

lemma length_compile_parts:
  "length (compile_expr l) \<le> length (compile_expr (E_Binary op l r))"
  "Suc (length (compile_expr r)) \<le> length (compile_expr (E_Binary op l r))"
  by auto

lemma jump_over: "n < 2 ^ 32 \<Longrightarrow> length xs = n \<Longrightarrow> drop (unat (of_nat n :: u32)) (xs @ ys) = ys"
  by (simp add: unat_of_nat take_bit_nat_eq_self)

lemma eval_compile_list:
  assumes "\<And>e rest stack. e \<in> set es \<Longrightarrow>
      eval_items env (compile_expr e @ rest) stack =
        (\<lambda>caps w. eval_bind (tree_eval env e caps w) (\<lambda>v. eval_items env rest (v # stack)))"
  shows "eval_items env (concat (map compile_expr es) @ rest) stack =
    (\<lambda>caps w. eval_bind (trees_eval env es caps w) (\<lambda>vs. eval_items env rest (rev vs @ stack)))"
  using assms by (induction es arbitrary: stack) (simp_all add: eval_bind_assoc)

lemma length_concat_member: "e \<in> set es \<Longrightarrow> length (f e) \<le> length (concat (map f es))"
  by (induction es) auto

lemma trees_eval_length: "trees_eval env es caps w = (Value vs, caps', w') \<Longrightarrow> length vs = length es"
  by (induction es arbitrary: vs caps w caps' w') (auto simp: eval_bind_def split: prod.splits eval_result.splits)

lemma eval_bind_trees:
  assumes "\<And>vs caps w. length vs = length es \<Longrightarrow> f vs caps w = g vs caps w"
  shows "eval_bind (trees_eval env es caps w) f = eval_bind (trees_eval env es caps w) g"
  using assms trees_eval_length [of env es caps w] by (auto simp: eval_bind_def split: prod.splits eval_result.splits)

lemma length_less_compile: "length es < 2 ^ 32 \<Longrightarrow> unat (of_nat (length es) :: u32) = length es"
  by (simp add: unat_of_nat take_bit_nat_eq_self)

lemma compile_nonempty: "1 \<le> length (compile_expr e)"
  by (cases e) auto

lemma length_args: "length es \<le> length (concat (map compile_expr es))"
proof (induction es)
  case (Cons e es)
  then show ?case using compile_nonempty [of e] by simp
qed simp

lemma eval_compile:
  "length (compile_expr e) < 2 ^ 32 \<Longrightarrow>
   eval_items env (compile_expr e @ rest) stack =
     (\<lambda>caps w. eval_bind (tree_eval env e caps w) (\<lambda>v. eval_items env rest (v # stack)))"
proof (induction e arbitrary: rest stack)
  case (E_Unary op e)
  then show ?case by (simp add: eval_items_Cons eval_item_def eval_bind_assoc)
next
  case (E_Binary op l r)
  then have l: "length (compile_expr l) < 2 ^ 32" and r: "Suc (length (compile_expr r)) < 2 ^ 32"
    using length_compile_parts [where l = l and r = r and op = op] by linarith+
  let ?jump = "case jump_of op of Some v \<Rightarrow> [JmpIf v (of_nat (Suc (length (compile_expr r))))] | None \<Rightarrow> []"
  have "eval_items env (?jump @ compile_expr r @ Item_Binary op # rest) (a # stack) =
      (\<lambda>caps w. if jump_of op = Some (var_to_bool a) then eval_items env rest (a # stack) caps w
         else eval_bind (tree_eval env r caps w) (\<lambda>b. eval_items env rest (apply_binary op a b # stack)))" for a
  proof -
    have run: "eval_items env (compile_expr r @ Item_Binary op # rest) (a # stack) =
        (\<lambda>caps w. eval_bind (tree_eval env r caps w) (\<lambda>b. eval_items env rest (apply_binary op a b # stack)))"
      using E_Binary.IH(2) r by (simp add: eval_items_Cons eval_item_def)
    have "drop (unat (of_nat (Suc (length (compile_expr r))) :: u32)) (compile_expr r @ Item_Binary op # rest) = rest"
      using jump_over [OF r, of "compile_expr r @ [Item_Binary op]" rest] by simp
    then show ?thesis
      using run by (cases "jump_of op") (auto simp: jump_taken_def fun_eq_iff simp del: of_nat_Suc)
  qed
  then have "eval_items env (compile_expr (E_Binary op l r) @ rest) stack =
      (\<lambda>caps w. eval_bind (tree_eval env l caps w) (\<lambda>a caps w. if jump_of op = Some (var_to_bool a)
         then eval_items env rest (a # stack) caps w
         else eval_bind (tree_eval env r caps w) (\<lambda>b. eval_items env rest (apply_binary op a b # stack))))"
    using E_Binary.IH(1) l by (simp del: of_nat_Suc)
  also have "\<dots> = (\<lambda>caps w. eval_bind (tree_eval env (E_Binary op l r) caps w) (\<lambda>v. eval_items env rest (v # stack)))"
    by (simp add: eval_bind_assoc if_distrib [of "\<lambda>r. eval_bind r _"] cong: if_cong)
  finally show ?case .
next
  case (E_Function name f es)
  have "eval_items env (compile_expr e @ rest) stack =
      (\<lambda>caps w. eval_bind (tree_eval env e caps w) (\<lambda>v. eval_items env rest (v # stack)))" if "e \<in> set es" for e rest stack
    using E_Function that length_concat_member [OF that, of compile_expr] by simp
  note es = eval_compile_list [OF this]
  have n: "unat (of_nat (length es) :: u32) = length es"
    using E_Function.prems length_args [of es] by (intro length_less_compile) simp
  have step: "eval_items env (Item_Function f (of_nat (length es)) # rest) (rev vs @ stack) caps w =
      eval_bind (apply_function env f vs caps w) (\<lambda>v. eval_items env rest (v # stack))" if "length vs = length es" for vs caps w
    using that pop_values_rev [of vs stack] by (simp add: eval_items_Cons eval_item_def n eval_bind_assoc)
  show ?case
    by (rule ext)+ (simp add: es eval_bind_assoc eval_bind_trees [OF step])
next
  case (E_Matches r e)
  then show ?case by (simp add: eval_items_Cons eval_item_def eval_bind_assoc Let_def)
next
  case (E_Array es)
  have "eval_items env (compile_expr e @ rest) stack =
      (\<lambda>caps w. eval_bind (tree_eval env e caps w) (\<lambda>v. eval_items env rest (v # stack)))" if "e \<in> set es" for e rest stack
    using E_Array that length_concat_member [OF that, of compile_expr] by simp
  note es = eval_compile_list [OF this]
  have n: "unat (of_nat (length es) :: u32) = length es"
    using E_Array.prems length_args [of es] by (intro length_less_compile) simp
  have step: "eval_items env (ArrayBuild (of_nat (length es)) # rest) (rev vs @ stack) caps w =
      eval_items env rest (Var_Array vs # stack) caps w" if "length vs = length es" for vs caps w
    using that pop_values_rev [of vs stack] by (simp add: eval_items_Cons eval_item_def n)
  show ?case
    by (rule ext)+ (simp add: es eval_bind_assoc eval_bind_trees [OF step])
next
  case (E_Index e i)
  then show ?case by (simp add: eval_items_Cons eval_item_def eval_bind_assoc)
qed (simp_all add: eval_items_Cons eval_item_def)

subsection \<open>The functions of a program get their arguments\<close>

definition arity_ok :: "text_env \<Rightarrow> u32 \<Rightarrow> u32 \<Rightarrow> bool" where
  "arity_ok env f k \<longleftrightarrow> (\<forall>x. nth_opt (FUNCTIONS env) (unat f) = Some x \<longrightarrow> snd (snd x) = k)"

lemma pop_values_length: "length (fst (pop_values n stack)) = n"
  by (induction n arbitrary: stack) (simp_all add: case_prod_unfold Let_def)

lemma apply_function_defined:
  assumes "arity_ok (text_functions env) f k" "length args = unat k"
  shows "fst (apply_function env f args caps w) \<noteq> Eval_Panic"
proof (cases "nth_opt (FUNCTIONS (text_functions env)) (unat f)")
  case None
  then show ?thesis by (simp add: apply_function_def split: prod.splits sum.splits)
next
  case (Some x)
  obtain n g a where x: "x = (n, g, a)" by (cases x)
  have idx: "unat f < length (FUNCTIONS (text_functions env))" "FUNCTIONS (text_functions env) ! unat f = (n, g, a)"
    using Some x by (auto simp: nth_opt_def split: if_splits)
  have "(n, g, a) \<in> set (FUNCTIONS (text_functions env))" using nth_mem [OF idx(1)] unfolding idx(2) .
  moreover have "a = k" using Some x assms(1) by (simp add: arity_ok_def)
  ultimately have "g args \<noteq> None" using functions_defined assms(2) by blast
  then show ?thesis using Some x by (auto simp: apply_function_def)
qed

lemma eval_item_defined:
  assumes "functions_in (arity_ok (text_functions env)) [i]"
  shows "fst (eval_item env i stack caps w) \<noteq> Eval_Panic"
proof (cases i)
  case (Item_Function f k)
  then have "fst (apply_function env f (fst (pop_values (unat k) stack)) caps w) \<noteq> Eval_Panic"
    using apply_function_defined [of env f k] assms pop_values_length by simp
  then show ?thesis using Item_Function
    by (auto simp: eval_item_def case_prod_unfold Let_def eval_bind_def split: eval_result.splits)
qed (simp_all add: eval_item_def case_prod_unfold Let_def)

lemma functions_in_drop: "functions_in F is \<Longrightarrow> functions_in F (drop n is)"
  by (auto simp: functions_in_def dest: in_set_dropD)

lemma functions_in_Cons: "functions_in F (i # is) \<longleftrightarrow> functions_in F [i] \<and> functions_in F is"
  by (auto simp: functions_in_def)

lemma eval_items_defined:
  "functions_in (arity_ok (text_functions env)) items \<Longrightarrow> fst (eval_items env items stack caps w) \<noteq> Eval_Panic"
proof (induction "length items" arbitrary: items stack caps w rule: less_induct)
  case less
  show ?case
  proof (cases items)
    case (Cons i is')
    then have i: "functions_in (arity_ok (text_functions env)) [i]" "functions_in (arity_ok (text_functions env)) is'"
      using less.prems functions_in_Cons [of _ i is'] by auto
    show ?thesis
    proof (cases "\<exists>v p. i = JmpIf v p")
      case True
      then obtain v p where j: "i = JmpIf v p" by blast
      have "fst (eval_items env (if jump_taken v stack then drop (unat p) is' else is') stack caps w) \<noteq> Eval_Panic"
        by (rule less.hyps) (use i(2) functions_in_drop Cons in auto)
      then show ?thesis using j Cons by simp
    next
      case False
      have "fst (eval_bind (eval_item env i stack caps w) (eval_items env is')) \<noteq> Eval_Panic"
        using eval_item_defined [OF i(1), of stack caps w] less.hyps [of is', OF _ i(2)] Cons
        by (auto simp: eval_bind_def split: prod.splits eval_result.splits)
      then show ?thesis using False Cons eval_items_Cons [of i env is' stack] by auto
    qed
  qed simp
qed

end
