(* ===== verification/Expr_Text.thy ===== *)
theory Expr_Text
  imports Expr_Tokenizer Expr_Eval
begin

section \<open>Expressions as text\<close>

text \<open>
  The text of an expression and the way back: the tokens of a tree are written with blanks between
  them, and reading that text gives the program of the tree, whose value is the value of the tree.
\<close>

definition variable_name :: "u32 \<Rightarrow> rchar list" where
  "variable_name v = (case List.find (\<lambda>(_, i). i = v) VARIABLES_MAP of Some (n, _) \<Rightarrow> n | None \<Rightarrow> [])"

definition binary_text :: "binary_operator \<Rightarrow> string" where
  "binary_text op =
     (case op of
        Add \<Rightarrow> ''+'' | Subtract \<Rightarrow> ''-'' | Multiply \<Rightarrow> ''*'' | Divide \<Rightarrow> ''/''
      | And \<Rightarrow> ''&&'' | Or \<Rightarrow> ''||'' | Xor \<Rightarrow> ''^''
      | Eq \<Rightarrow> ''=='' | Ne \<Rightarrow> ''!='' | Lt \<Rightarrow> ''<'' | Le \<Rightarrow> ''<='' | Gt \<Rightarrow> ''>'' | Ge \<Rightarrow> ''>='')"

definition quoted :: "rchar list \<Rightarrow> bytes" where
  "quoted s = 34 # utf8_encode s @ [34]"

definition render :: "'r token \<Rightarrow> bytes" where
  "render t =
     (case t of
        Tok_Variable v \<Rightarrow> utf8_encode (variable_name v)
      | Tok_Capture c \<Rightarrow> utf8_encode (36 # nat_to_string (unat c))
      | Tok_Function name _ _ \<Rightarrow> utf8_encode name
      | Tok_Constant (Const_Integer i) \<Rightarrow> utf8_encode (nat_to_string (nat i))
      | Tok_Constant (Const_String s) \<Rightarrow> quoted s
      | Tok_Constant (Const_Float _) \<Rightarrow> []
      | Tok_Regex _ \<Rightarrow> []
      | Tok_Binary op \<Rightarrow> ascii (binary_text op)
      | Tok_Unary op \<Rightarrow> ascii (case op of Not \<Rightarrow> ''!'' | Minus \<Rightarrow> ''-'')
      | OpenParen \<Rightarrow> [40] | CloseParen \<Rightarrow> [41] | OpenBracket \<Rightarrow> [91] | CloseBracket \<Rightarrow> [93] | Comma \<Rightarrow> [44])"

fun render_all :: "('r \<Rightarrow> rchar list) \<Rightarrow> 'r token list \<Rightarrow> bytes" where
  "render_all rt [] = []"
| "render_all rt (Tok_Regex r # OpenParen # ts) = ascii ''matches'' @ 40 # quoted (rt r) @ 44 # render_all rt ts"
| "render_all rt (t # ts) = render t @ 32 # render_all rt ts"

definition plain_text :: "rchar list \<Rightarrow> bool" where
  "plain_text s \<longleftrightarrow> list_all is_scalar s \<and> 34 \<notin> set (utf8_encode s) \<and> 92 \<notin> set (utf8_encode s)"

text \<open>The tokens that have a text: integers that are not negative, text without quotes and
  backslashes, and the names that the tables of the context know.\<close>

definition token_ok :: "'r token_env \<Rightarrow> ('r \<Rightarrow> rchar list) \<Rightarrow> 'r token \<Rightarrow> bool" where
  "token_ok env rt t =
     (case t of
        Tok_Variable v \<Rightarrow> v \<in> snd ` set VARIABLES_MAP \<and> token_map env (variable_name v) = Some (Tok_Variable v)
      | Tok_Function name f k \<Rightarrow> find_function (token_functions env) name = Some (Tok_Function name f k :: 'r token)
      | Tok_Constant (Const_Integer i) \<Rightarrow> 0 \<le> i \<and> i < 2 ^ 63
      | Tok_Constant (Const_String s) \<Rightarrow> plain_text s
      | Tok_Constant (Const_Float _) \<Rightarrow> False
      | Tok_Regex r \<Rightarrow> plain_text (rt r) \<and> regex_new env (rt r) = Some r
      | _ \<Rightarrow> True)"

definition depth_after :: "'r token \<Rightarrow> nat \<Rightarrow> nat" where
  "depth_after t d = (case t of OpenParen \<Rightarrow> d + 1 | CloseParen \<Rightarrow> d - 1 | _ \<Rightarrow> d)"

fun lexes :: "'r token_env \<Rightarrow> ('r \<Rightarrow> rchar list) \<Rightarrow> bool \<Rightarrow> nat \<Rightarrow> 'r token list \<Rightarrow> bool" where
  "lexes env rt s d [] = (d = 0)"
| "lexes env rt s d (t # ts) =
     (token_ok env rt t \<and> (t = Tok_Unary Minus \<longrightarrow> s) \<and> (t = Tok_Binary Subtract \<longrightarrow> \<not> s) \<and>
      (t = OpenParen \<longrightarrow> d + 1 < 2 ^ 32) \<and> (t = CloseParen \<longrightarrow> 0 < d) \<and>
      (\<forall>r. t = Tok_Regex r \<longrightarrow> take 1 ts = [OpenParen]) \<and>
      lexes env rt (starts_operand t) (depth_after t d) ts)"

subsection \<open>Words\<close>

definition alpha_char :: "rchar \<Rightarrow> bool" where
  "alpha_char c \<longleftrightarrow> 65 \<le> c \<and> c \<le> 90 \<or> 97 \<le> c \<and> c \<le> 122 \<or> c = 95 \<or> c = 36"

definition word_char :: "rchar \<Rightarrow> bool" where
  "word_char c \<longleftrightarrow> alpha_char c \<or> is_digit c"

lemma ascii_byte:
  assumes "c < 128"
  shows "encode_char c = [of_nat c]" "is_scalar c"
    "is_alpha_byte (of_nat c) = alpha_char c" "is_ascii_digit (of_nat c) = is_digit c"
  using assms
  by (simp_all add: encode_char_def is_scalar_def is_alpha_byte_def alpha_char_def is_ascii_digit_def is_digit_def of_nat_u8_numeral)

lemma word_char_less: "word_char c \<Longrightarrow> c < 128"
  by (auto simp: word_char_def alpha_char_def is_digit_def)

lemma utf8_word: "list_all word_char s \<Longrightarrow> utf8_encode s = map of_nat s \<and> from_utf8_or_default (utf8_encode s) = s"
proof (induction s)
  case Nil
  then show ?case by (simp add: utf8_encode_def from_utf8_or_default_def from_utf8_def)
next
  case (Cons c s)
  then have "list_all is_scalar (c # s)"
    using word_char_less ascii_byte(2) by (auto simp: list_all_iff)
  then have "from_utf8_or_default (utf8_encode (c # s)) = c # s"
    by (simp add: from_utf8_or_default_def from_utf8_encode)
  then show ?case
    using Cons word_char_less [of c] ascii_byte(1) [of c] by (simp add: utf8_encode_def)
qed

lemma scan_word:
  "list_all word_char s \<Longrightarrow>
   scan env (map of_nat s @ bs) tz =
     scan env bs (tz\<lparr>buf := buf tz @ map of_nat s, has_alpha := has_alpha tz \<or> list_ex alpha_char s,
                     has_number := has_number tz \<or> list_ex (\<lambda>c. \<not> alpha_char c) s\<rparr>)"
proof (induction s arbitrary: tz)
  case (Cons c s)
  have "c < 128" and "word_char c" using Cons.prems word_char_less by auto
  then show ?case
    using Cons ascii_byte(3,4) [of c] by (cases "alpha_char c") (auto simp: word_char_def)
qed simp

definition state_at :: "bool \<Rightarrow> nat \<Rightarrow> bytes \<Rightarrow> 'r tokenizer" where
  "state_at s d bs =
     \<lparr>iter = bs, buf = [], depth = of_nat d, next_token = [], has_number = False, has_dot = False,
      has_alpha = False, is_start = s, is_eof = False\<rparr>"

definition pad :: "bool \<Rightarrow> bytes" where "pad b = (if b then [32] else [])"

lemma scan_pad: "buf tz = [] \<Longrightarrow> scan env (pad b @ bs) tz = scan env bs tz"
  by (simp add: pad_def is_alpha_byte_def is_ascii_digit_def continues_word_def is_blank_def)

text \<open>What \<open>parse_buf\<close> makes of a word.\<close>

definition word_token :: "'r token_env \<Rightarrow> rchar list \<Rightarrow> token_error + 'r token" where
  "word_token env s =
     (if list_ex (\<lambda>c. \<not> alpha_char c) s \<and> \<not> list_ex alpha_char s then
        (case parse_i64 s of Some i \<Rightarrow> Inr (Tok_Constant (Const_Integer i)) | None \<Rightarrow> Inl (Invalid_Integer s))
      else if \<not> list_ex (\<lambda>c. \<not> alpha_char c) s \<and> s = lit ''true'' then Inr (Tok_Constant (Const_Integer 1))
      else if \<not> list_ex (\<lambda>c. \<not> alpha_char c) s \<and> s = lit ''false'' then Inr (Tok_Constant (Const_Integer 0))
      else parse_word env s)"

lemma next_word:
  assumes "list_all word_char s" "s \<noteq> []" "word_token env s = Inr t"
  shows "tokenizer_next env (state_at st d (pad b @ utf8_encode s @ 32 # bs)) = Inr (Some t, state_at False d bs)"
proof -
  let ?tz = "state_at st d (pad b @ utf8_encode s @ 32 # bs)\<lparr>buf := map of_nat s, has_alpha := list_ex alpha_char s,
      has_number := list_ex (\<lambda>c. \<not> alpha_char c) s\<rparr>"
  have u: "utf8_encode s = map of_nat s" "from_utf8_or_default (map of_nat s) = s"
    using utf8_word [OF assms(1)] by auto
  have "tokenizer_next env (state_at st d (pad b @ utf8_encode s @ 32 # bs)) = scan env (32 # bs) ?tz"
    by (simp add: tokenizer_next_def u(1) state_at_def scan_pad scan_word [OF assms(1)] del: scan.simps)
  also have "\<dots> = at_delimiter env 32 bs ?tz"
    using assms(2) by (simp add: is_alpha_byte_def is_ascii_digit_def continues_word_def is_blank_def)
  also have "\<dots> = Inr (Some t, state_at False d bs)"
    using assms(2,3) u(2)
    by (auto simp: at_delimiter_def word_before_def parse_buf_def Let_def word_token_def state_at_def is_blank_def
        split: if_splits)
  finally show ?thesis .
qed

subsection \<open>The words of the tables\<close>

lemma digits_word: "list_all is_digit ds \<Longrightarrow> list_all word_char ds \<and> \<not> list_ex alpha_char ds"
  by (induction ds) (auto simp: word_char_def is_digit_def alpha_char_def)

lemma nat_to_string_is_digit: "list_all is_digit (nat_to_string n)"
  using nat_to_string_digits [of n] by (simp add: is_digit_def list_all_iff)

lemma list_ex_not: "s \<noteq> [] \<Longrightarrow> \<not> list_ex P s \<Longrightarrow> list_ex (\<lambda>c. \<not> P c) s"
  by (cases s) auto

lemma word_integer:
  assumes "0 \<le> i" "i < 2 ^ 63"
  shows "list_all word_char (nat_to_string (nat i))" "nat_to_string (nat i) \<noteq> []"
    "word_token env (nat_to_string (nat i)) = Inr (Tok_Constant (Const_Integer i))"
proof -
  let ?s = "nat_to_string (nat i)"
  have d: "list_all word_char ?s" "\<not> list_ex alpha_char ?s" "?s \<noteq> []"
    using digits_word [OF nat_to_string_is_digit] nat_to_string_digits by auto
  then show "list_all word_char ?s" "?s \<noteq> []" by auto
  have "parse_i64 ?s = Some i"
    using parse_i64_to_string [of i] assms by (simp add: in_i64_def i64_to_string_def)
  then show "word_token env ?s = Inr (Tok_Constant (Const_Integer i))"
    using d list_ex_not [OF d(3,2)] by (simp add: word_token_def)
qed

lemma parse_unsigned_to_string: "n < bound \<Longrightarrow> parse_unsigned bound (nat_to_string n) = Some n"
  using nat_to_string_digits [of n] parse_nat_to_string [of n]
  by (cases "nat_to_string n") (auto simp: parse_unsigned_def)

lemma word_capture:
  fixes c :: u32 and env :: "'r token_env"
  shows "list_all word_char (36 # nat_to_string (unat c))"
    "word_token env (36 # nat_to_string (unat c)) = Inr (Tok_Capture c)"
proof -
  let ?ds = "nat_to_string (unat c)"
  have d: "list_all word_char ?ds" "\<not> list_ex alpha_char ?ds" "?ds \<noteq> []"
    using digits_word [OF nat_to_string_is_digit] nat_to_string_digits by auto
  then show "list_all word_char (36 # ?ds)" by (simp add: word_char_def alpha_char_def)
  have "unat c < 2 ^ 32" by (rule order_less_le_trans [OF unsigned_less]) simp
  then have "find_capture (36 # ?ds) = Some (Tok_Capture c :: 'r token)"
    by (simp add: find_capture_def parse_unsigned_to_string)
  then show "word_token env (36 # ?ds) = Inr (Tok_Capture c)"
    using list_ex_not [OF d(3,2)] by (simp add: word_token_def parse_word_def alpha_char_def)
qed

definition function_names :: "rchar list list" where
  "function_names = map lit
     [''count'', ''sort'', ''dedup'', ''winnow'', ''is_intersect'', ''is_email'', ''email_part'',
      ''is_empty'', ''is_number'', ''is_ip_addr'', ''is_ipv4_addr'', ''is_ipv6_addr'',
      ''ip_reverse_name'', ''trim'', ''trim_end'', ''trim_start'', ''len'', ''to_lowercase'',
      ''to_uppercase'', ''is_uppercase'', ''is_lowercase'', ''has_digits'', ''count_spaces'',
      ''count_uppercase'', ''count_lowercase'', ''count_chars'', ''contains'',
      ''contains_ignore_case'', ''eq_ignore_case'', ''starts_with'', ''ends_with'', ''lines'',
      ''substring'', ''strip_prefix'', ''strip_suffix'', ''split'', ''rsplit'', ''split_once'',
      ''rsplit_once'', ''split_n'', ''split_words'', ''is_local_domain'', ''is_local_address'',
      ''key_get'', ''key_exists'', ''key_set'', ''counter_incr'', ''counter_get'', ''dns_query'',
      ''sql_query'']"

lemma function_names: "map fst (FUNCTIONS env) @ map fst ASYNC_FUNCTIONS = function_names"
  by (simp add: function_names_def FUNCTIONS_def ASYNC_FUNCTIONS_def)

text \<open>A word that is the name of something: no number, no capture, no truth value.\<close>

definition name_ok :: "rchar list \<Rightarrow> bool" where
  "name_ok s \<longleftrightarrow> s \<noteq> [] \<and> list_all word_char s \<and> list_ex alpha_char s \<and> hd s \<noteq> 36 \<and> s \<noteq> lit ''true'' \<and> s \<noteq> lit ''false''"

lemma word_name: "name_ok s \<Longrightarrow> word_token env s = (case find_function (token_functions env) s of
     Some t \<Rightarrow> Inr t
   | None \<Rightarrow> (case token_map env s of Some t \<Rightarrow> Inr t | None \<Rightarrow>
       (case parse_duration s of
          Some d \<Rightarrow> Inr (Tok_Constant (Const_Integer (i64_of_usize (unat d))))
        | None \<Rightarrow> Inl (Invalid_Name s))))"
  by (cases s) (auto simp: name_ok_def word_token_def parse_word_def find_capture_def)

lemma function_names_ok: "list_all name_ok function_names"
  by (simp add: function_names_def name_ok_def lit_def word_char_def alpha_char_def is_digit_def)

lemma lit_inject: "lit s = lit t \<longleftrightarrow> s = t"
  by (auto simp: lit_def inj_map_eq_map [OF injI] dest: map_injective [OF _ injI])

lemma variable_names_ok:
  "list_all (\<lambda>(s, v). name_ok s) VARIABLES_MAP"
  "list_all (\<lambda>(s, v). s \<notin> set function_names) VARIABLES_MAP"
  "list_all (\<lambda>(s, v). variable_name v = s) VARIABLES_MAP"
    by (simp add: VARIABLES_MAP_def name_ok_def lit_def word_char_def alpha_char_def is_digit_def)
   (simp_all add: VARIABLES_MAP_def function_names_def lit_inject variable_name_def)

lemma find_function_None: "s \<notin> set function_names \<Longrightarrow> find_function env s = None"
proof -
  assume "s \<notin> set function_names"
  then have "s \<notin> fst ` set (FUNCTIONS env)" "s \<notin> fst ` set ASYNC_FUNCTIONS"
    unfolding function_names [of env, symmetric] by auto
  then have "List.find (\<lambda>(_, name, _, _). name = s) (enumerate 0 (FUNCTIONS env)) = None"
    "List.find (\<lambda>(name, _, _). name = s) ASYNC_FUNCTIONS = None"
    by (auto simp: find_None_iff in_set_enumerate_eq image_iff) (metis fst_conv nth_mem)+
  then show ?thesis by (simp add: find_function_def)
qed

lemma token_ok_word:
  assumes "token_ok env rt t"
    and "(\<exists>v. t = Tok_Variable v) \<or> (\<exists>c. t = Tok_Capture c) \<or> (\<exists>n f k. t = Tok_Function n f k) \<or>
         (\<exists>i. t = Tok_Constant (Const_Integer i))"
  shows "\<exists>s. render t = utf8_encode s \<and> list_all word_char s \<and> s \<noteq> [] \<and> word_token env s = Inr t"
  using assms(2)
proof (elim disjE exE)
  fix v assume t: "t = Tok_Variable v"
  then obtain s where s: "(s, v) \<in> set VARIABLES_MAP" and m: "token_map env (variable_name v) = Some (Tok_Variable v)"
    using assms(1) by (auto simp: token_ok_def)
  then have "name_ok s" "s \<notin> set function_names" "variable_name v = s"
    using variable_names_ok by (auto simp: list_all_iff)
  then show ?thesis using m t
    by (intro exI [of _ s]) (simp add: render_def word_name find_function_None, simp add: name_ok_def)
next
  fix c assume "t = Tok_Capture c"
  then show ?thesis using word_capture by (intro exI [of _ "36 # nat_to_string (unat c)"]) (auto simp: render_def)
next
  fix n f k assume t: "t = Tok_Function n f k"
  then have ff: "find_function (token_functions env) n = Some t" using assms(1) by (simp add: token_ok_def)
  then have "n \<in> set function_names" by (rule contrapos_pp) (simp add: find_function_None)
  then have "name_ok n" using function_names_ok by (simp add: list_all_iff)
  then show ?thesis using ff t by (intro exI [of _ n]) (simp add: render_def word_name, simp add: name_ok_def)
next
  fix i assume "t = Tok_Constant (Const_Integer i)"
  then show ?thesis using word_integer [of i] assms(1)
    by (intro exI [of _ "nat_to_string (nat i)"]) (simp add: render_def token_ok_def)
qed

subsection \<open>Delimiters\<close>

lemma string_loop_plain:
  "34 \<notin> set bs \<Longrightarrow> 92 \<notin> set bs \<Longrightarrow> c \<noteq> 92 \<Longrightarrow> string_loop 34 c acc (bs @ 34 # rest) = Some (acc @ bs, rest)"
  by (induction bs arbitrary: c acc) auto

lemma parse_string_plain: "plain_text s \<Longrightarrow> parse_string 34 (utf8_encode s @ 34 # rest) = Inr (s, rest)"
  by (simp add: parse_string_def plain_text_def string_loop_plain from_utf8_encode)

lemma scan_delimiter:
  assumes "\<not> is_alpha_byte ch" "\<not> is_ascii_digit ch" "ch \<noteq> 46" "ch \<noteq> 125" "\<not> is_blank ch"
    and "delimiter ch it (state_at s d bs) = Inr (t, it', state_at s d' bs)"
  shows "tokenizer_next env (state_at s d (pad b @ ch # it)) = Inr (Some t, state_at (starts_operand t) d' it')"
proof -
  let ?tz = "state_at s d (pad b @ ch # it)"
  have "delimiter ch it ?tz = Inr (t, it', state_at s d' (pad b @ ch # it))"
    using assms(6) by (auto simp: delimiter_def state_at_def rbind_Inr_iff split: if_splits prod.splits)
  moreover have "buf ?tz = []" by (simp add: state_at_def)
  ultimately have "at_delimiter env ch it ?tz = Inr (Some t, state_at (starts_operand t) d' it')"
    using assms(5) by (simp add: at_delimiter_def word_before_def state_at_def ascii_def)
  then show ?thesis
    using assms(1-5) by (simp add: tokenizer_next_def state_at_def scan_pad continues_word_def del: scan.simps(1))
qed

lemma delimiter_byte:
  "ch \<in> {33, 34, 38, 40, 41, 42, 43, 44, 45, 47, 60, 61, 62, 91, 93, 94, 124} \<Longrightarrow>
   \<not> is_alpha_byte ch \<and> \<not> is_ascii_digit ch \<and> ch \<noteq> 46 \<and> ch \<noteq> 125 \<and> \<not> is_blank ch"
  by (auto simp: is_alpha_byte_def is_ascii_digit_def is_blank_def)

lemma next_delimiter:
  assumes "ch \<in> {33, 34, 38, 40, 41, 42, 43, 44, 45, 47, 60, 61, 62, 91, 93, 94, 124}"
    and "\<And>bs'. delimiter ch (w @ 32 # bs) (state_at s d bs') = Inr (t, 32 # bs, state_at s d' bs')"
  shows "tokenizer_next env (state_at s d (pad b @ (ch # w) @ 32 # bs)) =
    Inr (Some t, state_at (starts_operand t) d' (pad True @ bs))"
  using scan_delimiter [OF _ _ _ _ _ assms(2)] delimiter_byte [OF assms(1)] by (simp add: pad_def)

lemma of_nat_pred: "0 < d \<Longrightarrow> d < 2 ^ 32 \<Longrightarrow> (of_nat d :: u32) \<noteq> 0 \<and> (of_nat d :: u32) - 1 = of_nat (d - 1)"
  by (auto simp: word_of_nat_eq_0_iff of_nat_diff dest: nat_dvd_not_less)

lemma next_symbol:
  assumes "t = Tok_Unary Minus \<longrightarrow> s" "t = Tok_Binary Subtract \<longrightarrow> \<not> s" "t = CloseParen \<longrightarrow> 0 < d" "d < 2 ^ 32"
    and "(\<exists>op. t = Tok_Unary op) \<or> (\<exists>op. t = Tok_Binary op) \<or> t \<in> {OpenParen, CloseParen, OpenBracket, CloseBracket, Comma}"
  shows "tokenizer_next env (state_at s d (pad b @ render t @ 32 # bs)) =
    Inr (Some t, state_at (starts_operand t) (depth_after t d) (pad True @ bs))"
  using assms(5)
proof (elim disjE exE)
  fix op assume t: "t = Tok_Unary op"
  show ?thesis
    unfolding t
    by (cases op; simp only: render_def token.case unary_operator.case ascii_def list.map;
      intro next_delimiter)
      (use assms(1) t in \<open>auto simp: delimiter_def skip_peek_def state_at_def depth_after_def\<close>)
next
  fix op assume t: "t = Tok_Binary op"
  have "\<exists>ch w. render t = ch # w \<and> ch \<in> {33, 34, 38, 40, 41, 42, 43, 44, 45, 47, 60, 61, 62, 91, 93, 94, 124} \<and>
      (\<forall>bs'. delimiter ch (w @ 32 # bs) (state_at s d bs') = Inr (t, 32 # bs, state_at s d bs'))"
    using assms(2) t by (cases op) (simp_all add: render_def binary_text_def ascii_def delimiter_def skip_peek_def state_at_def)
  then show ?thesis using next_delimiter [where t = t and d' = d] t by (auto simp: depth_after_def simp del: append_Cons)
next
  assume "t \<in> {OpenParen, CloseParen, OpenBracket, CloseBracket, Comma}"
  then have "\<exists>ch. render t = [ch] \<and> ch \<in> {33, 34, 38, 40, 41, 42, 43, 44, 45, 47, 60, 61, 62, 91, 93, 94, 124} \<and>
      (\<forall>bs'. delimiter ch ([] @ 32 # bs) (state_at s d bs') = Inr (t, 32 # bs, state_at s (depth_after t d) bs'))"
    using assms(3,4) of_nat_pred [of d] by (auto simp: render_def delimiter_def state_at_def depth_after_def)
  then show ?thesis using next_delimiter [where w = "[]" and t = t and d' = "depth_after t d"] by (auto simp del: append_Cons)
qed

lemma next_token_of:
  assumes "token_ok env rt t" "\<And>r. t \<noteq> Tok_Regex r"
    "t = Tok_Unary Minus \<longrightarrow> s" "t = Tok_Binary Subtract \<longrightarrow> \<not> s" "t = CloseParen \<longrightarrow> 0 < d" "d < 2 ^ 32"
  shows "\<exists>b'. tokenizer_next env (state_at s d (pad b @ render t @ 32 # bs)) =
    Inr (Some t, state_at (starts_operand t) (depth_after t d) (pad b' @ bs))"
proof -
  consider (word) "(\<exists>v. t = Tok_Variable v) \<or> (\<exists>c. t = Tok_Capture c) \<or> (\<exists>n f k. t = Tok_Function n f k) \<or>
         (\<exists>i. t = Tok_Constant (Const_Integer i))"
    | (string) w where "t = Tok_Constant (Const_String w)"
    | (symbol) "(\<exists>op. t = Tok_Unary op) \<or> (\<exists>op. t = Tok_Binary op) \<or> t \<in> {OpenParen, CloseParen, OpenBracket, CloseBracket, Comma}"
    using assms(1,2) by (cases t) (auto simp: token_ok_def split: expr_constant.splits)
  then show ?thesis
  proof cases
    case word
    then obtain w where "render t = utf8_encode w" "list_all word_char w" "w \<noteq> []" "word_token env w = Inr t"
      using token_ok_word [OF assms(1)] by blast
    then show ?thesis using next_word [of w env t s d b bs] word
      by (intro exI [of _ False]) (auto simp: pad_def starts_operand_def depth_after_def)
  next
    case string
    then have "parse_string 34 (utf8_encode w @ 34 # 32 # bs) = Inr (w, 32 # bs)"
      using assms(1) parse_string_plain by (simp add: token_ok_def)
    then show ?thesis
      using string next_delimiter [of 34 "utf8_encode w @ [34]" bs s d t d env b]
      by (intro exI [of _ True]) (auto simp: render_def quoted_def delimiter_def depth_after_def)
  next
    case symbol
    then show ?thesis using next_symbol [OF assms(3-6)] by blast
  qed
qed

text \<open>A regular expression and the parenthesis after it are found together.\<close>

lemma next_regex:
  assumes "token_ok env rt (Tok_Regex r)"
  shows "tokenizer_next env (state_at s d (pad b @ ascii ''matches'' @ 40 # quoted (rt r) @ 44 # bs)) =
    Inr (Some (Tok_Regex r), (state_at True (d + 1) bs)\<lparr>next_token := [OpenParen]\<rparr>)"
proof -
  have m: "ascii ''matches'' = map of_nat (lit ''matches'')" "list_all word_char (lit ''matches'')"
    "list_ex alpha_char (lit ''matches'')" "\<not> list_ex (\<lambda>c. \<not> alpha_char c) (lit ''matches'')"
    by (simp_all add: ascii_def lit_def word_char_def alpha_char_def is_digit_def)
  let ?bs = "pad b @ ascii ''matches'' @ 40 # quoted (rt r) @ 44 # bs"
  have "tokenizer_next env (state_at s d ?bs) =
      scan env (40 # quoted (rt r) @ 44 # bs) ((state_at s d ?bs)\<lparr>buf := ascii ''matches'', has_alpha := True\<rparr>)"
    using m(3,4) by (simp add: tokenizer_next_def state_at_def scan_pad scan_word [OF m(2)] m(1) del: scan.simps)
  also have "\<dots> = at_delimiter env 40 (quoted (rt r) @ 44 # bs) ((state_at s d ?bs)\<lparr>buf := ascii ''matches'', has_alpha := True\<rparr>)"
    using delimiter_byte [of 40] by (simp add: continues_word_def)
  also have "\<dots> = Inr (Some (Tok_Regex r), (state_at True (d + 1) bs)\<lparr>next_token := [OpenParen]\<rparr>)"
    using assms parse_string_plain [of "rt r" "44 # bs"]
    by (simp add: at_delimiter_def word_before_def quoted_def token_ok_def is_space_byte_def is_blank_def delimiter_def
        state_at_def starts_operand_def)
  finally show ?thesis .
qed

subsection \<open>Reading back\<close>

lemma render_all_plain: "(\<And>r. t \<noteq> Tok_Regex r) \<Longrightarrow> render_all rt (t # ts) = render t @ 32 # render_all rt ts"
  by (cases t) auto

lemma parse_loop_regex:
  assumes "token_ok env rt (Tok_Regex r)"
  shows "parse_loop env (state_at s d (pad b @ render_all rt (Tok_Regex r # OpenParen # ts))) st =
    parse_loop env (state_at True (d + 1) (pad False @ render_all rt ts))
      (push_operator OpenParen None (open_call 0 (Tok_Regex r) (inc_arg_count st)))"
proof -
  let ?tz = "(state_at True (d + 1) (render_all rt ts))\<lparr>next_token := [OpenParen]\<rparr>"
  have n: "tokenizer_next env ?tz = Inr (Some OpenParen, state_at True (d + 1) (pad False @ render_all rt ts))"
    by (simp add: tokenizer_next_def state_at_def pad_def)
  have "parse_loop env (state_at s d (pad b @ render_all rt (Tok_Regex r # OpenParen # ts))) st =
      parse_loop env ?tz (open_call 0 (Tok_Regex r) (inc_arg_count st))"
    using next_regex [OF assms, of s d b "render_all rt ts"] by (subst parse_loop.simps) simp
  also have "\<dots> = parse_loop env (state_at True (d + 1) (pad False @ render_all rt ts))
      (push_operator OpenParen None (open_call 0 (Tok_Regex r) (inc_arg_count st)))"
    by (subst parse_loop.simps) (simp only: n, simp)
  finally show ?thesis .
qed

lemma parse_loop_tokens:
  "lexes env rt s d ts \<Longrightarrow> d < 2 ^ 32 \<Longrightarrow>
   parse_loop env (state_at s d (pad b @ render_all rt ts)) st = lift_error Syntax_Error (rbind (parse_steps ts st) parse_end)"
proof (induction "length ts" arbitrary: ts s d b st rule: less_induct)
  case less
  show ?case
  proof (cases ts)
    case Nil
    have "tokenizer_next env (state_at s d (pad b)) = Inr (None, state_at s d [])"
      using less.prems Nil
      by (simp add: tokenizer_next_def state_at_def pad_def at_end_def is_alpha_byte_def is_ascii_digit_def
          continues_word_def is_blank_def)
    then show ?thesis using Nil by (subst parse_loop.simps) simp
  next
    case (Cons t us)
    show ?thesis
    proof (cases "\<exists>r. t = Tok_Regex r")
      case True
      then obtain r vs where ts: "ts = Tok_Regex r # OpenParen # vs"
        using less.prems(1) Cons by (cases us) auto
      then have ok: "token_ok env rt (Tok_Regex r)" and rest: "lexes env rt True (d + 1) vs" "d + 1 < 2 ^ 32"
        using less.prems(1) by (auto simp: starts_operand_def depth_after_def)
      show ?thesis
        using less.hyps [of vs, OF _ rest, of False] ts parse_loop_regex [OF ok] by simp
    next
      case False
      then obtain b' where n: "tokenizer_next env (state_at s d (pad b @ render_all rt ts)) =
          Inr (Some t, state_at (starts_operand t) (depth_after t d) (pad b' @ render_all rt us))"
        using next_token_of [of env rt t s d b "render_all rt us"] less.prems Cons render_all_plain [of t rt us] by auto
      have "lexes env rt (starts_operand t) (depth_after t d) us" "depth_after t d < 2 ^ 32"
        using less.prems Cons by (auto simp: depth_after_def split: token.splits)
      note IH = less.hyps [of us, OF _ this, of b']
      have "parse_loop env (state_at s d (pad b @ render_all rt ts)) st = (case parse_step t st of
          Inl e \<Rightarrow> Inl (Syntax_Error e)
        | Inr st' \<Rightarrow> parse_loop env (state_at (starts_operand t) (depth_after t d) (pad b' @ render_all rt us)) st')"
        by (subst parse_loop.simps) (simp only: n, simp)
      then show ?thesis using Cons IH by (cases "parse_step t st") (simp_all add: lift_error_def)
    qed
  qed
qed

subsection \<open>The tokens of a tree have a text\<close>

fun renderable :: "'r token_env \<Rightarrow> ('r \<Rightarrow> rchar list) \<Rightarrow> 'r expr \<Rightarrow> bool" where
  "renderable env rt (E_Constant c) = token_ok env rt (Tok_Constant c)"
| "renderable env rt (E_Variable v) = token_ok env rt (Tok_Variable v)"
| "renderable env rt (E_Capture c) = True"
| "renderable env rt (E_Unary op e) = renderable env rt e"
| "renderable env rt (E_Binary op l r) = (renderable env rt l \<and> renderable env rt r)"
| "renderable env rt (E_Function name f es) =
     (token_ok env rt (Tok_Function name f (of_nat (length es))) \<and> list_all (renderable env rt) es)"
| "renderable env rt (E_Matches r e) = (token_ok env rt (Tok_Regex r) \<and> renderable env rt e)"
| "renderable env rt (E_Array es) = list_all (renderable env rt) es"
| "renderable env rt (E_Index e i) = (renderable env rt e \<and> renderable env rt i)"

lemma token_ok_symbol [simp]:
  "token_ok env rt (Tok_Unary u)" "token_ok env rt (Tok_Binary op)" "token_ok env rt (Tok_Capture c)"
  "token_ok env rt OpenParen" "token_ok env rt CloseParen" "token_ok env rt OpenBracket"
  "token_ok env rt CloseBracket" "token_ok env rt Comma"
  by (simp_all add: token_ok_def)

lemma starts_operand_simps [simp]:
  "starts_operand OpenParen" "starts_operand Comma" "starts_operand (Tok_Binary op)"
  "\<not> starts_operand (Tok_Unary u)" "\<not> starts_operand (Tok_Variable v)" "\<not> starts_operand (Tok_Constant c)"
  "\<not> starts_operand (Tok_Capture n)" "\<not> starts_operand (Tok_Function name f k)" "\<not> starts_operand (Tok_Regex r)"
  "\<not> starts_operand CloseParen" "\<not> starts_operand OpenBracket" "\<not> starts_operand CloseBracket"
  by (simp_all add: starts_operand_def)

lemma depth_after_simps [simp]:
  "depth_after OpenParen d = Suc d" "depth_after CloseParen d = d - 1" "depth_after Comma d = d"
  "depth_after (Tok_Binary op) d = d" "depth_after (Tok_Unary u) d = d" "depth_after (Tok_Variable v) d = d"
  "depth_after (Tok_Constant c) d = d" "depth_after (Tok_Capture n) d = d" "depth_after (Tok_Function name f k) d = d"
  "depth_after (Tok_Regex r) d = d" "depth_after OpenBracket d = d" "depth_after CloseBracket d = d"
  by (simp_all add: depth_after_def)

text \<open>The tokens of an operand leave the tokenizer after an operand and at the same depth.\<close>

definition lexes_over :: "'r token_env \<Rightarrow> ('r \<Rightarrow> rchar list) \<Rightarrow> bool \<Rightarrow> 'r token list \<Rightarrow> bool" where
  "lexes_over env rt s ts \<longleftrightarrow>
     (\<forall>s' d rest. (s \<longrightarrow> s') \<longrightarrow> d + length ts < 2 ^ 32 \<longrightarrow>
        lexes env rt s' d (ts @ rest) = lexes env rt False d rest)"

lemma lexes_overD:
  "lexes_over env rt s ts \<Longrightarrow> s \<longrightarrow> s' \<Longrightarrow> d + length ts < 2 ^ 32 \<Longrightarrow>
   lexes env rt s' d (ts @ rest) = lexes env rt False d rest"
  by (simp add: lexes_over_def)

lemma lexes_separate:
  assumes "\<And>s ts. (s, ts) \<in> set xs \<Longrightarrow> lexes_over env rt s ts"
    and "xs \<noteq> [] \<longrightarrow> fst (hd xs) \<longrightarrow> s" "d + length (separate (map snd xs)) < 2 ^ 32"
    and "c = CloseParen \<or> c = CloseBracket"
  shows "lexes env rt s d (separate (map snd xs) @ c # rest) = lexes env rt False d (c # rest)"
  using assms
proof (induction xs arbitrary: s)
  case Nil
  then show ?case by auto
next
  case (Cons x xs)
  obtain s' ts where x: "x = (s', ts)" by (cases x)
  have "d + length ts < 2 ^ 32" using Cons.prems(3) x by (cases xs) auto
  then have o: "lexes env rt s d (ts @ us) = lexes env rt False d us" for us
    using Cons.prems(1,2) x by (intro lexes_overD [of env rt s']) auto
  show ?case
  proof (cases xs)
    case Nil
    then show ?thesis using o x by simp
  next
    case (Cons y ys)
    have "lexes env rt True d (separate (map snd xs) @ c # rest) = lexes env rt False d (c # rest)"
      by (rule Cons.IH) (use Cons.prems Cons x in auto)
    then show ?thesis using o x Cons by simp
  qed
qed

lemma lexes_over_group:
  "lexes_over env rt True ts \<Longrightarrow> lexes_over env rt s (OpenParen # ts @ [CloseParen])"
  using lexes_overD [of env rt True ts True] by (subst lexes_over_def) simp

lemma lexes_over_call:
  assumes "\<And>s ts. (s, ts) \<in> set xs \<Longrightarrow> lexes_over env rt s ts" "xs \<noteq> [] \<longrightarrow> \<not> fst (hd xs) \<or> b = OpenParen"
    "b = OpenParen \<and> c = CloseParen \<or> b = OpenBracket \<and> c = CloseBracket"
  shows "lexes_over env rt s (b # separate (map snd xs) @ [c])"
proof -
  have "lexes env rt (starts_operand b) d (separate (map snd xs) @ c # rest) = lexes env rt False d (c # rest)"
    if "d + length (separate (map snd xs)) < 2 ^ 32" for d rest
    by (rule lexes_separate) (use assms that in auto)
  then show ?thesis using assms(3) by (auto simp: lexes_over_def)
qed

lemma lexes_over_append:
  "lexes_over env rt s ts \<Longrightarrow> lexes_over env rt False us \<Longrightarrow> lexes_over env rt s (ts @ us)"
  by (simp add: lexes_over_def)

lemma lexes_over_unary:
  "lexes_over env rt False ts \<Longrightarrow> u = Minus \<longrightarrow> s \<Longrightarrow> lexes_over env rt s (Tok_Unary u # ts)"
  using lexes_overD [of env rt False ts False] by (subst lexes_over_def) simp

lemma lexes_over_binary:
  assumes "lexes_over env rt s ts" "lexes_over env rt True us"
  shows "lexes_over env rt s (ts @ Tok_Binary op # us)"
  using lexes_overD [OF assms(1)] lexes_overD [OF assms(2), of True] by (subst lexes_over_def) simp

lemma lexes_over_name:
  assumes "lexes_over env rt False (OpenParen # ts)" "token_ok env rt t" "(\<exists>n f k. t = Tok_Function n f k) \<or> (\<exists>r. t = Tok_Regex r)"
  shows "lexes_over env rt s (t # OpenParen # ts)"
  using lexes_overD [OF assms(1), of False] assms(2,3) by (subst lexes_over_def) auto

lemma lexes_over_tokens: "renderable env rt e \<Longrightarrow> lexes_over env rt s (tokens p s e)"
proof (induction e arbitrary: p s)
  case (E_Unary op e)
  then have e: "lexes_over env rt False (tokens 8 False e)" by simp
  show ?case
    using lexes_over_unary [OF e, of op s] lexes_over_group [OF lexes_over_unary [OF e, of op True], of s]
    by (auto simp: in_parens_def)
next
  case (E_Binary op l r)
  have "lexes_over env rt t (tokens (precedence op) t l @ Tok_Binary op # tokens (Suc (precedence op)) True r)" for t
    using E_Binary by (intro lexes_over_binary) auto
  from this [of s] lexes_over_group [OF this, of s] show ?case by (simp add: in_parens_def Let_def)
next
  case (E_Function name f es)
  have "lexes_over env rt False (OpenParen # separate (map snd (map (\<lambda>e. (True, tokens 1 True e)) es)) @ [CloseParen])"
    by (rule lexes_over_call) (use E_Function in \<open>auto simp: list_all_iff\<close>)
  from lexes_over_name [OF this, of "Tok_Function name f (of_nat (length es))"] show ?case
    using E_Function.prems by (simp add: comp_def)
next
  case (E_Matches r e)
  from lexes_over_name [OF lexes_over_group, of env rt "tokens 1 True e" "Tok_Regex r"] show ?case
    using E_Matches by simp
next
  case (E_Array es)
  let ?xs = "case es of [] \<Rightarrow> [] | e # es' \<Rightarrow> (False, tokens 1 False e) # map (\<lambda>e. (True, tokens 1 True e)) es'"
  have "lexes_over env rt s (OpenBracket # separate (map snd ?xs) @ [CloseBracket])"
    by (rule lexes_over_call) (use E_Array in \<open>auto simp: list_all_iff split: list.splits\<close>)
  moreover have "map snd ?xs = (case es of [] \<Rightarrow> [] | e # es' \<Rightarrow> tokens 1 False e # map (tokens 1 True) es')"
    by (cases es) (simp_all add: comp_def)
  ultimately show ?case by simp
next
  case (E_Index e i)
  have "lexes_over env rt False (OpenBracket # separate (map snd [(False, tokens 1 False i)]) @ [CloseBracket])"
    by (rule lexes_over_call) (use E_Index in auto)
  moreover have "lexes_over env rt s (if indexable e then tokens 8 s e else OpenParen # tokens 1 True e @ [CloseParen])"
    using E_Index lexes_over_group [of env rt "tokens 1 True e" s] by simp
  ultimately show ?case unfolding tokens.simps by (intro lexes_over_append) simp_all
qed (simp_all add: lexes_over_def)

text \<open>Reading the text of a tree gives its program.\<close>

lemma expression_parse_render:
  assumes "well_formed e" "renderable env rt e" "length (tokens 1 True e) < 2 ^ 32"
  shows "expression_parse env (render_all rt (tokens 1 True e)) = Inr (compile_expr e)"
proof -
  have "lexes env rt True 0 (tokens 1 True e)"
    using lexes_overD [OF lexes_over_tokens [OF assms(2), of True 1], of True 0 "[]"] assms(3) by simp
  then have "parse_loop env (state_at True 0 (pad False @ render_all rt (tokens 1 True e))) expression_parser_new =
      lift_error Syntax_Error (parse_tokens (tokens 1 True e))"
    unfolding parse_tokens_def by (rule parse_loop_tokens) simp
  then show ?thesis
    using parse_tokens_compile [OF assms(1)] by (simp add: lift_error_def expression_parse_def tokenizer_new_def state_at_def pad_def)
qed

subsection \<open>The tokens of any text\<close>

lemma length_FUNCTIONS: "length (FUNCTIONS env) = 41"
  by (simp add: FUNCTIONS_def)

lemma find_SomeD: "List.find P xs = Some x \<Longrightarrow> x \<in> set xs"
  by (auto simp: find_Some_iff)

lemma async_arity: "(name, idx, k) \<in> set ASYNC_FUNCTIONS \<Longrightarrow> 41 \<le> unat (idx + 41)"
  by (auto simp: ASYNC_FUNCTIONS_def)

lemma find_function_arity:
  assumes "find_function env s = Some t"
  shows "token_in (arity_ok env) t"
proof (cases "List.find (\<lambda>(_, name, _, _). name = s) (enumerate 0 (FUNCTIONS env))")
  case None
  then obtain name idx k where t: "t = Tok_Function name (idx + 41) k"
    and m: "List.find (\<lambda>(name, _, _). name = s) ASYNC_FUNCTIONS = Some (name, idx, k)"
    using assms by (auto simp: find_function_def length_FUNCTIONS split: option.splits)
  have "41 \<le> unat (idx + 41)" using async_arity [OF find_SomeD [OF m]] .
  then show ?thesis by (simp add: t token_in_def arity_ok_def nth_opt_def length_FUNCTIONS)
next
  case (Some x)
  obtain idx name g k where x: "x = (idx, name, g, k)" by (cases x)
  have idx: "idx < 41" "FUNCTIONS env ! idx = (name, g, k)"
    using find_SomeD [OF Some] by (auto simp: x in_set_enumerate_eq length_FUNCTIONS)
  then have "unat (of_nat idx :: u32) = idx" by (simp add: unat_of_nat take_bit_nat_eq_self)
  moreover have "t = Tok_Function name (of_nat idx) k" using assms Some x by (simp add: find_function_def)
  ultimately show ?thesis using idx by (simp add: token_in_def arity_ok_def nth_opt_def length_FUNCTIONS)
qed

definition names_ok :: "'r token_env \<Rightarrow> bool" where
  "names_ok env \<longleftrightarrow> (\<forall>s t. token_map env s = Some t \<longrightarrow> token_in (arity_ok (token_functions env)) t)"

lemma parse_buf_arity:
  "names_ok env \<Longrightarrow> parse_buf env tz = (Inr t, tz') \<Longrightarrow> token_in (arity_ok (token_functions env)) t"
  by (auto simp: parse_buf_def parse_word_def find_capture_def names_ok_def Let_def find_function_arity
    split: if_splits option.splits list.splits)

lemma delimiter_arity: "delimiter ch it tz = Inr (t, it', tz') \<Longrightarrow> token_in F t"
  by (auto simp: delimiter_def rbind_Inr_iff split: if_splits prod.splits list.splits)

definition pending_ok :: "'r token_env \<Rightarrow> 'r tokenizer \<Rightarrow> bool" where
  "pending_ok env tz = list_all (token_in (arity_ok (token_functions env))) (next_token tz)"

lemma at_delimiter_arity:
  assumes "names_ok env" "pending_ok env tz" "at_delimiter env ch it tz = Inr (Some t, tz')"
  shows "token_in (arity_ok (token_functions env)) t \<and> pending_ok env tz'"
proof -
  let ?F = "arity_ok (token_functions env)"
  obtain prev it' tz1 where w: "word_before env ch it tz = Inr (prev, it', tz1)"
    and d: "(if is_blank ch then Inr (prev, tz1\<lparr>iter := it'\<rparr>)
       else rbind (delimiter ch it' tz1) (\<lambda>(t, it'', tz'').
           let tz3 = tz''\<lparr>iter := it'', is_start := starts_operand t\<rparr>
           in case prev of
                Some _ \<Rightarrow> Inr (prev, tz3\<lparr>next_token := t # next_token tz3\<rparr>)
              | None \<Rightarrow> Inr (Some t, tz3))) = Inr (Some t, tz')"
    using assms(3) by (auto simp: at_delimiter_def rbind_Inr_iff)
  have prev: "prev = Some u \<Longrightarrow> token_in ?F u" for u
    using w parse_buf_arity [OF assms(1)]
    by (auto simp: word_before_def rbind_Inr_iff split: if_splits prod.splits sum.splits option.splits)
  have tz1: "next_token tz1 = next_token tz" using word_before_keeps [OF w] by simp
  show ?thesis
  proof (cases "is_blank ch")
    case True
    then show ?thesis using d prev tz1 assms(2) by (auto simp: pending_ok_def)
  next
    case False
    then obtain u it'' tz2 where u: "delimiter ch it' tz1 = Inr (u, it'', tz2)"
      using d by (auto simp: rbind_Inr_iff)
    have "token_in ?F u" "next_token tz2 = next_token tz1"
      using delimiter_arity [OF u] delimiter_keeps [OF u] by auto
    then show ?thesis using d u False prev tz1 assms(2) by (auto simp: pending_ok_def Let_def split: option.splits)
  qed
qed

lemma at_end_arity:
  assumes "names_ok env" "pending_ok env tz" "at_end env tz = Inr (Some t, tz')"
  shows "token_in (arity_ok (token_functions env)) t \<and> pending_ok env tz'"
proof -
  have p: "parse_buf env tz = (Inr t, tz')"
    using assms(3) by (auto simp: at_end_def split: if_splits prod.splits sum.splits)
  then show ?thesis using parse_buf_arity [OF assms(1) p] parse_buf_keeps [OF p] assms(2) by (simp add: pending_ok_def)
qed

lemma pending_ok_simps [simp]:
  "pending_ok env (tz\<lparr>buf := b\<rparr>) = pending_ok env tz" "pending_ok env (tz\<lparr>has_alpha := x\<rparr>) = pending_ok env tz"
  "pending_ok env (tz\<lparr>has_number := x\<rparr>) = pending_ok env tz" "pending_ok env (tz\<lparr>has_dot := x\<rparr>) = pending_ok env tz"
  "pending_ok env (tz\<lparr>iter := it\<rparr>) = pending_ok env tz" "pending_ok env (tz\<lparr>is_eof := x\<rparr>) = pending_ok env tz"
  by (simp_all add: pending_ok_def)

lemma scan_arity:
  "names_ok env \<Longrightarrow> pending_ok env tz \<Longrightarrow> scan env it tz = Inr (Some t, tz') \<Longrightarrow>
   token_in (arity_ok (token_functions env)) t \<and> pending_ok env tz'"
proof (induction it arbitrary: tz)
  case Nil
  then show ?case using at_end_arity [of env "tz\<lparr>iter := []\<rparr>" t tz'] by simp
next
  case (Cons ch it)
  note IH = Cons.IH [OF Cons.prems(1)]
  show ?case
    using Cons.prems IH [of "tz\<lparr>buf := buf tz @ [ch], has_alpha := True\<rparr>"]
      IH [of "tz\<lparr>buf := buf tz @ [ch], has_number := True\<rparr>"] IH [of "tz\<lparr>buf := buf tz @ [ch], has_dot := True\<rparr>"]
      IH [of "tz\<lparr>buf := buf tz @ [ch]\<rparr>"] IH [of tz]
      at_end_arity [OF Cons.prems(1), of "tz\<lparr>iter := it, is_eof := True\<rparr>" t tz']
      at_delimiter_arity [OF Cons.prems(1,2), of ch it t tz']
    by (simp split: if_splits)
qed

lemma tokenizer_next_arity:
  "names_ok env \<Longrightarrow> pending_ok env tz \<Longrightarrow> tokenizer_next env tz = Inr (Some t, tz') \<Longrightarrow>
   token_in (arity_ok (token_functions env)) t \<and> pending_ok env tz'"
  by (auto simp: tokenizer_next_def split: list.splits if_splits dest: scan_arity) (auto simp: pending_ok_def)

lemma parse_loop_safe:
  "names_ok env \<Longrightarrow> pending_ok env tz \<Longrightarrow> parser_inv st \<Longrightarrow> parser_in (arity_ok (token_functions env)) st \<Longrightarrow>
   parse_loop env tz st \<noteq> Inl (Syntax_Error Parse_Panic) \<and>
   (\<forall>items. parse_loop env tz st = Inr items \<longrightarrow> functions_in (arity_ok (token_functions env)) items)"
proof (induction env tz st rule: parse_loop.induct)
  case (1 env tz st)
  show ?case
  proof (cases "\<exists>t tz'. tokenizer_next env tz = Inr (Some t, tz')")
    case False
    then show ?thesis
      using parse_end_no_panic [OF 1(4)] parse_end_in [OF 1(5)]
      by (subst (1 2) parse_loop.simps)
        (auto simp: lift_error_def split: sum.splits option.splits prod.splits)
  next
    case True
    then obtain t tz' where n: "tokenizer_next env tz = Inr (Some t, tz')" by blast
    have t: "token_in (arity_ok (token_functions env)) t" "pending_ok env tz'"
      using tokenizer_next_arity [OF 1(2,3) n] by auto
    show ?thesis
    proof (cases "parse_step t st")
      case (Inl e)
      then show ?thesis using n parse_step_inv [OF 1(4), of t] by (subst (1 2) parse_loop.simps) auto
    next
      case (Inr st')
      have "parser_inv st'" "parser_in (arity_ok (token_functions env)) st'"
        using parse_step_inv [OF 1(4), of t] parse_step_in [OF 1(5) t(1)] Inr by auto
      from 1(1) [OF n _ refl Inr 1(2) t(2) this] show ?thesis
        using n Inr by (subst (1 2) parse_loop.simps) auto
    qed
  qed
qed

subsection \<open>Correctness\<close>

text \<open>A context for examples: the variables of a mail transaction, and a regular expression that
  matches its own text.\<close>

definition sample_text :: text_env where
  "sample_text =
     \<lparr>to_lowercase = map ascii_lowercase, to_uppercase = (\<lambda>s. s), is_alphabetic = alpha_char, is_numeric = is_digit,
      is_uppercase = (\<lambda>c. 65 \<le> c \<and> c \<le> 90), is_lowercase = (\<lambda>c. 97 \<le> c \<and> c \<le> 122),
      sort_unstable_by = (\<lambda>_ l. l), to_reverse_name = (\<lambda>_. [])\<rparr>"

definition sample_env :: "rchar list token_env" where
  "sample_env = \<lparr>token_map = with_all_variables Map.empty, regex_new = Some, token_functions = sample_text\<rparr>"

definition sample_eval :: "(rchar list, nat, unit) eval_env" where
  "sample_eval =
     \<lparr>resolve_variable = (\<lambda>v. if v = 1 then Var_String (lit ''example.org'') else Var_Integer (uint v)),
      text_functions = sample_text, regex_captures = (\<lambda>r s. if r = s then Some [Some s] else None),
      eval_fnc = (\<lambda>_ _ n. (Inr (Var_Integer (int n)), n + 1))\<rparr>"

text \<open>\<open>rcpt_domain == "example.org" && !(retry_num + 2 * 3 > 10)\<close>.\<close>

definition sample_expr :: "rchar list expr" where
  "sample_expr =
     E_Binary And
       (E_Binary Eq (E_Variable 1) (E_Constant (Const_String (lit ''example.org''))))
       (E_Unary Not
         (E_Binary Gt
           (E_Binary Add (E_Variable 16) (E_Binary Multiply (E_Constant (Const_Integer 2)) (E_Constant (Const_Integer 3))))
           (E_Constant (Const_Integer 10))))"

text \<open>C39: The text of an expression, with parentheses only where the precedence of the operators needs
  them, is read as the program of that expression, and running the program on the stack machine has
  the value, the captures and the effects of the expression itself: operands from left to right, the
  second operand of a conjunction or a disjunction only when the first one does not decide.\<close>

theorem expression_text_correct:
  assumes "well_formed e" "renderable env rt e" "length (tokens 1 True e) < 2 ^ 32" "length (compile_expr e) < 2 ^ 32"
  shows "\<exists>items. expression_parse env (render_all rt (tokens 1 True e)) = Inr items \<and>
    eval_expression ev items caps w = tree_eval ev e caps w"
proof -
  have "eval_items ev (compile_expr e @ []) [] caps w = eval_bind (tree_eval ev e caps w) (\<lambda>v. eval_items ev [] [v])"
    using eval_compile [OF assms(4), of ev "[]" "[]"] by simp
  then have "eval_expression ev (compile_expr e) caps w = tree_eval ev e caps w"
    by (cases "tree_eval ev e caps w"; cases "fst (tree_eval ev e caps w)") (auto simp: eval_expression_def)
  then show ?thesis using expression_parse_render [OF assms(1-3)] by blast
qed

lemma sample_names:
  "token_map sample_env (lit ''rcpt_domain'') = Some (Tok_Variable 1)"
  "token_map sample_env (lit ''retry_num'') = Some (Tok_Variable 16)"
  by (simp_all add: sample_env_def with_all_variables_def with_variables_def VARIABLES_MAP_def lit_inject)

lemma sample_variable_names: "variable_name 1 = lit ''rcpt_domain''" "variable_name 16 = lit ''retry_num''"
  by (simp_all add: variable_name_def VARIABLES_MAP_def)

lemma sample_text_plain: "plain_text (lit ''example.org'')"
  by (simp add: plain_text_def lit_def utf8_encode_def encode_char_def is_scalar_def)

lemma sample_tokens:
  "tokens 1 True sample_expr =
     [Tok_Variable 1, Tok_Binary Eq, Tok_Constant (Const_String (lit ''example.org'')), Tok_Binary And, Tok_Unary Not,
      OpenParen, Tok_Variable 16, Tok_Binary Add, Tok_Constant (Const_Integer 2), Tok_Binary Multiply,
      Tok_Constant (Const_Integer 3), Tok_Binary Gt, Tok_Constant (Const_Integer 10), CloseParen]"
  by (simp add: sample_expr_def precedence_def in_parens_def)

lemma sample_renderable: "renderable sample_env id sample_expr"
proof -
  have "(1 :: u32) \<in> snd ` set VARIABLES_MAP" "(16 :: u32) \<in> snd ` set VARIABLES_MAP"
    by (simp_all add: VARIABLES_MAP_def)
  then show ?thesis
    by (simp add: sample_expr_def token_ok_def sample_text_plain sample_variable_names sample_names)
qed

lemma sample_rendered:
  "render_all id (tokens 1 True sample_expr) =
     ascii ''rcpt_domain == '' @ quoted (lit ''example.org'') @ ascii '' && ! ( retry_num + 2 * 3 > 10 ) ''"
  unfolding sample_tokens
  by (simp add: render_def binary_text_def sample_variable_names ascii_def lit_def utf8_encode_def encode_char_def
    nat_to_string.simps quoted_def)

theorem expression_text_correct_witness:
  "render_all id (tokens 1 True sample_expr) =
     ascii ''rcpt_domain == '' @ quoted (lit ''example.org'') @ ascii '' && ! ( retry_num + 2 * 3 > 10 ) '' \<and>
   (\<exists>items. expression_parse sample_env (render_all id (tokens 1 True sample_expr)) = Inr items \<and>
      eval_expression sample_eval items [] 0 = tree_eval sample_eval sample_expr [] 0)"
proof (intro conjI expression_text_correct sample_rendered sample_renderable)
  show "well_formed sample_expr" by (simp add: sample_expr_def)
  show "length (tokens 1 True sample_expr) < 2 ^ 32" unfolding sample_tokens by simp
  show "length (compile_expr sample_expr) < 2 ^ 32" by (simp add: sample_expr_def jump_of_def)
qed


lemma with_variables_tokens:
  "with_variables vars m s = Some t \<Longrightarrow> m s = Some t \<or> (\<exists>v. t = Tok_Variable v)"
proof -
  have "fold (\<lambda>(name, idx) m. if idx \<in> set vars then m(name \<mapsto> Tok_Variable idx) else m) xs m s = Some t \<Longrightarrow>
      m s = Some t \<or> (\<exists>v. t = Tok_Variable v)" for xs :: "(rchar list \<times> u32) list"
  proof (induction xs arbitrary: m)
    case (Cons x xs)
    obtain n i where x: "x = (n, i)" by (cases x)
    from Cons.IH [of "if i \<in> set vars then m(n \<mapsto> Tok_Variable i) else m"] Cons.prems show ?case
      by (auto simp: x split: if_splits)
  qed simp
  then show "with_variables vars m s = Some t \<Longrightarrow> ?thesis" by (simp add: with_variables_def)
qed

lemma sample_names_ok: "names_ok sample_env"
  by (auto simp: names_ok_def sample_env_def with_all_variables_def dest!: with_variables_tokens)


subsection \<open>Deviations\<close>

text \<open>The items of an array are counted by their first tokens, so an item that starts with an
  operator or a parenthesis is not counted and the array is refused.\<close>

lemma array_item_operator_refused:
  "expression_parse sample_env (ascii ''[!is_tls]'') = Inl (Syntax_Error (Wrong_Arguments (lit ''array'') 0 1))"
  "expression_parse sample_env (ascii ''[(priority)]'') = Inl (Syntax_Error (Wrong_Arguments (lit ''array'') 0 1))"
  by code_simp+

text \<open>After a bracket a minus sign is taken for a subtraction, and the array is empty.\<close>

lemma array_negative_number_lost:
  "expression_parse sample_env (ascii ''[-1]'') =
     Inr [Item_Constant (Const_Integer 1), Item_Binary Subtract, ArrayBuild 0]"
  by code_simp

text \<open>A single equals sign consumes the byte after it.\<close>

lemma equals_consumes_next:
  "expression_parse sample_env (ascii ''priority=10'') =
     Inr [Item_Variable 12, Item_Constant (Const_Integer 0), Item_Binary Eq]"
  by code_simp

text \<open>A backslash stays in the text of a string, and one that is escaped escapes the closing quote.\<close>

lemma escapes_keep_backslash:
  "parse_string 34 (92 # 110 # [34]) = Inr ([92, 10], [])"
  "parse_string 34 (92 # 92 # [34]) = Inl Unterminated_String"
  by code_simp+

end
