(* ===== verification/Spec2Isabelle.thy ===== *)
theory Spec2Isabelle
  imports Leb128 Base32 Bitmap Vec_Map Glob Snowflake Sqlite_Properties Change_Log Blob_Store Lookup_Store
    Query_Sort Pop3_Session Expr_Text
begin

text \<open>
  A verification development for the mail server under \<^verbatim>\<open>src/crates\<close>. It covers codecs
  and containers of the \<^verbatim>\<open>utils\<close> crate, the \<^verbatim>\<open>store\<close> crate down to the
  statements that its SQLite backend sends to the engine, the POP3 server on top of the accounts and
  mailboxes it is given, and the expression language of the configuration in the
  \<^verbatim>\<open>common\<close> crate.

  \<^bold>\<open>How the parts interact.\<close> A protocol session (POP3) parses requests, checks permissions and
  limits, and reads or changes a mailbox. Changes go through a batch of operations
  (\<open>BatchBuilder\<close>), whose keys and values are byte strings built by the codecs, and which a
  backend applies in one transaction. Reads are range scans and bitmap lookups over the same keys;
  queries combine them with filters, sorting and pages. Blobs, change logs, grants and lookup values
  are tables of the same store. Rules of the configuration are expressions that are parsed once and
  evaluated per session.

  \<^bold>\<open>Conventions.\<close> Machine integers are words, an \<open>i64\<close> an integer with its range written
  out, lengths and indices are natural numbers. The server is built without overflow checks, so
  arithmetic wraps around. A \<open>Result\<close> is a sum with the error on the left, a panic a value of
  its own where one is possible. Text is a list of code points or its UTF-8 bytes. State is passed
  explicitly. What is not part of the repository, or not modelled
  here, is an argument of the definitions that use it.

  \<^bold>\<open>Foundations.\<close>
  \<^item> \<open>Prelude\<close>: integers, results, slices, big-endian integers. \<open>Utf8\<close>: UTF-8 and
    decimal numbers. \<open>F64\<close>: IEEE 754 doubles with correct rounding, parsing and printing.
    \<open>Ip_Addr\<close>: addresses in text. These model what the code uses of the standard library.
  \<^item> \<open>Leb128\<close> (\<^verbatim>\<open>utils/src/codec/leb128.rs\<close>), \<open>Base32\<close>
    (\<^verbatim>\<open>codec/base32_custom.rs\<close>): round trips.
  \<^item> \<open>Bitmap\<close>, \<open>Vec_Map\<close> (\<^verbatim>\<open>utils/src/map\<close>): the set of flags and the
    association vector; each has an interface as a locale, interpreted on the model.
  \<^item> \<open>Glob\<close> (\<^verbatim>\<open>utils/src/glob.rs\<close>): the matcher ends and decides a declarative relation.
    \<open>Snowflake\<close> (\<^verbatim>\<open>utils/src/snowflake.rs\<close>): an identifier repeats only within a
    millisecond and after 4096 calls.

  \<^bold>\<open>The store\<close> (\<^verbatim>\<open>src/crates/store/src\<close>).
  \<^item> \<open>Store_Types\<close>, \<open>Store_Keys\<close>, \<open>Store_Values\<close>: the types of
    \<^verbatim>\<open>lib.rs\<close> and \<^verbatim>\<open>write/mod.rs\<close>, the keys of \<^verbatim>\<open>write/key.rs\<close>
    (different keys have different bytes in their table), serialised values (round trips over the
    locale \<open>item_codec\<close>).
  \<^item> \<open>Batch_Builder\<close> (\<^verbatim>\<open>write/batch.rs\<close>): the operations of a batch; the identifier
    chosen for a document is free.
  \<^item> \<open>Sqlite_Store\<close> (\<^verbatim>\<open>backend/sqlite\<close>): statements, reads, scans and the
    transaction of a write. The engine is an argument. \<open>Sqlite_Laws\<close> has its laws as the locale
    \<open>sqlite_engine\<close> (what a statement does to the tables when it succeeds; one that fails may
    leave anything but the state a rollback returns to; a query that fails has delivered a prefix of
    its rows) and the lemmas about the backend for every such engine;
    \<open>Mem_Engine\<close> interprets it on an engine in memory, on which all examples run.
    \<open>Sqlite_Properties\<close>: writes refine the abstract effect of their operations, are atomic,
    and give compare-and-swap, fresh documents and counters.
  \<^item> \<open>Store_Dispatch\<close> (\<^verbatim>\<open>dispatch/store.rs\<close>), \<open>Change_Log\<close>
    (\<^verbatim>\<open>write/log.rs\<close>, \<^verbatim>\<open>query/log.rs\<close>), \<open>Acl_Store\<close>
    (\<^verbatim>\<open>query/acl.rs\<close>), \<open>Blob_Store\<close> (\<^verbatim>\<open>dispatch/blob.rs\<close>,
    \<^verbatim>\<open>write/blob.rs\<close>), \<open>Lookup_Store\<close> (\<^verbatim>\<open>dispatch/lookup.rs\<close>): what
    each operation returns and which rows it removes or keeps.
  \<^item> \<open>Query_Filter\<close>, \<open>Query_Sort\<close> (\<^verbatim>\<open>query/filter.rs\<close>,
    \<^verbatim>\<open>query/sort.rs\<close>): a filter selects what its boolean expression says as long as in a
    nested \<open>And\<close> only the first part is a group, which the short cut of \<open>And\<close> needs;
    sorted pages hold the right documents.

  \<^bold>\<open>POP3\<close> (\<^verbatim>\<open>src/crates/pop3/src\<close>).
  \<^item> \<open>Sasl\<close> (\<^verbatim>\<open>common/src/auth/sasl.rs\<close>), \<open>Pop3_Protocol\<close>
    (\<^verbatim>\<open>protocol\<close>): commands are read back whatever the chunks they arrive in, responses reach
    a client unchanged unless a message starts with a dot.
  \<^item> \<open>Pop3_Session\<close> (\<^verbatim>\<open>client.rs\<close>, \<^verbatim>\<open>session.rs\<close>, \<^verbatim>\<open>op\<close>): a
    session with all its handlers over a record \<open>pop3_server\<close> of what it asks the rest of the
    server for. An invariant of all reachable states, absence of panics, and what is deleted.

  \<^bold>\<open>Expressions\<close> (\<^verbatim>\<open>src/crates/common/src/expr\<close>).
  \<^item> \<open>Expr_Value\<close> and \<open>Expr_Functions\<close>: values, operators and the table of functions.
    \<open>Expr_Tokenizer\<close>, \<open>Expr_Parser\<close>, \<open>Expr_Eval\<close>: from text to a program for a
    stack machine with jumps, and its run.
  \<^item> \<open>Expr_Grammar\<close> and \<open>Expr_Text\<close>: expression trees, their text and their value; parsing
    the text and running the program gives the value of the tree, and no text makes the parser or
    the program that it returns panic.

  \<^bold>\<open>Termination and bounds.\<close> Loops are total functions, by structural recursion or with a
  measure, except that of \<open>Glob\<close>, a \<open>partial_function\<close> which is shown to return on every
  input; no definition has fuel. The theorem on the text of expressions asks for fewer than \<open>2 ^ 32\<close> tokens
  and items, the width of the counters and jumps in the code, and fewer than \<open>2 ^ 31\<close> arguments.

  \<^bold>\<open>Deviations.\<close> Where the code does not do what it means to, a theorem or lemma shows it on an
  input: the short cut of filters, the rows of other accounts that a purge removes, messages that start with a
  dot, plain text kept across \<open>STLS\<close>, and the arrays, equals signs and escapes of expressions.

  \<^bold>\<open>Not modelled.\<close> The other database and blob backends, full-text search and the directory, which
  drive external services or third-party libraries. SMTP, IMAP, JMAP and ManageSieve sessions, the
  queue and the reports, which are as large again and rest on third-party parsers of mail, DNS and
  cryptography. Listeners, telemetry and start-up, which are input and output, and the files of the
  configuration. Of POP3, loading a mailbox from the store; of expressions, the functions that ask
  the directory, the stores or the resolver, and collecting a block of conditions from the keys of
  the configuration.
\<close>

end
